(* ===== verification/Prelude.thy ===== *)
theory Prelude
  imports Complex_Main "HOL-Library.Word" "HOL-Library.List_Lexorder" "HOL-Library.Char_ord"
begin

text \<open>
  What every component of the model shares: the C++ exceptions the program throws and catches, the
  outcome of a call (a value, an exception, or undefined behaviour), stateful calls as functions on
  an explicit state that keep the state when they throw, and the collections of rules the component
  proofs use.
\<close>

section \<open>Rule collections\<close>

named_theorems act_simps \<open>running the basic stateful calls\<close>
named_theorems act_defs \<open>definitions of the stateful calls of the library\<close>

section \<open>Exceptions\<close>

text \<open>
  The exception classes the program throws, with the text given to their constructor. The class
  hierarchy is that of the standard library and of \<open>util/retry.hpp\<close>: \<open>retry_error\<close> and
  \<open>std::overflow_error\<close> derive from \<open>std::runtime_error\<close>; \<open>std::domain_error\<close>,
  \<open>std::out_of_range\<close> and \<open>std::invalid_argument\<close> derive from \<open>std::logic_error\<close>; the errors of
  the JSON library derive from \<open>std::exception\<close> directly. \<open>Unknown_Option\<close> is the error of the option
  parser \<open>main\<close> catches, \<open>Other_Error\<close> stands for the exceptions nothing in the program names: those of
  the other parsing errors, of \<open>std::filesystem\<close>, of the sockets and of a wrong \<open>any_cast\<close>.
\<close>

datatype exn =
    Retry_Error string
  | Runtime_Error string
  | Overflow_Error string
  | Domain_Error string
  | Out_Of_Range string
  | Invalid_Argument string
  | Json_Error string
  | Unknown_Option string
  | Other_Error string

fun what :: "exn \<Rightarrow> string" where
  "what (Retry_Error m) = m"
| "what (Runtime_Error m) = m"
| "what (Overflow_Error m) = m"
| "what (Domain_Error m) = m"
| "what (Out_Of_Range m) = m"
| "what (Invalid_Argument m) = m"
| "what (Json_Error m) = m"
| "what (Unknown_Option m) = m"
| "what (Other_Error m) = m"

fun is_unknown_option :: "exn \<Rightarrow> bool" where
  "is_unknown_option (Unknown_Option _) = True"
| "is_unknown_option _ = False"

fun is_retry_error :: "exn \<Rightarrow> bool" where
  "is_retry_error (Retry_Error _) = True"
| "is_retry_error _ = False"

fun is_runtime_error :: "exn \<Rightarrow> bool" where
  "is_runtime_error (Retry_Error _) = True"
| "is_runtime_error (Runtime_Error _) = True"
| "is_runtime_error (Overflow_Error _) = True"
| "is_runtime_error _ = False"

fun is_domain_error :: "exn \<Rightarrow> bool" where
  "is_domain_error (Domain_Error _) = True"
| "is_domain_error _ = False"

fun is_out_of_range :: "exn \<Rightarrow> bool" where
  "is_out_of_range (Out_Of_Range _) = True"
| "is_out_of_range _ = False"

fun is_invalid_argument :: "exn \<Rightarrow> bool" where
  "is_invalid_argument (Invalid_Argument _) = True"
| "is_invalid_argument _ = False"

lemma retry_error_is_runtime_error: "is_retry_error e \<Longrightarrow> is_runtime_error e"
  by (cases e) auto

lemma is_retry_errorE:
  assumes "is_retry_error e"
  obtains m where "e = Retry_Error m"
  using assms by (cases e) auto

section \<open>Outcomes and stateful calls\<close>

text \<open>
  \<open>Undef\<close> is the behaviour the C++ standard leaves undefined: a null pointer followed, the end
  iterator erased, an uninitialised variable read. \<open>Hang\<close> is a call that does not return.
\<close>

datatype 'a outcome = Ok 'a | Throw exn | Undef | Hang

type_synonym ('s, 'a) act = "'s \<Rightarrow> 'a outcome \<times> 's"

text \<open>A run that has been evaluated to a normal outcome.\<close>

lemma ok_case: "(case m of (Ok a, s) \<Rightarrow> Q a s | _ \<Rightarrow> False) \<Longrightarrow> \<exists>a s. m = (Ok a, s) \<and> Q a s"
  by (auto split: prod.splits outcome.splits)

fun outcome_bind :: "'a outcome \<Rightarrow> ('a \<Rightarrow> 'b outcome) \<Rightarrow> 'b outcome" where
  "outcome_bind (Ok a) f = f a"
| "outcome_bind (Throw e) f = Throw e"
| "outcome_bind Undef f = Undef"
| "outcome_bind Hang f = Hang"

definition act_return :: "'a \<Rightarrow> ('s, 'a) act" where
  "act_return a = (\<lambda>s. (Ok a, s))"

definition act_throw :: "exn \<Rightarrow> ('s, 'a) act" where
  "act_throw e = (\<lambda>s. (Throw e, s))"

definition act_undef :: "('s, 'a) act" where
  "act_undef = (\<lambda>s. (Undef, s))"

definition act_lift :: "'a outcome \<Rightarrow> ('s, 'a) act" where
  "act_lift r = (\<lambda>s. (r, s))"

definition act_read :: "('s \<Rightarrow> 'a) \<Rightarrow> ('s, 'a) act" where
  "act_read f = (\<lambda>s. (Ok (f s), s))"

definition act_modify :: "('s \<Rightarrow> 's) \<Rightarrow> ('s, unit) act" where
  "act_modify f = (\<lambda>s. (Ok (), f s))"

definition act_bind :: "('s, 'a) act \<Rightarrow> ('a \<Rightarrow> ('s, 'b) act) \<Rightarrow> ('s, 'b) act" where
  "act_bind m f = (\<lambda>s. case m s of
      (Ok a, s') \<Rightarrow> f a s'
    | (Throw e, s') \<Rightarrow> (Throw e, s')
    | (Undef, s') \<Rightarrow> (Undef, s')
    | (Hang, s') \<Rightarrow> (Hang, s'))"

definition act_then :: "('s, 'a) act \<Rightarrow> ('s, 'b) act \<Rightarrow> ('s, 'b) act" where
  "act_then m n = act_bind m (\<lambda>_. n)"

text \<open>
  A \<open>try\<close> block with one handler: what the block did to the state before it threw stays, and an
  exception of another class passes through.
\<close>

definition act_catch :: "(exn \<Rightarrow> bool) \<Rightarrow> ('s, 'a) act \<Rightarrow> (exn \<Rightarrow> ('s, 'a) act) \<Rightarrow> ('s, 'a) act" where
  "act_catch p m h = (\<lambda>s. case m s of
      (Throw e, s') \<Rightarrow> (if p e then h e s' else (Throw e, s'))
    | r \<Rightarrow> r)"

lemma act_return_run [act_simps]: "act_return a s = (Ok a, s)"
  by (simp add: act_return_def)

lemma act_throw_run [act_simps]: "act_throw e s = (Throw e, s)"
  by (simp add: act_throw_def)

lemma act_undef_run [act_simps]: "act_undef s = (Undef, s)"
  by (simp add: act_undef_def)

lemma act_lift_run [act_simps]: "act_lift r s = (r, s)"
  by (simp add: act_lift_def)

lemma act_read_run [act_simps]: "act_read f s = (Ok (f s), s)"
  by (simp add: act_read_def)

lemma act_modify_run [act_simps]: "act_modify f s = (Ok (), f s)"
  by (simp add: act_modify_def)

lemma act_bind_Ok [act_simps]: "m s = (Ok a, s') \<Longrightarrow> act_bind m f s = f a s'"
  by (simp add: act_bind_def)

lemma act_bind_Throw [act_simps]: "m s = (Throw e, s') \<Longrightarrow> act_bind m f s = (Throw e, s')"
  by (simp add: act_bind_def)

lemma act_bind_Undef [act_simps]: "m s = (Undef, s') \<Longrightarrow> act_bind m f s = (Undef, s')"
  by (simp add: act_bind_def)

lemma act_bind_Hang [act_simps]: "m s = (Hang, s') \<Longrightarrow> act_bind m f s = (Hang, s')"
  by (simp add: act_bind_def)

lemma act_then_Ok [act_simps]: "m s = (Ok a, s') \<Longrightarrow> act_then m n s = n s'"
  by (simp add: act_then_def act_simps)

lemma act_then_Throw [act_simps]: "m s = (Throw e, s') \<Longrightarrow> act_then m n s = (Throw e, s')"
  by (simp add: act_then_def act_simps)

lemma act_then_Undef [act_simps]: "m s = (Undef, s') \<Longrightarrow> act_then m n s = (Undef, s')"
  by (simp add: act_then_def act_simps)

lemma act_then_Hang [act_simps]: "m s = (Hang, s') \<Longrightarrow> act_then m n s = (Hang, s')"
  by (simp add: act_then_def act_simps)

lemma act_catch_Ok [act_simps]: "m s = (Ok a, s') \<Longrightarrow> act_catch p m h s = (Ok a, s')"
  by (simp add: act_catch_def)

lemma act_catch_Undef [act_simps]: "m s = (Undef, s') \<Longrightarrow> act_catch p m h s = (Undef, s')"
  by (simp add: act_catch_def)

lemma act_catch_Hang [act_simps]: "m s = (Hang, s') \<Longrightarrow> act_catch p m h s = (Hang, s')"
  by (simp add: act_catch_def)

lemma act_catch_caught [act_simps]:
  "m s = (Throw e, s') \<Longrightarrow> p e \<Longrightarrow> act_catch p m h s = h e s'"
  by (simp add: act_catch_def)

lemma act_catch_passed [act_simps]:
  "m s = (Throw e, s') \<Longrightarrow> \<not> p e \<Longrightarrow> act_catch p m h s = (Throw e, s')"
  by (simp add: act_catch_def)

text \<open>The same without a premise, for the basic calls.\<close>

lemma act_bind_read_run [act_simps]: "act_bind (act_read f) g s = g (f s) s"
  by (simp add: act_bind_def act_read_def)

lemma act_bind_lift_run [act_simps]:
  "act_bind (act_lift (Ok a)) g s = g a s" "act_bind (act_lift (Throw e)) g s = (Throw e, s)"
  "act_bind (act_lift Undef) g s = (Undef, s)" "act_bind (act_lift Hang) g s = (Hang, s)"
  by (simp_all add: act_bind_def act_lift_def)

lemma act_then_modify_run [act_simps]: "act_then (act_modify f) n s = n (f s)"
  by (simp add: act_then_def act_bind_def act_modify_def)

text \<open>Sequencing is associative, with \<^const>\<open>act_return\<close> as its unit.\<close>

lemma act_bind_return_left [simp]: "act_bind (act_return a) f = f a"
  by (simp add: act_bind_def act_return_def)

lemma act_bind_return_right [simp]: "act_bind m act_return = m"
  by (rule ext) (simp add: act_bind_def act_return_def split: prod.splits outcome.splits)

lemma act_bind_assoc: "act_bind (act_bind m f) g = act_bind m (\<lambda>a. act_bind (f a) g)"
  by (rule ext) (simp add: act_bind_def split: prod.splits outcome.splits)

lemma act_bind_throw [simp]: "act_bind (act_throw e) f = act_throw e"
  by (simp add: act_bind_def act_throw_def)

text \<open>What an outcome of a sequence says about its parts.\<close>

lemma act_bind_OkE:
  assumes "act_bind m f s = (Ok b, s'')"
  obtains a s' where "m s = (Ok a, s')" "f a s' = (Ok b, s'')"
  using assms by (auto simp: act_bind_def split: prod.splits outcome.splits)

lemma act_bind_UndefE:
  assumes "act_bind m f s = (Undef, s'')"
  obtains "m s = (Undef, s'')" | a s' where "m s = (Ok a, s')" "f a s' = (Undef, s'')"
  using assms by (auto simp: act_bind_def split: prod.splits outcome.splits)

text \<open>
  An invariant of the state that every part keeps, whatever its outcome, is kept by the whole.
\<close>

definition act_keeps :: "('s \<Rightarrow> bool) \<Rightarrow> ('s, 'a) act \<Rightarrow> bool" where
  "act_keeps P m \<longleftrightarrow> (\<forall>s. P s \<longrightarrow> P (snd (m s)))"

lemma act_keepsI: "(\<And>s. P s \<Longrightarrow> P (snd (m s))) \<Longrightarrow> act_keeps P m"
  by (simp add: act_keeps_def)

lemma act_keepsD: "act_keeps P m \<Longrightarrow> P s \<Longrightarrow> P (snd (m s))"
  by (simp add: act_keeps_def)

lemma act_keeps_return [intro, simp]: "act_keeps P (act_return a)"
  by (simp add: act_keeps_def act_return_def)

lemma act_keeps_throw [intro, simp]: "act_keeps P (act_throw e)"
  by (simp add: act_keeps_def act_throw_def)

lemma act_keeps_undef [intro, simp]: "act_keeps P act_undef"
  by (simp add: act_keeps_def act_undef_def)

lemma act_keeps_lift [intro, simp]: "act_keeps P (act_lift r)"
  by (simp add: act_keeps_def act_lift_def)

lemma act_keeps_read [intro, simp]: "act_keeps P (act_read f)"
  by (simp add: act_keeps_def act_read_def)

lemma act_keeps_modify: "(\<And>s. P s \<Longrightarrow> P (f s)) \<Longrightarrow> act_keeps P (act_modify f)"
  by (simp add: act_keeps_def act_modify_def)

lemma act_keeps_bind [intro]:
  assumes "act_keeps P m" and "\<And>a. act_keeps P (f a)"
  shows "act_keeps P (act_bind m f)"
proof (rule act_keepsI)
  fix s assume "P s"
  with assms(1) have "P (snd (m s))" by (rule act_keepsD)
  then show "P (snd (act_bind m f s))"
    using assms(2) by (auto simp: act_bind_def act_keeps_def split: prod.splits outcome.splits)
qed

lemma act_keeps_then [intro]: "act_keeps P m \<Longrightarrow> act_keeps P n \<Longrightarrow> act_keeps P (act_then m n)"
  by (auto simp: act_then_def)

lemma act_keeps_catch [intro]:
  assumes "act_keeps P m" and "\<And>e. act_keeps P (h e)"
  shows "act_keeps P (act_catch p m h)"
proof (rule act_keepsI)
  fix s assume "P s"
  with assms(1) have "P (snd (m s))" by (rule act_keepsD)
  then show "P (snd (act_catch p m h s))"
    using assms(2) by (auto simp: act_catch_def act_keeps_def split: prod.splits outcome.splits)
qed

text \<open>
  A call that returns or throws from every state, and one that never runs into undefined behaviour.
\<close>

definition act_ends :: "('s, 'a) act \<Rightarrow> bool" where
  "act_ends m \<longleftrightarrow> (\<forall>s. fst (m s) \<noteq> Hang)"

lemma act_endsI: "(\<And>s. fst (m s) \<noteq> Hang) \<Longrightarrow> act_ends m"
  by (simp add: act_ends_def)

lemma act_endsD: "act_ends m \<Longrightarrow> fst (m s) \<noteq> Hang"
  by (simp add: act_ends_def)

lemma act_ends_return: "act_ends (act_return a)"
  by (simp add: act_ends_def act_return_def)

lemma act_ends_lift: "r \<noteq> Hang \<Longrightarrow> act_ends (act_lift r)"
  by (simp add: act_ends_def act_lift_def)

lemma act_ends_bind: "act_ends m \<Longrightarrow> (\<And>a. act_ends (f a)) \<Longrightarrow> act_ends (act_bind m f)"
  by (simp add: act_ends_def act_bind_def split: prod.split outcome.split) (metis fst_conv)

lemma act_ends_if: "(c \<Longrightarrow> act_ends m) \<Longrightarrow> (\<not> c \<Longrightarrow> act_ends n) \<Longrightarrow> act_ends (if c then m else n)"
  by simp

lemmas act_ends_intros = act_ends_return act_ends_lift act_ends_bind act_ends_if

section \<open>Loops over containers\<close>

text \<open>A range-based \<open>for\<close> loop whose body may throw.\<close>

fun act_for :: "('a \<Rightarrow> ('s, unit) act) \<Rightarrow> 'a list \<Rightarrow> ('s, unit) act" where
  "act_for f [] = act_return ()"
| "act_for f (x # xs) = act_then (f x) (act_for f xs)"

text \<open>A loop that collects one value per element.\<close>

fun act_map :: "('a \<Rightarrow> ('s, 'b) act) \<Rightarrow> 'a list \<Rightarrow> ('s, 'b list) act" where
  "act_map f [] = act_return []"
| "act_map f (x # xs) = act_bind (f x) (\<lambda>y. act_bind (act_map f xs) (\<lambda>ys. act_return (y # ys)))"

lemma act_map_Ok:
  assumes "\<And>x. x \<in> set xs \<Longrightarrow> f x s = (Ok (g x), s)"
  shows "act_map f xs s = (Ok (map g xs), s)"
  using assms by (induction xs) (simp_all add: act_simps)

lemma act_map_length: "act_map f xs s = (Ok ys, s') \<Longrightarrow> length ys = length xs"
proof (induction xs arbitrary: s ys)
  case Nil
  then show ?case by (simp add: act_return_def)
next
  case (Cons x xs)
  then show ?case by (fastforce simp: act_return_def elim!: act_bind_OkE)
qed

lemma act_keeps_for: "(\<And>x. act_keeps P (f x)) \<Longrightarrow> act_keeps P (act_for f xs)"
  by (induction xs) auto

lemma act_keeps_map: "(\<And>x. act_keeps P (f x)) \<Longrightarrow> act_keeps P (act_map f xs)"
  by (induction xs) auto

section \<open>Transition systems\<close>

text \<open>
  The concurrent parts of the program are step relations. An invariant that holds initially and is
  kept by every step holds in every reachable state; that argument is made once, here.
\<close>

locale transition_system =
  fixes init :: "'s \<Rightarrow> bool"
    and step :: "'s \<Rightarrow> 's \<Rightarrow> bool"
    and inv :: "'s \<Rightarrow> bool"
  assumes init_inv: "init s \<Longrightarrow> inv s"
    and step_inv: "step s t \<Longrightarrow> inv s \<Longrightarrow> inv t"
begin

lemma steps_inv: "step\<^sup>*\<^sup>* s t \<Longrightarrow> inv s \<Longrightarrow> inv t"
  by (induction rule: rtranclp_induct) (auto intro: step_inv)

lemma reachable_inv: "init s \<Longrightarrow> step\<^sup>*\<^sup>* s t \<Longrightarrow> inv t"
  by (blast intro: init_inv steps_inv)

end

end
