(* ===== verification/Std_Map.thy ===== *)
theory Std_Map
  imports Prelude
begin

text \<open>
  \<open>std::map\<close>, which the program uses for its router, its connection pool, its event tables and the
  objects of its JSON values: an association list sorted strictly by key, with the operations the
  source calls on it. The order matters (the router tries its routes in key order), and so does the
  difference between \<open>operator[]\<close> (which overwrites, or inserts a default) and \<open>emplace\<close> (which
  leaves an existing entry alone).
\<close>

type_synonym ('k, 'v) std_map = "('k \<times> 'v) list"

section \<open>Operations\<close>

definition sm_empty :: "('k, 'v) std_map" where
  "sm_empty = []"

fun sm_find :: "'k \<Rightarrow> ('k, 'v) std_map \<Rightarrow> 'v option" where
  "sm_find k [] = None"
| "sm_find k ((k', v) # m) = (if k = k' then Some v else sm_find k m)"

text \<open>\<open>m[k] = v\<close>.\<close>

fun sm_put :: "'k::linorder \<Rightarrow> 'v \<Rightarrow> ('k, 'v) std_map \<Rightarrow> ('k, 'v) std_map" where
  "sm_put k v [] = [(k, v)]"
| "sm_put k v ((k', v') # m) =
     (if k < k' then (k, v) # (k', v') # m
      else if k = k' then (k, v) # m
      else (k', v') # sm_put k v m)"

text \<open>\<open>m.emplace(k, v)\<close>: no effect where the key is present.\<close>

definition sm_emplace :: "'k::linorder \<Rightarrow> 'v \<Rightarrow> ('k, 'v) std_map \<Rightarrow> ('k, 'v) std_map" where
  "sm_emplace k v m = (case sm_find k m of None \<Rightarrow> sm_put k v m | Some _ \<Rightarrow> m)"

text \<open>\<open>m[k]\<close> read: a missing key is inserted with the default value first.\<close>

definition sm_index :: "'v \<Rightarrow> 'k::linorder \<Rightarrow> ('k, 'v) std_map \<Rightarrow> 'v \<times> ('k, 'v) std_map" where
  "sm_index d k m = (case sm_find k m of Some v \<Rightarrow> (v, m) | None \<Rightarrow> (d, sm_put k d m))"

text \<open>\<open>m.at(k)\<close>.\<close>

definition sm_at :: "'k \<Rightarrow> ('k, 'v) std_map \<Rightarrow> 'v outcome" where
  "sm_at k m = (case sm_find k m of Some v \<Rightarrow> Ok v | None \<Rightarrow> Throw (Out_Of_Range ''map::at''))"

fun sm_delete :: "'k \<Rightarrow> ('k, 'v) std_map \<Rightarrow> ('k, 'v) std_map" where
  "sm_delete k [] = []"
| "sm_delete k ((k', v) # m) = (if k = k' then m else (k', v) # sm_delete k m)"

text \<open>\<open>m.erase(m.find(k))\<close>: erasing the end iterator is undefined.\<close>

definition sm_erase_found :: "'k \<Rightarrow> ('k, 'v) std_map \<Rightarrow> ('k, 'v) std_map outcome" where
  "sm_erase_found k m = (case sm_find k m of None \<Rightarrow> Undef | Some _ \<Rightarrow> Ok (sm_delete k m))"

definition sm_keys :: "('k, 'v) std_map \<Rightarrow> 'k list" where
  "sm_keys m = map fst m"

definition sm_size :: "('k, 'v) std_map \<Rightarrow> nat" where
  "sm_size m = length m"

section \<open>The sorted keys\<close>

definition sm_ok :: "('k::linorder, 'v) std_map \<Rightarrow> bool" where
  "sm_ok m \<longleftrightarrow> sorted_wrt (<) (map fst m)"

lemma sm_ok_empty [simp]: "sm_ok []"
  by (simp add: sm_ok_def)

lemma sm_ok_Cons: "sm_ok ((k, v) # m) \<longleftrightarrow> (\<forall>x \<in> fst ` set m. k < x) \<and> sm_ok m"
  by (simp add: sm_ok_def)

lemma fst_set_sm_put: "fst ` set (sm_put k v m) = insert k (fst ` set m)"
  by (induction m rule: sm_put.induct) auto

lemma sm_ok_put [simp]: "sm_ok m \<Longrightarrow> sm_ok (sm_put k v m)"
  by (induction k v m rule: sm_put.induct) (auto simp: sm_ok_Cons fst_set_sm_put)

lemma fst_set_sm_delete: "fst ` set (sm_delete k m) \<subseteq> fst ` set m"
  by (induction k m rule: sm_delete.induct) auto

lemma sm_ok_delete [simp]: "sm_ok m \<Longrightarrow> sm_ok (sm_delete k m)"
proof (induction k m rule: sm_delete.induct)
  case (2 k k' v m)
  then show ?case using fst_set_sm_delete [of k m] by (fastforce simp: sm_ok_Cons)
qed simp

lemma sm_ok_emplace [simp]: "sm_ok m \<Longrightarrow> sm_ok (sm_emplace k v m)"
  by (simp add: sm_emplace_def split: option.split)

lemma sm_ok_index [simp]: "sm_ok m \<Longrightarrow> sm_ok (snd (sm_index d k m))"
  by (simp add: sm_index_def split: option.split)

section \<open>Lookups\<close>

lemma sm_find_None_iff: "sm_find k m = None \<longleftrightarrow> k \<notin> fst ` set m"
  by (induction k m rule: sm_find.induct) auto

lemma sm_find_Some_in: "sm_find k m = Some v \<Longrightarrow> (k, v) \<in> set m"
  by (induction k m rule: sm_find.induct) (auto split: if_splits)

lemma sm_find_put: "sm_find k' (sm_put k v m) = (if k' = k then Some v else sm_find k' m)"
  by (induction k v m rule: sm_put.induct) auto

lemma sm_find_delete_other: "k' \<noteq> k \<Longrightarrow> sm_find k' (sm_delete k m) = sm_find k' m"
  by (induction k m rule: sm_delete.induct) auto

lemma sm_find_delete_same:
  assumes "sm_ok m"
  shows "sm_find k (sm_delete k m) = None"
  using assms
proof (induction k m rule: sm_delete.induct)
  case (2 k k' v m)
  show ?case
  proof (cases "k = k'")
    case True
    with "2.prems" have "k \<notin> fst ` set m" by (auto simp: sm_ok_Cons)
    with True show ?thesis by (simp add: sm_find_None_iff)
  next
    case False
    with 2 show ?thesis by (simp add: sm_ok_Cons)
  qed
qed simp

lemma sm_find_ok: "sm_ok m \<Longrightarrow> (k, v) \<in> set m \<Longrightarrow> sm_find k m = Some v"
proof (induction k m rule: sm_find.induct)
  case (2 k k' v' m)
  then show ?case by (force simp: sm_ok_Cons)
qed simp

lemma sm_find_delete:
  "sm_ok m \<Longrightarrow> sm_find k' (sm_delete k m) = (if k' = k then None else sm_find k' m)"
  by (simp add: sm_find_delete_same sm_find_delete_other)

lemma sm_find_emplace:
  "sm_find k' (sm_emplace k v m) =
     (if k' = k \<and> sm_find k m = None then Some v else sm_find k' m)"
  by (auto simp: sm_emplace_def sm_find_put split: option.split)

lemma fst_sm_index: "fst (sm_index d k m) = (case sm_find k m of Some v \<Rightarrow> v | None \<Rightarrow> d)"
  by (simp add: sm_index_def split: option.split)

lemma sm_find_index:
  "sm_find k' (snd (sm_index d k m)) =
     (if k' = k \<and> sm_find k m = None then Some d else sm_find k' m)"
  by (auto simp: sm_index_def sm_find_put split: option.split)

lemma sm_erase_found_Ok: "sm_find k m = Some v \<Longrightarrow> sm_erase_found k m = Ok (sm_delete k m)"
  by (simp add: sm_erase_found_def)

text \<open>Two sorted maps with the same lookups are the same map.\<close>

lemma sm_ok_distinct: "sm_ok m \<Longrightarrow> distinct (map fst m)"
  by (simp add: sm_ok_def strict_sorted_iff)

lemma sm_ext:
  fixes m n :: "('k::linorder, 'v) std_map"
  assumes "sm_ok m" "sm_ok n" and "\<And>k. sm_find k m = sm_find k n"
  shows "m = n"
proof -
  have "set m \<subseteq> set n" if "sm_ok m" "\<And>k. sm_find k m = sm_find k n"
    for m n :: "('k, 'v) std_map"
  proof
    fix p assume p: "p \<in> set m"
    obtain k v where kv: "p = (k, v)" by force
    with p that(1) have "sm_find k m = Some v" by (auto intro: sm_find_ok)
    then have "sm_find k n = Some v" by (simp add: that(2))
    then show "p \<in> set n" by (auto simp: kv dest: sm_find_Some_in)
  qed
  from this [OF assms(1,3)] this [OF assms(2)] assms(3) have eq: "set m = set n"
    by (metis subset_antisym)
  have "inj_on fst (set m \<union> set n)"
    using sm_ok_distinct [OF assms(1)] eq by (simp add: distinct_map)
  with eq assms(1,2) show ?thesis
    by (intro map_sorted_distinct_set_unique [of fst]) (simp_all add: sm_ok_def strict_sorted_iff)
qed

section \<open>The contract of a keyed store\<close>

text \<open>
  What the components rely on when they keep a table: lookups after an insertion and a deletion, and
  that the representation stays well formed. The consequences the components use are proved from
  the contract alone.
\<close>

locale keyed_store =
  fixes find :: "'k \<Rightarrow> 'm \<Rightarrow> 'v option"
    and put :: "'k \<Rightarrow> 'v \<Rightarrow> 'm \<Rightarrow> 'm"
    and delete :: "'k \<Rightarrow> 'm \<Rightarrow> 'm"
    and ok :: "'m \<Rightarrow> bool"
  assumes find_put: "find k' (put k v m) = (if k' = k then Some v else find k' m)"
    and find_delete: "ok m \<Longrightarrow> find k' (delete k m) = (if k' = k then None else find k' m)"
    and ok_put: "ok m \<Longrightarrow> ok (put k v m)"
    and ok_delete: "ok m \<Longrightarrow> ok (delete k m)"
begin

lemma find_put_same [simp]: "find k (put k v m) = Some v"
  by (simp add: find_put)

lemma find_put_other: "k' \<noteq> k \<Longrightarrow> find k' (put k v m) = find k' m"
  by (simp add: find_put)

lemma find_delete_same: "ok m \<Longrightarrow> find k (delete k m) = None"
  by (simp add: find_delete)

lemma delete_undoes_put:
  assumes "ok m" "find k m = None"
  shows "find k' (delete k (put k v m)) = find k' m"
  using assms by (simp add: find_delete find_put ok_put)

text \<open>Inserting a list of entries one by one: the last entry of a key is the one found.\<close>

lemma find_puts:
  "find k (fold (\<lambda>(k, v). put k v) kvs m) =
     (case map_of (rev kvs) k of Some v \<Rightarrow> Some v | None \<Rightarrow> find k m)"
  by (induction kvs arbitrary: m)
     (auto simp: find_put map_add_def split: option.splits)

lemma ok_puts: "ok m \<Longrightarrow> ok (fold (\<lambda>(k, v). put k v) kvs m)"
  by (induction kvs arbitrary: m) (auto intro: ok_put)

end

interpretation smap: keyed_store sm_find sm_put sm_delete sm_ok
  by unfold_locales (simp_all add: sm_find_put sm_find_delete)

lemma sm_find_map_of: "sm_find k m = map_of m k"
  by (induction k m rule: sm_find.induct) auto

text \<open>Copying every entry of one map into another, in key order.\<close>

lemma sm_find_merge:
  assumes "sm_ok n"
  shows "sm_find k (fold (\<lambda>(k, v). sm_put k v) n m) =
     (case sm_find k n of Some v \<Rightarrow> Some v | None \<Rightarrow> sm_find k m)"
proof -
  have "map_of (rev n) = map_of n"
    using sm_ok_distinct [OF assms]
    by (intro map_of_eqI) (auto simp: rev_map [symmetric] map_of_eq_Some_iff)
  then show ?thesis by (simp add: smap.find_puts sm_find_map_of [of k n])
qed

end
