(* ===== verification/Json.thy ===== *)
theory Json
  imports Std_Map
begin

text \<open>
  \<open>util/json.cpp\<close>: JSON values, the conversion of XML nodes to JSON, and the libraries behind them.

  A JSON value is represented by its content, with the constructors of \<open>Json::ValueType\<close>; the
  members of an object are a \<open>std::map\<close>. An XML node is represented by what the source reads of
  one: its name, its attributes, its text and its children; a lookup that finds nothing gives the
  node all of whose observations are empty. Parsing and printing of both are parameters: the fields
  of the record \<open>libs\<close>. The text of the exceptions the JSON library throws itself is left empty.
\<close>

section \<open>JSON values\<close>

datatype json =
    JNull
  | JBool bool
  | JInt int
  | JUInt nat
  | JReal rat
  | JString string
  | JArray "json list"
  | JObject "(string \<times> json) list"

abbreviation empty_object :: json where
  "empty_object \<equiv> JObject []"

text \<open>\<open>value[key]\<close>: null becomes an object, a missing member reads as null.\<close>

fun j_index :: "json \<Rightarrow> string \<Rightarrow> json outcome" where
  "j_index (JObject m) k = Ok (case sm_find k m of Some v \<Rightarrow> v | None \<Rightarrow> JNull)"
| "j_index JNull k = Ok JNull"
| "j_index _ k = Throw (Json_Error '''')"

text \<open>\<open>value[key] = v\<close>.\<close>

fun j_assign :: "json \<Rightarrow> string \<Rightarrow> json \<Rightarrow> json outcome" where
  "j_assign (JObject m) k v = Ok (JObject (sm_put k v m))"
| "j_assign JNull k v = Ok (JObject (sm_put k v []))"
| "j_assign _ k v = Throw (Json_Error '''')"

text \<open>\<open>value[k1][k2]...\<close> as an lvalue: the value found, and the whole with the path made.\<close>

fun j_touch :: "json \<Rightarrow> string list \<Rightarrow> (json \<times> json) outcome" where
  "j_touch j [] = Ok (j, j)"
| "j_touch j (k # ks) =
     outcome_bind (j_index j k) (\<lambda>v.
     outcome_bind (j_touch v ks) (\<lambda>(r, v').
     outcome_bind (j_assign j k v') (\<lambda>j'. Ok (r, j'))))"

fun j_member :: "json \<Rightarrow> string \<Rightarrow> bool outcome" where
  "j_member (JObject m) k = Ok (sm_find k m \<noteq> None)"
| "j_member JNull k = Ok False"
| "j_member _ k = Throw (Json_Error '''')"

text \<open>\<open>value.get(key, default)\<close>.\<close>

fun j_get :: "json \<Rightarrow> string \<Rightarrow> json \<Rightarrow> json outcome" where
  "j_get (JObject m) k d = Ok (case sm_find k m of Some v \<Rightarrow> v | None \<Rightarrow> d)"
| "j_get JNull k d = Ok d"
| "j_get _ k d = Throw (Json_Error '''')"

fun is_object :: "json \<Rightarrow> bool" where
  "is_object (JObject _) = True"
| "is_object _ = False"

fun is_array :: "json \<Rightarrow> bool" where
  "is_array (JArray _) = True"
| "is_array _ = False"

fun members :: "json \<Rightarrow> (string, json) std_map" where
  "members (JObject m) = m"
| "members _ = []"

lemma is_objectE:
  assumes "is_object j"
  obtains m where "j = JObject m"
  using assms by (cases j) auto

lemma is_arrayE:
  assumes "is_array j"
  obtains xs where "j = JArray xs"
  using assms by (cases j) auto

section \<open>XML nodes\<close>

datatype xml = Node (nd_name: string) (nd_attrs: "(string \<times> string) list") (nd_text: string)
  (nd_children: "xml list")

definition null_node :: xml where
  "null_node = Node [] [] [] []"

text \<open>\<open>node.child(name)\<close>: the first child of that name.\<close>

definition xml_child :: "xml \<Rightarrow> string \<Rightarrow> xml" where
  "xml_child nd n = (case filter (\<lambda>c. nd_name c = n) (nd_children nd) of [] \<Rightarrow> null_node | c # _ \<Rightarrow> c)"

section \<open>The libraries\<close>

text \<open>
  \<^item> \<open>lib_reader_parse\<close>: \<open>Json::Reader::parse\<close>, the formatted error messages or the root value;
  \<^item> \<open>lib_fast_write\<close>: \<open>Json::FastWriter::write\<close>;
  \<^item> \<open>lib_as_string\<close>: \<open>Json::Value::asString\<close>, which throws on a value with no string form;
  \<^item> \<open>lib_xml_load\<close>: the document \<open>pugi::xml_document\<close> holds after loading a buffer (an empty one if
    the buffer is not XML);
  \<^item> \<open>lib_xml_save\<close>: the text a document is saved as.
\<close>

record libs =
  lib_reader_parse :: "string \<Rightarrow> string + json"
  lib_fast_write :: "json \<Rightarrow> string"
  lib_as_string :: "json \<Rightarrow> string outcome"
  lib_xml_load :: "string \<Rightarrow> xml"
  lib_xml_save :: "xml \<Rightarrow> string"

text \<open>The documented behaviour of \<open>asString\<close> the properties rely on: a string is itself.\<close>

definition as_string_ok :: "libs \<Rightarrow> bool" where
  "as_string_ok L \<longleftrightarrow> (\<forall>s. lib_as_string L (JString s) = Ok s) \<and> lib_as_string L JNull = Ok ''''"

lemma as_string_okD:
  "as_string_ok L \<Longrightarrow> lib_as_string L (JString s) = Ok s"
  "as_string_ok L \<Longrightarrow> lib_as_string L JNull = Ok ''''"
  by (simp_all add: as_string_ok_def)

text \<open>\<open>std::string::c_str\<close> read as a C string: up to the first NUL.\<close>

definition c_str :: "string \<Rightarrow> string" where
  "c_str s = takeWhile (\<lambda>c. c \<noteq> CHR 0x00) s"

definition parse :: "libs \<Rightarrow> string \<Rightarrow> json outcome" where
  "parse L str = (case lib_reader_parse L (c_str str) of
      Inl messages \<Rightarrow> Throw (Invalid_Argument (''json error:'' @ [CHR 0x0A] @ messages @ [CHR 0x0A]))
    | Inr v \<Rightarrow> Ok v)"

definition error :: "string \<Rightarrow> json" where
  "error detail = JObject (sm_put ''detail'' (JString detail) [])"

definition stringify :: "libs \<Rightarrow> json \<Rightarrow> string" where
  "stringify L j = lib_fast_write L j"

section \<open>XML to JSON\<close>

definition xml_attributes :: "(string \<times> string) list \<Rightarrow> (string, json) std_map" where
  "xml_attributes attrs = fold (\<lambda>(n, v). sm_put n (JString v)) attrs []"

definition xml_base :: "(string \<times> string) list \<Rightarrow> string \<Rightarrow> (string, json) std_map" where
  "xml_base attrs text =
     (let data = [];
          attributes = xml_attributes attrs;
          data = (if attributes \<noteq> [] then sm_put ''attrib'' (JObject attributes) data else data)
      in if text \<noteq> '''' then sm_put ''text'' (JString text) data else data)"

text \<open>
  One child: a node without a name is skipped; a name already present becomes an array, unless it is
  one, and the child is appended to it.
\<close>

definition add_child :: "(string, json) std_map \<Rightarrow> string \<Rightarrow> json \<Rightarrow> (string, json) std_map" where
  "add_child data name j =
     (case sm_find name data of
        Some (JArray xs) \<Rightarrow> sm_put name (JArray (xs @ [j])) data
      | Some current \<Rightarrow> sm_put name (JArray [current, j]) data
      | None \<Rightarrow> sm_put name j data)"

fun xml_to_json :: "xml \<Rightarrow> json"
  and xml_children_to_json :: "xml list \<Rightarrow> (string, json) std_map \<Rightarrow> (string, json) std_map" where
  "xml_to_json (Node name attrs text children) =
     JObject (xml_children_to_json children (xml_base attrs text))"
| "xml_children_to_json [] data = data"
| "xml_children_to_json (c # cs) data =
     xml_children_to_json cs
       (if nd_name c = '''' then data else add_child data (nd_name c) (xml_to_json c))"

lemma is_object_xml_to_json [simp]: "is_object (xml_to_json nd)"
  by (cases nd) simp

lemma xml_to_json_not_array [simp]: "\<not> is_array (xml_to_json nd)"
  by (cases nd) simp

text \<open>
  The specification: the values recorded under one name, in document order, are one value, or the
  array of all of them when there are several.
\<close>

fun collect :: "json list \<Rightarrow> json option" where
  "collect [] = None"
| "collect [x] = Some x"
| "collect xs = Some (JArray xs)"

definition base_values :: "xml \<Rightarrow> string \<Rightarrow> json list" where
  "base_values nd n =
     (if n = ''attrib'' \<and> nd_attrs nd \<noteq> [] then [JObject (xml_attributes (nd_attrs nd))]
      else if n = ''text'' \<and> nd_text nd \<noteq> '''' then [JString (nd_text nd)] else [])"

definition child_values :: "xml \<Rightarrow> string \<Rightarrow> json list" where
  "child_values nd n = map xml_to_json (filter (\<lambda>c. nd_name c = n) (nd_children nd))"

lemma sm_find_add_child:
  assumes "sm_find n data = collect xs" and "\<forall>x \<in> set xs. \<not> is_array x"
  shows "sm_find n (add_child data n j) = collect (xs @ [j])"
proof (cases xs rule: collect.cases)
  case 1
  with assms(1) show ?thesis by (simp add: add_child_def sm_find_put)
next
  case (2 x)
  with assms show ?thesis by (cases x) (simp_all add: add_child_def sm_find_put)
next
  case (3 x y ys)
  with assms(1) show ?thesis by (simp add: add_child_def sm_find_put)
qed

lemma sm_find_add_child_other: "m \<noteq> n \<Longrightarrow> sm_find m (add_child data n j) = sm_find m data"
  by (simp add: add_child_def sm_find_put split: option.split json.split)

lemma sm_ok_add_child [simp]: "sm_ok data \<Longrightarrow> sm_ok (add_child data n j)"
  by (simp add: add_child_def split: option.split json.split)

lemma xml_children_find:
  assumes "n \<noteq> ''''" and "sm_find n data = collect xs" and "\<forall>x \<in> set xs. \<not> is_array x"
  shows "sm_find n (xml_children_to_json cs data) =
    collect (xs @ map xml_to_json (filter (\<lambda>c. nd_name c = n) cs))"
  using assms(2,3)
proof (induction cs arbitrary: data xs)
  case Nil
  then show ?case by simp
next
  case (Cons c cs)
  consider (skip) "nd_name c = ''''" | (same) "nd_name c = n" | (other) "nd_name c \<noteq> ''''" "nd_name c \<noteq> n"
    by blast
  then show ?case
  proof cases
    case skip
    with assms(1) Cons show ?thesis by auto
  next
    case same
    have "sm_find n (add_child data n (xml_to_json c)) = collect (xs @ [xml_to_json c])"
      by (rule sm_find_add_child [OF Cons.prems])
    with Cons.prems(2) have "sm_find n (xml_children_to_json cs (add_child data n (xml_to_json c))) =
        collect ((xs @ [xml_to_json c]) @ map xml_to_json (filter (\<lambda>c. nd_name c = n) cs))"
      by (intro Cons.IH) auto
    with same assms(1) show ?thesis by simp
  next
    case other
    with Cons.prems have "sm_find n (add_child data (nd_name c) (xml_to_json c)) = collect xs"
      by (simp add: sm_find_add_child_other)
    with Cons.IH [OF this Cons.prems(2)] other show ?thesis by simp
  qed
qed

lemma xml_attributes_empty: "xml_attributes attrs = [] \<longleftrightarrow> attrs = []"
proof (cases attrs)
  case Nil
  then show ?thesis by (simp add: xml_attributes_def)
next
  case (Cons p ps)
  have "fold (\<lambda>(n, v). sm_put n (JString v)) ps m \<noteq> []" if "m \<noteq> []" for m
    using that
  proof (induction ps arbitrary: m)
    case (Cons q qs)
    have "sm_put (fst q) (JString (snd q)) m \<noteq> []"
      by (metis fst_set_sm_put image_is_empty insert_not_empty list.set(1))
    with Cons.IH show ?case by (simp add: case_prod_beta)
  qed simp
  with Cons show ?thesis by (simp add: xml_attributes_def case_prod_beta)
qed

lemma xml_base_find: "sm_find n (xml_base (nd_attrs nd) (nd_text nd)) = collect (base_values nd n)"
  by (simp add: xml_base_def base_values_def Let_def sm_find_put xml_attributes_empty)

lemma base_values_not_array: "\<forall>x \<in> set (base_values nd n). \<not> is_array x"
  by (simp add: base_values_def)

lemma xml_members_find:
  assumes "n \<noteq> []"
  shows "sm_find n (members (xml_to_json nd)) = collect (base_values nd n @ child_values nd n)"
proof (cases nd)
  case (Node nm attrs tx children)
  have "sm_find n (xml_base attrs tx) = collect (base_values nd n)"
    using xml_base_find [of n nd] Node by simp
  from xml_children_find [OF assms this base_values_not_array]
  show ?thesis using Node by (simp add: child_values_def)
qed

text \<open>C28: for every element name, the converted node has under that name exactly the values the
  document has for it: nothing if there is none, the value itself if there is one, and the array of
  all of them in document order if there are several; the attributes count as a value named
  \<open>attrib\<close> and the text as one named \<open>text\<close>.\<close>

theorem xml_to_json_members:
  assumes "n \<noteq> ''''"
  shows "sm_find n (members (xml_to_json nd)) = collect (base_values nd n @ child_values nd n)"
  using assms by (rule xml_members_find)

theorem xml_to_json_members_witness:
  "sm_find ''disk'' (members (xml_to_json
      (Node ''devices'' [] '''' [Node ''disk'' [(''type'', ''file'')] '''' [], Node '''' [] ''x'' [],
        Node ''disk'' [] '''' []]))) =
    Some (JArray [JObject [(''attrib'', JObject [(''type'', JString ''file'')])], JObject []])"
  by (subst xml_to_json_members)
     (simp_all add: base_values_def child_values_def xml_base_def xml_attributes_def)

text \<open>The members of a converted node are sorted by name, at every level.\<close>

fun json_ok :: "json \<Rightarrow> bool" where
  "json_ok (JArray xs) = (\<forall>x \<in> set xs. json_ok x)"
| "json_ok (JObject m) = (sm_ok m \<and> (\<forall>p \<in> set m. json_ok (snd p)))"
| "json_ok _ = True"

lemma set_sm_put: "set (sm_put k v m) \<subseteq> insert (k, v) (set m)"
  by (induction k v m rule: sm_put.induct) auto

definition jmap_ok :: "(string, json) std_map \<Rightarrow> bool" where
  "jmap_ok m \<longleftrightarrow> sm_ok m \<and> (\<forall>p \<in> set m. json_ok (snd p))"

lemma json_ok_JObject: "json_ok (JObject m) \<longleftrightarrow> jmap_ok m"
  by (simp add: jmap_ok_def)

declare json_ok.simps(2) [simp del]
declare json_ok_JObject [simp]

lemma jmap_ok_empty [simp]: "jmap_ok []"
  by (simp add: jmap_ok_def)

lemma jmap_ok_put: "jmap_ok m \<Longrightarrow> json_ok v \<Longrightarrow> jmap_ok (sm_put k v m)"
  using set_sm_put [of k v m] by (fastforce simp: jmap_ok_def)

lemma jmap_ok_find: "jmap_ok m \<Longrightarrow> sm_find k m = Some v \<Longrightarrow> json_ok v"
  by (fastforce simp: jmap_ok_def dest: sm_find_Some_in)

lemma jmap_ok_attributes: "jmap_ok (xml_attributes attrs)"
proof -
  have "jmap_ok (fold (\<lambda>(n, v). sm_put n (JString v)) attrs m)" if "jmap_ok m" for m
    using that by (induction attrs arbitrary: m) (auto simp: jmap_ok_put simp del: sm_put.simps)
  then show ?thesis by (simp add: xml_attributes_def)
qed

lemma jmap_ok_base: "jmap_ok (xml_base attrs text)"
proof -
  have "jmap_ok (if xml_attributes attrs \<noteq> [] then sm_put ''attrib'' (JObject (xml_attributes attrs)) [] else [])"
    using jmap_ok_attributes [of attrs] jmap_ok_put [of "[]"] by (simp del: sm_put.simps)
  then show ?thesis using jmap_ok_put by (simp add: xml_base_def Let_def del: sm_put.simps)
qed

lemma jmap_ok_add_child:
  assumes "jmap_ok data" "json_ok j"
  shows "jmap_ok (add_child data n j)"
proof (cases "sm_find n data")
  case None
  with assms show ?thesis by (simp add: add_child_def jmap_ok_put)
next
  case (Some v)
  with assms(1) have "json_ok v" by (rule jmap_ok_find)
  with assms have "jmap_ok (sm_put n (JArray [v, j]) data)"
    and "\<And>xs. v = JArray xs \<Longrightarrow> jmap_ok (sm_put n (JArray (xs @ [j])) data)"
    by (auto intro!: jmap_ok_put)
  with Some show ?thesis by (cases v) (simp_all add: add_child_def)
qed

lemma json_ok_xml: "json_ok (xml_to_json nd)"
  and jmap_ok_xml_children: "jmap_ok data \<Longrightarrow> jmap_ok (xml_children_to_json cs data)"
  by (induction nd and cs data rule: xml_to_json_xml_children_to_json.induct)
     (simp_all add: jmap_ok_base jmap_ok_add_child)

end
