(* ===== verification/Http.thy ===== *)
theory Http
  imports Json
begin

text \<open>
  \<open>http/types.hpp\<close> and \<open>http/util.cpp\<close>: requests and responses, and how a handler fills a response.
  Of the HTTP library's message types only what the source reads and writes is kept: the start line,
  the fields it sets, the keep-alive flag, the content length and the body. Whether a request asks
  for a websocket upgrade (\<open>beast::websocket::is_upgrade\<close>) is an observation of the request.
\<close>

section \<open>Messages\<close>

datatype verb = Get | Head | Post | Put | Delete | Options | Other_Verb string

fun method_string :: "verb \<Rightarrow> string" where
  "method_string Get = ''GET''"
| "method_string Head = ''HEAD''"
| "method_string Post = ''POST''"
| "method_string Put = ''PUT''"
| "method_string Delete = ''DELETE''"
| "method_string Options = ''OPTIONS''"
| "method_string (Other_Verb s) = s"

record request =
  rq_method :: verb
  rq_target :: string
  rq_version :: nat
  rq_body :: string
  rq_upgrade :: bool

datatype status =
    Switching_Protocols
  | Status_Ok
  | Created
  | Not_Modified
  | Temporary_Redirect
  | Bad_Request
  | Not_Found
  | Method_Not_Allowed
  | Internal_Server_Error
  | Gateway_Timeout

fun result_int :: "status \<Rightarrow> nat" where
  "result_int Switching_Protocols = 101"
| "result_int Status_Ok = 200"
| "result_int Created = 201"
| "result_int Not_Modified = 304"
| "result_int Temporary_Redirect = 307"
| "result_int Bad_Request = 400"
| "result_int Not_Found = 404"
| "result_int Method_Not_Allowed = 405"
| "result_int Internal_Server_Error = 500"
| "result_int Gateway_Timeout = 504"

datatype field = Content_Type | Server | Allow | Location

record response =
  rs_version :: nat
  rs_result :: status
  rs_fields :: "field \<rightharpoonup> string"
  rs_keep_alive :: bool
  rs_length :: "nat option"
  rs_body :: string

text \<open>\<open>http::response()\<close>.\<close>

definition new_response :: response where
  "new_response = \<lparr>rs_version = 11, rs_result = Status_Ok, rs_fields = Map.empty,
     rs_keep_alive = True, rs_length = None, rs_body = []\<rparr>"

definition set_field :: "field \<Rightarrow> string \<Rightarrow> response \<Rightarrow> response" where
  "set_field f v r = r\<lparr>rs_fields := (rs_fields r)(f \<mapsto> v)\<rparr>"

definition set_result :: "status \<Rightarrow> response \<Rightarrow> response" where
  "set_result st r = r\<lparr>rs_result := st\<rparr>"

section \<open>Filling a response\<close>

text \<open>The body is appended to, not replaced.\<close>

definition set_response :: "string \<Rightarrow> status \<Rightarrow> response \<Rightarrow> response" where
  "set_response data status_code r =
     (let r1 = set_result status_code r;
          r2 = r1\<lparr>rs_body := rs_body r1 @ data\<rparr>
      in r2\<lparr>rs_length := Some (length (rs_body r2))\<rparr>)"

definition set_response_json :: "libs \<Rightarrow> json \<Rightarrow> status \<Rightarrow> response \<Rightarrow> response" where
  "set_response_json L data status_code r = set_response (stringify L data) status_code r"

text \<open>What every finished response satisfies: the announced length is the length of the body.\<close>

definition length_ok :: "response \<Rightarrow> bool" where
  "length_ok r \<longleftrightarrow> (case rs_length r of None \<Rightarrow> rs_body r = [] | Some n \<Rightarrow> n = length (rs_body r))"

lemma length_ok_new [simp]: "length_ok new_response"
  by (simp add: length_ok_def new_response_def)

lemma length_ok_set_field [simp]: "length_ok (set_field f v r) = length_ok r"
  by (simp add: length_ok_def set_field_def split: option.split)

lemma length_ok_set_result [simp]: "length_ok (set_result st r) = length_ok r"
  by (simp add: length_ok_def set_result_def split: option.split)

lemma length_ok_set_response [simp]: "length_ok (set_response d st r)"
  by (simp add: length_ok_def set_response_def Let_def)

lemma length_ok_set_response_json [simp]: "length_ok (set_response_json L j st r)"
  by (simp add: set_response_json_def)

lemma rs_fields_simps [simp]:
  "rs_fields (set_response d st r) = rs_fields r"
  "rs_fields (set_response_json L j st r) = rs_fields r"
  "rs_fields (set_result st r) = rs_fields r"
  "rs_fields (set_field f v r) = (rs_fields r)(f \<mapsto> v)"
  by (simp_all add: set_response_json_def set_response_def set_result_def set_field_def Let_def)

lemma rs_result_simps [simp]:
  "rs_result (set_response d st r) = st"
  "rs_result (set_response_json L j st r) = st"
  "rs_result (set_result st r) = st"
  "rs_result (set_field f v r) = rs_result r"
  by (simp_all add: set_response_json_def set_response_def set_result_def set_field_def Let_def)

lemma rs_body_simps [simp]:
  "rs_body (set_response d st r) = rs_body r @ d"
  "rs_body (set_response_json L j st r) = rs_body r @ stringify L j"
  "rs_body (set_result st r) = rs_body r"
  "rs_body (set_field f v r) = rs_body r"
  by (simp_all add: set_response_json_def set_response_def set_result_def set_field_def Let_def)

lemma rs_start_simps [simp]:
  "rs_version (set_response d st r) = rs_version r"
  "rs_version (set_response_json L j st r) = rs_version r"
  "rs_version (set_result st r) = rs_version r"
  "rs_version (set_field f v r) = rs_version r"
  "rs_keep_alive (set_response d st r) = rs_keep_alive r"
  "rs_keep_alive (set_response_json L j st r) = rs_keep_alive r"
  "rs_keep_alive (set_result st r) = rs_keep_alive r"
  "rs_keep_alive (set_field f v r) = rs_keep_alive r"
  by (simp_all add: set_response_json_def set_response_def set_result_def set_field_def Let_def)

lemma new_response_simps [simp]:
  "rs_version new_response = 11" "rs_result new_response = Status_Ok"
  "rs_fields new_response = Map.empty" "rs_keep_alive new_response"
  "rs_length new_response = None" "rs_body new_response = []"
  by (simp_all add: new_response_def)

end
