(* ===== verification/Libvirt.thy ===== *)
theory Libvirt
  imports Http
begin

text \<open>
  The outside world of the daemon. \<open>libvirt.hpp\<close> and \<open>libvirt.cpp\<close> wrap the C functions of libvirt;
  those functions are the fields of the record \<open>libvirt_c\<close>, calls on an abstract world \<open>'w\<close> that may
  return, and may throw the \<open>retry_error\<close> of the close callback the program registers
  (\<open>virt/connection.cpp\<close>, modelled in \<open>Connection\<close>). Pointers of the C library are numbers, a
  nullable one is an option, and an output parameter is the value written to it, if any is. The
  record \<open>os\<close> holds the system calls of \<open>syscall.hpp\<close> and the clock the request path uses.
\<close>

section \<open>The C interface\<close>

type_synonym connect_ptr = nat
type_synonym domain_ptr = nat
type_synonym network_ptr = nat

record block_info =
  bi_capacity :: "64 word"
  bi_allocation :: "64 word"
  bi_physical :: "64 word"

record 'w libvirt_c =
  c_virConnectOpen :: "string \<Rightarrow> ('w, connect_ptr option) act"
  c_virConnectRegisterCloseCallback :: "connect_ptr \<Rightarrow> ('w, int) act"
  c_virConnectGetCapabilities :: "connect_ptr \<Rightarrow> ('w, string option) act"
  c_virConnectGetHostname :: "connect_ptr \<Rightarrow> ('w, string option) act"
  c_virConnectGetLibVersion :: "connect_ptr \<Rightarrow> ('w, int \<times> nat option) act"
  c_virConnectGetMaxVcpus :: "connect_ptr \<Rightarrow> string \<Rightarrow> ('w, int) act"
  c_virConnectGetSysinfo :: "connect_ptr \<Rightarrow> nat \<Rightarrow> ('w, string option) act"
  c_virConnectGetType :: "connect_ptr \<Rightarrow> ('w, string option) act"
  c_virConnectGetURI :: "connect_ptr \<Rightarrow> ('w, string option) act"
  c_virConnectGetVersion :: "connect_ptr \<Rightarrow> ('w, int \<times> nat option) act"
  c_virConnectIsEncrypted :: "connect_ptr \<Rightarrow> ('w, int) act"
  c_virConnectIsSecure :: "connect_ptr \<Rightarrow> ('w, int) act"
  c_virConnectListAllDomains :: "connect_ptr \<Rightarrow> int \<Rightarrow> ('w, int \<times> domain_ptr list) act"
  c_virConnectListAllNetworks :: "connect_ptr \<Rightarrow> int \<Rightarrow> ('w, int \<times> network_ptr list) act"
  c_virDomainLookupByName :: "connect_ptr \<Rightarrow> string \<Rightarrow> ('w, domain_ptr option) act"
  c_virDomainCreate :: "domain_ptr \<Rightarrow> ('w, int) act"
  c_virDomainRef :: "domain_ptr \<Rightarrow> ('w, int) act"
  c_virConnectDomainEventRegisterAny :: "connect_ptr option \<Rightarrow> int \<Rightarrow> ('w, int) act"
  c_virConnectDomainEventDeregisterAny :: "connect_ptr option \<Rightarrow> int \<Rightarrow> ('w, int) act"
  c_virDomainGetState :: "domain_ptr \<Rightarrow> int \<Rightarrow> ('w, int \<times> (int \<times> int) option) act"
  c_virDomainGetID :: "domain_ptr \<Rightarrow> ('w, int) act"
  c_virDomainGetName :: "domain_ptr \<Rightarrow> ('w, string option) act"
  c_virDomainGetAutostart :: "domain_ptr \<Rightarrow> ('w, int \<times> int option) act"
  c_virDomainSetAutostart :: "domain_ptr \<Rightarrow> int \<Rightarrow> ('w, int) act"
  c_virDomainGetMetadata :: "domain_ptr \<Rightarrow> int \<Rightarrow> string option \<Rightarrow> nat \<Rightarrow> ('w, string option) act"
  c_virDomainSetMetadata ::
    "domain_ptr \<Rightarrow> int \<Rightarrow> string \<Rightarrow> string option \<Rightarrow> string option \<Rightarrow> nat \<Rightarrow> ('w, int) act"
  c_virDomainGetXMLDesc :: "domain_ptr \<Rightarrow> int \<Rightarrow> ('w, string option) act"
  c_virDomainDefineXML :: "connect_ptr option \<Rightarrow> string \<Rightarrow> ('w, domain_ptr option) act"
  c_virDomainGetBlockInfo :: "domain_ptr \<Rightarrow> string \<Rightarrow> int \<Rightarrow> ('w, int \<times> block_info option) act"
  c_virDomainShutdown :: "domain_ptr \<Rightarrow> ('w, int) act"
  c_virNetworkGetXMLDesc :: "network_ptr \<Rightarrow> nat \<Rightarrow> ('w, string option) act"
  c_virEventRegisterDefaultImpl :: "('w, int) act"
  c_virEventAddTimeout :: "int \<Rightarrow> ('w, int) act"
  c_virEventRunDefaultImpl :: "('w, int) act"
  c_virConnSetErrorFunc :: "connect_ptr \<Rightarrow> ('w, unit) act"

text \<open>
  The system: \<open>getpwnam\<close> (only whether there is an entry matters), \<open>errno\<close>, \<open>strerror\<close>, the steady
  clock in nanoseconds and \<open>sleep_for\<close> in milliseconds.
\<close>

record 'w os =
  sys_getpwnam :: "string \<Rightarrow> 'w \<Rightarrow> bool \<times> 'w"
  os_errno :: "'w \<Rightarrow> int"
  os_strerror :: "int \<Rightarrow> string"
  os_now :: "'w \<Rightarrow> int \<times> 'w"
  os_sleep_for :: "int \<Rightarrow> 'w \<Rightarrow> 'w"

section \<open>Constants of libvirt\<close>

definition VIR_DOMAIN_EVENT_STARTED :: nat where "VIR_DOMAIN_EVENT_STARTED = 2"
definition VIR_DOMAIN_EVENT_STOPPED :: nat where "VIR_DOMAIN_EVENT_STOPPED = 5"
definition VIR_DOMAIN_EVENT_SHUTDOWN :: nat where "VIR_DOMAIN_EVENT_SHUTDOWN = 6"
definition VIR_DOMAIN_EVENT_ID_LIFECYCLE :: int where "VIR_DOMAIN_EVENT_ID_LIFECYCLE = 0"
definition VIR_DOMAIN_SHUTDOWN :: nat where "VIR_DOMAIN_SHUTDOWN = 4"
definition VIR_DOMAIN_SHUTOFF :: nat where "VIR_DOMAIN_SHUTOFF = 5"
definition VIR_DOMAIN_METADATA_TITLE :: int where "VIR_DOMAIN_METADATA_TITLE = 0"
definition VIR_DOMAIN_METADATA_DESCRIPTION :: int where "VIR_DOMAIN_METADATA_DESCRIPTION = 1"

lemmas virt_consts =
  VIR_DOMAIN_EVENT_STARTED_def VIR_DOMAIN_EVENT_STOPPED_def VIR_DOMAIN_EVENT_SHUTDOWN_def
  VIR_DOMAIN_EVENT_ID_LIFECYCLE_def VIR_DOMAIN_SHUTDOWN_def VIR_DOMAIN_SHUTOFF_def
  VIR_DOMAIN_METADATA_TITLE_def VIR_DOMAIN_METADATA_DESCRIPTION_def

section \<open>The wrapper class\<close>

text \<open>
  A C string becomes a \<open>std::string\<close>; constructing one from a null pointer is undefined. Metadata is
  the exception: a null pointer is the empty string there.
\<close>

definition from_c_string :: "string option \<Rightarrow> ('w, string) act" where
  "from_c_string s = (case s of Some t \<Rightarrow> act_return t | None \<Rightarrow> act_undef)"

definition virConnectOpen :: "'w libvirt_c \<Rightarrow> string \<Rightarrow> ('w, connect_ptr option) act" where
  "virConnectOpen lv u = c_virConnectOpen lv u"

definition virConnectRegisterCloseCallback :: "'w libvirt_c \<Rightarrow> connect_ptr \<Rightarrow> ('w, int) act" where
  "virConnectRegisterCloseCallback lv conn = c_virConnectRegisterCloseCallback lv conn"

definition virConnectGetCapabilities :: "'w libvirt_c \<Rightarrow> connect_ptr \<Rightarrow> ('w, string) act" where
  "virConnectGetCapabilities lv conn = act_bind (c_virConnectGetCapabilities lv conn) from_c_string"

definition virConnectGetHostname :: "'w libvirt_c \<Rightarrow> connect_ptr \<Rightarrow> ('w, string) act" where
  "virConnectGetHostname lv conn = act_bind (c_virConnectGetHostname lv conn) from_c_string"

definition virConnectGetLibVersion :: "'w libvirt_c \<Rightarrow> connect_ptr \<Rightarrow> ('w, int \<times> nat option) act" where
  "virConnectGetLibVersion lv conn = c_virConnectGetLibVersion lv conn"

definition virConnectGetMaxVcpus :: "'w libvirt_c \<Rightarrow> connect_ptr \<Rightarrow> string \<Rightarrow> ('w, int) act" where
  "virConnectGetMaxVcpus lv conn ty = c_virConnectGetMaxVcpus lv conn ty"

definition virConnectGetSysinfo :: "'w libvirt_c \<Rightarrow> connect_ptr \<Rightarrow> nat \<Rightarrow> ('w, string) act" where
  "virConnectGetSysinfo lv conn flags = act_bind (c_virConnectGetSysinfo lv conn flags) from_c_string"

definition virConnectGetType :: "'w libvirt_c \<Rightarrow> connect_ptr \<Rightarrow> ('w, string option) act" where
  "virConnectGetType lv conn = c_virConnectGetType lv conn"

definition virConnectGetURI :: "'w libvirt_c \<Rightarrow> connect_ptr \<Rightarrow> ('w, string) act" where
  "virConnectGetURI lv conn = act_bind (c_virConnectGetURI lv conn) from_c_string"

definition virConnectGetVersion :: "'w libvirt_c \<Rightarrow> connect_ptr \<Rightarrow> ('w, int \<times> nat option) act" where
  "virConnectGetVersion lv conn = c_virConnectGetVersion lv conn"

definition virConnectIsEncrypted :: "'w libvirt_c \<Rightarrow> connect_ptr \<Rightarrow> ('w, int) act" where
  "virConnectIsEncrypted lv conn = c_virConnectIsEncrypted lv conn"

definition virConnectIsSecure :: "'w libvirt_c \<Rightarrow> connect_ptr \<Rightarrow> ('w, int) act" where
  "virConnectIsSecure lv conn = c_virConnectIsSecure lv conn"

text \<open>The two listings copy the first \<open>count\<close> pointers; a negative count copies none.\<close>

definition virConnectListAllDomains :: "'w libvirt_c \<Rightarrow> connect_ptr \<Rightarrow> int \<Rightarrow> ('w, domain_ptr list) act" where
  "virConnectListAllDomains lv conn flags =
     act_bind (c_virConnectListAllDomains lv conn flags)
       (\<lambda>(count, domains). act_return (take (nat count) domains))"

definition virConnectListAllNetworks :: "'w libvirt_c \<Rightarrow> connect_ptr \<Rightarrow> int \<Rightarrow> ('w, network_ptr list) act" where
  "virConnectListAllNetworks lv conn flags =
     act_bind (c_virConnectListAllNetworks lv conn flags)
       (\<lambda>(count, networks). act_return (take (nat count) networks))"

definition virDomainLookupByName ::
    "'w libvirt_c \<Rightarrow> connect_ptr \<Rightarrow> string \<Rightarrow> ('w, domain_ptr option) act" where
  "virDomainLookupByName lv conn name = c_virDomainLookupByName lv conn name"

definition virDomainCreate :: "'w libvirt_c \<Rightarrow> domain_ptr \<Rightarrow> ('w, int) act" where
  "virDomainCreate lv dptr = c_virDomainCreate lv dptr"

definition virDomainRef :: "'w libvirt_c \<Rightarrow> domain_ptr \<Rightarrow> ('w, int) act" where
  "virDomainRef lv dptr = c_virDomainRef lv dptr"

text \<open>
  The callback, the opaque pointer handed back to it (the event object) and the domain, always null,
  are left out: a registration is for all domains, and the model hands the event to the callback.
\<close>

definition virConnectDomainEventRegisterAny ::
    "'w libvirt_c \<Rightarrow> connect_ptr option \<Rightarrow> int \<Rightarrow> ('w, int) act" where
  "virConnectDomainEventRegisterAny lv conn event_id = c_virConnectDomainEventRegisterAny lv conn event_id"

definition virConnectDomainEventDeregisterAny ::
    "'w libvirt_c \<Rightarrow> connect_ptr option \<Rightarrow> int \<Rightarrow> ('w, int) act" where
  "virConnectDomainEventDeregisterAny lv conn callback_id =
     c_virConnectDomainEventDeregisterAny lv conn callback_id"

definition virDomainGetState ::
    "'w libvirt_c \<Rightarrow> domain_ptr \<Rightarrow> int \<Rightarrow> ('w, int \<times> (int \<times> int) option) act" where
  "virDomainGetState lv dptr flags = c_virDomainGetState lv dptr flags"

definition virDomainGetID :: "'w libvirt_c \<Rightarrow> domain_ptr \<Rightarrow> ('w, int) act" where
  "virDomainGetID lv dptr = c_virDomainGetID lv dptr"

definition virDomainGetName :: "'w libvirt_c \<Rightarrow> domain_ptr \<Rightarrow> ('w, string option) act" where
  "virDomainGetName lv dptr = c_virDomainGetName lv dptr"

definition virDomainGetAutostart :: "'w libvirt_c \<Rightarrow> domain_ptr \<Rightarrow> ('w, int \<times> int option) act" where
  "virDomainGetAutostart lv dptr = c_virDomainGetAutostart lv dptr"

definition virDomainSetAutostart :: "'w libvirt_c \<Rightarrow> domain_ptr \<Rightarrow> int \<Rightarrow> ('w, int) act" where
  "virDomainSetAutostart lv dptr autostart = c_virDomainSetAutostart lv dptr autostart"

definition virDomainGetMetadata ::
    "'w libvirt_c \<Rightarrow> domain_ptr \<Rightarrow> int \<Rightarrow> string option \<Rightarrow> nat \<Rightarrow> ('w, string) act" where
  "virDomainGetMetadata lv dptr ty u flags =
     act_bind (c_virDomainGetMetadata lv dptr ty u flags)
       (\<lambda>value. act_return (case value of Some v \<Rightarrow> v | None \<Rightarrow> []))"

definition virDomainSetMetadata ::
    "'w libvirt_c \<Rightarrow> domain_ptr \<Rightarrow> int \<Rightarrow> string \<Rightarrow> string option \<Rightarrow> string option \<Rightarrow> nat \<Rightarrow> ('w, int) act" where
  "virDomainSetMetadata lv dptr ty metadata key u flags =
     c_virDomainSetMetadata lv dptr ty metadata key u flags"

definition virDomainGetXMLDesc :: "'w libvirt_c \<Rightarrow> domain_ptr \<Rightarrow> int \<Rightarrow> ('w, string) act" where
  "virDomainGetXMLDesc lv dptr flags = act_bind (c_virDomainGetXMLDesc lv dptr flags) from_c_string"

definition virDomainDefineXML ::
    "'w libvirt_c \<Rightarrow> connect_ptr option \<Rightarrow> string \<Rightarrow> ('w, domain_ptr option) act" where
  "virDomainDefineXML lv conn x = c_virDomainDefineXML lv conn x"

text \<open>The block information is value-initialised, so a call that fails leaves zeros.\<close>

definition virDomainGetBlockInfo ::
    "'w libvirt_c \<Rightarrow> domain_ptr \<Rightarrow> string \<Rightarrow> int \<Rightarrow> ('w, block_info) act" where
  "virDomainGetBlockInfo lv dptr name flags =
     act_bind (c_virDomainGetBlockInfo lv dptr name flags)
       (\<lambda>(rc, bi). act_return (case bi of Some b \<Rightarrow> b
          | None \<Rightarrow> \<lparr>bi_capacity = 0, bi_allocation = 0, bi_physical = 0\<rparr>))"

definition virDomainShutdown :: "'w libvirt_c \<Rightarrow> domain_ptr \<Rightarrow> ('w, int) act" where
  "virDomainShutdown lv dptr = c_virDomainShutdown lv dptr"

definition virNetworkGetXMLDesc :: "'w libvirt_c \<Rightarrow> network_ptr \<Rightarrow> nat \<Rightarrow> ('w, string) act" where
  "virNetworkGetXMLDesc lv net flags = act_bind (c_virNetworkGetXMLDesc lv net flags) from_c_string"

definition virEventRegisterDefaultImpl :: "'w libvirt_c \<Rightarrow> ('w, int) act" where
  "virEventRegisterDefaultImpl lv = c_virEventRegisterDefaultImpl lv"

definition virEventAddTimeout :: "'w libvirt_c \<Rightarrow> int \<Rightarrow> ('w, int) act" where
  "virEventAddTimeout lv ms = c_virEventAddTimeout lv ms"

definition virEventRunDefaultImpl :: "'w libvirt_c \<Rightarrow> ('w, int) act" where
  "virEventRunDefaultImpl lv = c_virEventRunDefaultImpl lv"

definition virConnSetErrorFunc :: "'w libvirt_c \<Rightarrow> connect_ptr \<Rightarrow> ('w, unit) act" where
  "virConnSetErrorFunc lv conn = c_virConnSetErrorFunc lv conn"

lemmas libvirt_defs [act_defs] =
  virConnectOpen_def virConnectRegisterCloseCallback_def virConnectGetCapabilities_def
  virConnectGetHostname_def virConnectGetLibVersion_def virConnectGetMaxVcpus_def
  virConnectGetSysinfo_def virConnectGetType_def virConnectGetURI_def virConnectGetVersion_def
  virConnectIsEncrypted_def virConnectIsSecure_def virConnectListAllDomains_def
  virConnectListAllNetworks_def virDomainLookupByName_def virDomainCreate_def virDomainRef_def
  virConnectDomainEventRegisterAny_def virConnectDomainEventDeregisterAny_def virDomainGetState_def
  virDomainGetID_def virDomainGetName_def virDomainGetAutostart_def virDomainSetAutostart_def
  virDomainGetMetadata_def virDomainSetMetadata_def virDomainGetXMLDesc_def virDomainDefineXML_def
  virDomainGetBlockInfo_def virDomainShutdown_def virNetworkGetXMLDesc_def
  virEventRegisterDefaultImpl_def virEventAddTimeout_def virEventRunDefaultImpl_def
  virConnSetErrorFunc_def from_c_string_def

section \<open>The stub library of the test build\<close>

text \<open>
  \<open>stubs/libvirt.cpp\<close>: the C functions a test build links. Only one of them has an effect, the
  allocation of \<open>new domain\<close>, which is an argument here; in \<open>stub_libvirt\<close> the state is a \<open>nat\<close>, the
  next address it returns. The witnesses run the model over variants of it.
\<close>

definition stub_with :: "('w, domain_ptr option) act \<Rightarrow> 'w libvirt_c" where
  "stub_with new_domain = \<lparr>
     c_virConnectOpen = (\<lambda>u. act_return None),
     c_virConnectRegisterCloseCallback = (\<lambda>conn. act_return 0),
     c_virConnectGetCapabilities = (\<lambda>conn. act_return (Some [])),
     c_virConnectGetHostname = (\<lambda>conn. act_return (Some ''test'')),
     c_virConnectGetLibVersion = (\<lambda>conn. act_return (0, Some 0)),
     c_virConnectGetMaxVcpus = (\<lambda>conn ty. act_return 2),
     c_virConnectGetSysinfo = (\<lambda>conn flags. act_return (Some [])),
     c_virConnectGetType = (\<lambda>conn. act_return (Some ''qemu'')),
     c_virConnectGetURI = (\<lambda>conn. act_return (Some ''qemu+ssh://test@localhost/session'')),
     c_virConnectGetVersion = (\<lambda>conn. act_return (0, Some 0)),
     c_virConnectIsEncrypted = (\<lambda>conn. act_return 1),
     c_virConnectIsSecure = (\<lambda>conn. act_return 1),
     c_virConnectListAllDomains = (\<lambda>conn flags. act_return (0, [])),
     c_virConnectListAllNetworks = (\<lambda>conn flags. act_return (0, [])),
     c_virDomainLookupByName = (\<lambda>conn name. act_return None),
     c_virDomainCreate = (\<lambda>dptr. act_return 0),
     c_virDomainRef = (\<lambda>dptr. act_return 0),
     c_virConnectDomainEventRegisterAny = (\<lambda>conn ev. act_return 0),
     c_virConnectDomainEventDeregisterAny = (\<lambda>conn cb. act_return 0),
     c_virDomainGetState = (\<lambda>dptr flags. act_return (0, Some (1, 0))),
     c_virDomainGetID = (\<lambda>dptr. act_return 1),
     c_virDomainGetName = (\<lambda>dptr. act_return (Some ''test'')),
     c_virDomainGetAutostart = (\<lambda>dptr. act_return (0, None)),
     c_virDomainSetAutostart = (\<lambda>dptr a. act_return 0),
     c_virDomainGetMetadata = (\<lambda>dptr ty u flags. act_return (Some [])),
     c_virDomainSetMetadata = (\<lambda>dptr ty m key u flags. act_return 0),
     c_virDomainGetXMLDesc = (\<lambda>dptr flags. act_return (Some [])),
     c_virDomainDefineXML = (\<lambda>conn x. new_domain),
     c_virDomainGetBlockInfo = (\<lambda>dptr name flags. act_return (0, None)),
     c_virDomainShutdown = (\<lambda>dptr. act_return 0),
     c_virNetworkGetXMLDesc = (\<lambda>net flags. act_return (Some [])),
     c_virEventRegisterDefaultImpl = act_return 0,
     c_virEventAddTimeout = (\<lambda>ms. act_return 0),
     c_virEventRunDefaultImpl = act_return 0,
     c_virConnSetErrorFunc = (\<lambda>conn. act_return ())\<rparr>"

definition stub_libvirt :: "nat libvirt_c" where
  "stub_libvirt = stub_with (\<lambda>n. (Ok (Some n), Suc n))"

end
