(* ===== verification/Domain.thy ===== *)
theory Domain
  imports Libvirt
begin

unbundle bit_operations_syntax

text \<open>
  \<open>virt/util.cpp\<close>, \<open>virt/domain.cpp\<close> and \<open>virt/network.cpp\<close>: the connection URI of a user, the names
  of domain states, and the methods of a domain. \<open>domain::shutdown\<close> polls the domain's state in two
  loops with a timeout each; a loop is a partial function, so not returning is a value.
\<close>

section \<open>Users and states\<close>

definition uri :: "string \<Rightarrow> string" where
  "uri user =
     (let endpoint = (if user = ''root'' then ''/system'' else ''/session'')
      in ''qemu+ssh://'' @ user @ ''@localhost'' @ endpoint)"

definition STATE_STRINGS :: "(int, string) std_map" where
  "STATE_STRINGS =
     [(0, ''None''), (1, ''Running''), (2, ''Blocked''), (3, ''Paused''), (4, ''Shutdown''),
      (5, ''Shutoff''), (6, ''Crashed''), (7, ''Suspended'')]"

definition state_string :: "int \<Rightarrow> string outcome" where
  "state_string state = sm_at state STATE_STRINGS"

text \<open>Different users get different connection URIs, so a pooled connection of one user is never
  opened on the URI of another.\<close>

theorem uri_injective: "uri u = uri v \<longleftrightarrow> u = v"
proof -
  have neq: "x @ ''@localhost/system'' \<noteq> y @ ''@localhost/session''" for x y :: string
  proof
    assume "x @ ''@localhost/system'' = y @ ''@localhost/session''"
    then have "rev (x @ ''@localhost/system'') = rev (y @ ''@localhost/session'')" by simp
    then show False by simp
  qed
  show ?thesis
    using neq [of u v] neq [of v u] by (auto simp: uri_def)
qed

text \<open>Exactly the eight states of \<open>virDomainState\<close> have a name, all different; any other number
  throws \<open>std::out_of_range\<close>.\<close>

theorem state_string_total:
  "(0 \<le> st \<and> st \<le> 7 \<longrightarrow> (\<exists>s. state_string st = Ok s)) \<and>
   (\<not> (0 \<le> st \<and> st \<le> 7) \<longrightarrow> state_string st = Throw (Out_Of_Range ''map::at''))"
proof -
  have "st = 0 \<or> st = 1 \<or> st = 2 \<or> st = 3 \<or> st = 4 \<or> st = 5 \<or> st = 6 \<or> st = 7 \<or> \<not> (0 \<le> st \<and> st \<le> 7)"
    by arith
  then show ?thesis
    by (elim disjE) (auto simp: state_string_def sm_at_def STATE_STRINGS_def)
qed

theorem state_string_total_witness:
  "state_string 5 = Ok ''Shutoff'' \<and> state_string 8 = Throw (Out_Of_Range ''map::at'')"
proof -
  have "\<exists>s. state_string 5 = Ok s" and "state_string 8 = Throw (Out_Of_Range ''map::at'')"
    using state_string_total [of 5] state_string_total [of 8] by simp_all
  then show ?thesis by (auto simp: state_string_def sm_at_def STATE_STRINGS_def)
qed

section \<open>Methods of a domain\<close>

definition domain_id :: "'w libvirt_c \<Rightarrow> domain_ptr \<Rightarrow> ('w, int) act" where
  "domain_id lv ptr = virDomainGetID lv ptr"

definition domain_name :: "'w libvirt_c \<Rightarrow> domain_ptr \<Rightarrow> ('w, string) act" where
  "domain_name lv ptr = act_bind (virDomainGetName lv ptr) from_c_string"

text \<open>The state and the autostart flag are read into uninitialised variables.\<close>

definition domain_state :: "'w libvirt_c \<Rightarrow> domain_ptr \<Rightarrow> ('w, int) act" where
  "domain_state lv ptr = act_bind (virDomainGetState lv ptr 0)
     (\<lambda>(rc, written). case written of Some (state, reason) \<Rightarrow> act_return state | None \<Rightarrow> act_undef)"

definition domain_autostart :: "'w libvirt_c \<Rightarrow> domain_ptr \<Rightarrow> ('w, bool) act" where
  "domain_autostart lv ptr = act_bind (virDomainGetAutostart lv ptr)
     (\<lambda>(rc, written). case written of Some a \<Rightarrow> act_return (a \<noteq> 0) | None \<Rightarrow> act_undef)"

definition domain_set_autostart :: "'w libvirt_c \<Rightarrow> domain_ptr \<Rightarrow> bool \<Rightarrow> ('w, unit) act" where
  "domain_set_autostart lv ptr enabled =
     act_bind (virDomainSetAutostart lv ptr (if enabled then 1 else 0)) (\<lambda>rc. act_return ())"

definition domain_metadata :: "'w libvirt_c \<Rightarrow> domain_ptr \<Rightarrow> int \<Rightarrow> ('w, string) act" where
  "domain_metadata lv ptr ty = virDomainGetMetadata lv ptr ty None 0"

definition domain_set_metadata :: "'w libvirt_c \<Rightarrow> domain_ptr \<Rightarrow> int \<Rightarrow> string \<Rightarrow> ('w, bool) act" where
  "domain_set_metadata lv ptr ty metadata =
     act_bind (virDomainSetMetadata lv ptr ty (c_str metadata) None None 0) (\<lambda>rc. act_return (rc = 0))"

definition domain_title :: "'w libvirt_c \<Rightarrow> domain_ptr \<Rightarrow> ('w, string) act" where
  "domain_title lv ptr = domain_metadata lv ptr VIR_DOMAIN_METADATA_TITLE"

definition domain_description :: "'w libvirt_c \<Rightarrow> domain_ptr \<Rightarrow> ('w, string) act" where
  "domain_description lv ptr = domain_metadata lv ptr VIR_DOMAIN_METADATA_DESCRIPTION"

definition domain_xml_desc :: "'w libvirt_c \<Rightarrow> domain_ptr \<Rightarrow> ('w, string) act" where
  "domain_xml_desc lv ptr = virDomainGetXMLDesc lv ptr 0"

definition domain_xml_document :: "libs \<Rightarrow> 'w libvirt_c \<Rightarrow> domain_ptr \<Rightarrow> ('w, xml) act" where
  "domain_xml_document L lv ptr =
     act_bind (domain_xml_desc lv ptr) (\<lambda>desc. act_return (lib_xml_load L desc))"

definition domain_block_info :: "'w libvirt_c \<Rightarrow> domain_ptr \<Rightarrow> string \<Rightarrow> ('w, block_info) act" where
  "domain_block_info lv ptr device = virDomainGetBlockInfo lv ptr (c_str device) 0"

definition domain_start :: "'w libvirt_c \<Rightarrow> domain_ptr \<Rightarrow> ('w, bool) act" where
  "domain_start lv ptr = act_bind (virDomainCreate lv ptr) (\<lambda>rc. act_return (rc = 0))"

text \<open>\<open>define_xml\<close> replaces the pointer; the result is whether the new pointer is not null.\<close>

definition domain_define_xml ::
    "'w libvirt_c \<Rightarrow> connect_ptr option \<Rightarrow> string \<Rightarrow> ('w, domain_ptr option) act" where
  "domain_define_xml lv conn x = virDomainDefineXML lv conn x"

definition network_xml_desc :: "'w libvirt_c \<Rightarrow> network_ptr \<Rightarrow> ('w, string) act" where
  "network_xml_desc lv ptr = virNetworkGetXMLDesc lv ptr 0"

definition network_xml_document :: "libs \<Rightarrow> 'w libvirt_c \<Rightarrow> network_ptr \<Rightarrow> ('w, xml) act" where
  "network_xml_document L lv ptr =
     act_bind (network_xml_desc lv ptr) (\<lambda>desc. act_return (lib_xml_load L (c_str desc)))"

lemmas domain_defs [act_defs] =
  domain_id_def domain_name_def domain_state_def domain_autostart_def domain_set_autostart_def
  domain_metadata_def domain_set_metadata_def domain_title_def domain_description_def
  domain_xml_desc_def domain_xml_document_def domain_block_info_def domain_start_def
  domain_define_xml_def network_xml_desc_def network_xml_document_def

section \<open>Shutdown\<close>

text \<open>
  The options a shutdown reads, as \<open>config::get<double>\<close> gives them (a missing option throws
  \<open>std::out_of_range\<close> from \<open>at\<close>), and the format of a \<open>double\<close> in a message.
\<close>

record virt_config =
  cfg_double :: "string \<Rightarrow> rat option"
  cfg_format :: "rat \<Rightarrow> string"

definition get_double :: "virt_config \<Rightarrow> string \<Rightarrow> rat outcome" where
  "get_double conf name = (case cfg_double conf name of
      Some v \<Rightarrow> Ok v | None \<Rightarrow> Throw (Out_Of_Range ''map::at''))"

text \<open>\<open>(1 << state) & targets\<close> on \<open>int\<close>: the shift is defined for 0 to 31 only.\<close>

definition state_in :: "int \<Rightarrow> 32 word \<Rightarrow> bool outcome" where
  "state_in state targets =
     (if 0 \<le> state \<and> state < 32 then Ok (push_bit (nat state) 1 AND targets \<noteq> 0) else Undef)"

definition shutdown_mask :: "32 word" where
  "shutdown_mask = push_bit VIR_DOMAIN_SHUTDOWN 1 OR push_bit VIR_DOMAIN_SHUTOFF 1"

definition shutoff_mask :: "32 word" where
  "shutoff_mask = push_bit VIR_DOMAIN_SHUTOFF 1"

definition elapsed_seconds :: "int \<Rightarrow> int \<Rightarrow> rat" where
  "elapsed_seconds start t = of_int (t - start) / 1000000000"

text \<open>
  One polling loop, from the state the variable holds: read the state (a failed read leaves the
  variable), stop if it is in the targets, throw if the timeout has passed, else sleep 20 ms and repeat.
\<close>

partial_function (option) poll_state ::
    "'w libvirt_c \<Rightarrow> 'w os \<Rightarrow> domain_ptr \<Rightarrow> 32 word \<Rightarrow> rat \<Rightarrow> string \<Rightarrow> int \<Rightarrow> int \<Rightarrow> 'w
      \<Rightarrow> (int outcome \<times> 'w) option" where
  "poll_state lv os ptr targets timeout message start state w =
     (case virDomainGetState lv ptr 0 w of
        (Ok (rc, written), w1) \<Rightarrow>
          (let state' = (case written of Some (st, reason) \<Rightarrow> st | None \<Rightarrow> state) in
           case state_in state' targets of
             Ok found \<Rightarrow>
               if found then Some (Ok state', w1)
               else let (t, w2) = os_now os w1 in
                 if elapsed_seconds start t > timeout
                 then Some (Throw (Out_Of_Range message), w2)
                 else poll_state lv os ptr targets timeout message start state' (os_sleep_for os 20 w2)
           | _ \<Rightarrow> Some (Undef, w1))
      | (Throw e, w1) \<Rightarrow> Some (Throw e, w1)
      | (Undef, w1) \<Rightarrow> Some (Undef, w1)
      | (Hang, w1) \<Rightarrow> Some (Hang, w1))"

definition poll :: "'w libvirt_c \<Rightarrow> 'w os \<Rightarrow> domain_ptr \<Rightarrow> 32 word \<Rightarrow> rat \<Rightarrow> string \<Rightarrow> int \<Rightarrow> ('w, int) act" where
  "poll lv os ptr targets timeout message state = (\<lambda>w.
     let (start, w1) = os_now os w in
     case poll_state lv os ptr targets timeout message start state w1 of
       Some r \<Rightarrow> r | None \<Rightarrow> (Hang, w1))"

definition domain_shutdown ::
    "virt_config \<Rightarrow> 'w libvirt_c \<Rightarrow> 'w os \<Rightarrow> domain_ptr \<Rightarrow> ('w, bool) act" where
  "domain_shutdown conf lv os ptr =
     act_bind (virDomainShutdown lv ptr) (\<lambda>rc.
     if rc \<noteq> 0 then act_return False else
     act_bind (act_lift (get_double conf ''libvirt-shutdown-timeout'')) (\<lambda>timeout.
     act_bind (poll lv os ptr shutdown_mask timeout
       (cfg_format conf timeout @ '' second timeout exceeded'') 0) (\<lambda>state.
     act_bind (act_lift (get_double conf ''libvirt-shutoff-timeout'')) (\<lambda>timeout.
     act_bind (poll lv os ptr shutoff_mask timeout
       ''15 second shutdown timeout exceeded'' state) (\<lambda>state.
     act_return True)))))"

subsection \<open>What a loop that returns has seen\<close>

text \<open>
  A state the loop reports is in the mask, and it is either the value the variable had before or one
  the library reported; an exception is the timeout or one the library's call threw.
\<close>

definition observed :: "'w libvirt_c \<Rightarrow> domain_ptr \<Rightarrow> int \<Rightarrow> bool" where
  "observed lv ptr st \<longleftrightarrow> (\<exists>v rc reason v'. virDomainGetState lv ptr 0 v = (Ok (rc, Some (st, reason)), v'))"

definition poll_explained ::
    "'w libvirt_c \<Rightarrow> domain_ptr \<Rightarrow> 32 word \<Rightarrow> string \<Rightarrow> int \<Rightarrow> int outcome \<times> 'w \<Rightarrow> bool" where
  "poll_explained lv ptr targets message state r = (case r of
      (Ok st, w') \<Rightarrow> state_in st targets = Ok True \<and> (st = state \<or> observed lv ptr st)
    | (Throw e, w') \<Rightarrow> e = Out_Of_Range message \<or> (\<exists>v. virDomainGetState lv ptr 0 v = (Throw e, w'))
    | (Undef, w') \<Rightarrow> (\<exists>v. virDomainGetState lv ptr 0 v = (Undef, w')) \<or>
        (\<exists>st. (st = state \<or> observed lv ptr st) \<and> \<not> (0 \<le> st \<and> st < 32))
    | (Hang, w') \<Rightarrow> \<exists>v. virDomainGetState lv ptr 0 v = (Hang, w'))"

lemma state_in_cases: "state_in st m = Undef \<and> \<not> (0 \<le> st \<and> st < 32) \<or> (\<exists>b. state_in st m = Ok b)"
  by (simp add: state_in_def)

lemma poll_explained_step:
  assumes "poll_explained lv ptr targets message state' r" and "state' = state \<or> observed lv ptr state'"
  shows "poll_explained lv ptr targets message state r"
  using assms by (auto simp: poll_explained_def split: prod.splits outcome.splits)

lemma observed_step:
  assumes "virDomainGetState lv ptr 0 w = (Ok (rc, written), w1)"
  shows "(case written of Some (st, reason) \<Rightarrow> st | None \<Rightarrow> state) = state \<or>
    observed lv ptr (case written of Some (st, reason) \<Rightarrow> st | None \<Rightarrow> state)"
  using assms by (auto simp: observed_def split: option.split)

lemma poll_state_explained:
  assumes ret: "poll_state lv os ptr targets timeout message start state w = Some r"
  shows "poll_explained lv ptr targets message state r"
proof (rule poll_state.raw_induct
    [where P = "\<lambda>lv os ptr targets timeout message start state w r.
       poll_explained lv ptr targets message state r", OF _ ret])
  fix f lv os ptr targets timeout message start state w r
  assume IH: "\<And>lv os ptr targets timeout message start state w r.
      f lv os ptr targets timeout message start state w = Some r \<Longrightarrow>
      poll_explained lv ptr targets message state r"
    and eq: "(case virDomainGetState lv ptr 0 w of
        (Ok (rc, written), w1) \<Rightarrow>
          (let state' = (case written of Some (st, reason) \<Rightarrow> st | None \<Rightarrow> state) in
           case state_in state' targets of
             Ok found \<Rightarrow>
               if found then Some (Ok state', w1)
               else let (t, w2) = os_now os w1 in
                 if elapsed_seconds start t > timeout
                 then Some (Throw (Out_Of_Range message), w2)
                 else f lv os ptr targets timeout message start state' (os_sleep_for os 20 w2)
           | _ \<Rightarrow> Some (Undef, w1))
      | (Throw e, w1) \<Rightarrow> Some (Throw e, w1)
      | (Undef, w1) \<Rightarrow> Some (Undef, w1)
      | (Hang, w1) \<Rightarrow> Some (Hang, w1)) = Some r"
  show "poll_explained lv ptr targets message state r"
  proof (cases "\<exists>rc written w1. virDomainGetState lv ptr 0 w = (Ok (rc, written), w1)")
    case False
    with eq show ?thesis
      by (auto simp: poll_explained_def split: prod.splits outcome.splits)
  next
    case True
    then obtain rc written w1 where get: "virDomainGetState lv ptr 0 w = (Ok (rc, written), w1)" by blast
    define state' where "state' = (case written of Some (st, reason) \<Rightarrow> st | None \<Rightarrow> state)"
    have obs: "state' = state \<or> observed lv ptr state'"
      unfolding state'_def by (rule observed_step [OF get])
    have "poll_explained lv ptr targets message state' r"
      using eq state_in_cases [of state' targets] unfolding get
      by (auto simp: Let_def state'_def [symmetric] poll_explained_def [of lv ptr targets message state' "(_, _)"]
          split: prod.splits outcome.splits if_splits dest!: IH)
    then show ?thesis using obs by (rule poll_explained_step)
  qed
qed

lemma poll_Ok:
  assumes "poll lv os ptr targets timeout message state w = (Ok st, w')"
  shows "state_in st targets = Ok True \<and> (st = state \<or> observed lv ptr st)"
  using assms
  by (auto simp: poll_def poll_explained_def split: prod.splits option.splits dest!: poll_state_explained)

lemma pow_and_pow:
  assumes "m < 32" "n < 32"
  shows "(2 :: 32 word) ^ m AND 2 ^ n \<noteq> 0 \<longleftrightarrow> m = n"
proof (cases "m = n")
  case True
  with assms show ?thesis by simp
next
  case False
  have "(2 :: 32 word) ^ m AND 2 ^ n = 0"
    by (rule bit_eqI) (use False in \<open>auto simp: bit_and_iff bit_exp_iff\<close>)
  with False show ?thesis by simp
qed

lemma pow_and_32: "m < 32 \<Longrightarrow> (2 :: 32 word) ^ m AND 32 \<noteq> 0 \<longleftrightarrow> m = 5"
  using pow_and_pow [of m 5] by simp

lemma pow_and_48:
  assumes "m < 32"
  shows "(2 :: 32 word) ^ m AND 48 \<noteq> 0 \<longleftrightarrow> m = 4 \<or> m = 5"
proof -
  have "(48 :: 32 word) = 16 OR 32" by simp
  then have "(2 :: 32 word) ^ m AND 48 = (2 ^ m AND 16) OR (2 ^ m AND 32)"
    by (simp only: bit.conj_disj_distrib)
  then show ?thesis
    using pow_and_pow [OF assms, of 4] pow_and_32 [OF assms] by (auto simp: or_eq_0_iff)
qed

lemma state_in_shutoff: "state_in st shutoff_mask = Ok True \<longleftrightarrow> st = 5"
  using pow_and_32 [of "nat st"]
  by (cases "0 \<le> st \<and> st < 32") (auto simp: state_in_def shutoff_mask_def VIR_DOMAIN_SHUTOFF_def nat_eq_iff)

lemma state_in_shutdown:
  "state_in st shutdown_mask = (if 0 \<le> st \<and> st < 32 then Ok (st = 4 \<or> st = 5) else Undef)"
  using pow_and_48 [of "nat st"]
  by (cases "0 \<le> st \<and> st < 32")
     (auto simp: state_in_def shutdown_mask_def VIR_DOMAIN_SHUTOFF_def VIR_DOMAIN_SHUTDOWN_def nat_eq_iff)

text \<open>C17: \<open>domain::shutdown\<close> reports success only for a domain whose shutdown request libvirt accepted
  and which libvirt itself reported to be in the state \<open>VIR_DOMAIN_SHUTOFF\<close>.\<close>

theorem domain_shutdown_true:
  assumes "domain_shutdown conf lv os ptr w = (Ok True, w')"
  shows "(\<exists>w1. virDomainShutdown lv ptr w = (Ok 0, w1)) \<and> observed lv ptr (int VIR_DOMAIN_SHUTOFF)"
proof -
  from assms obtain rc w1 where sd: "virDomainShutdown lv ptr w = (Ok rc, w1)"
    and rest: "(if rc \<noteq> 0 then act_return False else
      act_bind (act_lift (get_double conf ''libvirt-shutdown-timeout'')) (\<lambda>timeout.
      act_bind (poll lv os ptr shutdown_mask timeout
        (cfg_format conf timeout @ '' second timeout exceeded'') 0) (\<lambda>state.
      act_bind (act_lift (get_double conf ''libvirt-shutoff-timeout'')) (\<lambda>timeout.
      act_bind (poll lv os ptr shutoff_mask timeout
        ''15 second shutdown timeout exceeded'' state) (\<lambda>state.
      act_return True))))) w1 = (Ok True, w')"
    unfolding domain_shutdown_def by (rule act_bind_OkE)
  from rest have rc: "rc = 0" by (cases "rc = 0") (simp_all add: act_return_def)
  with rest obtain msg1 t1 st1 t2 st2 w2 w3 w4 w5 where
    p1: "poll lv os ptr shutdown_mask t1 msg1 0 w2 = (Ok st1, w3)" and
    p2: "poll lv os ptr shutoff_mask t2 ''15 second shutdown timeout exceeded'' st1 w4 = (Ok st2, w5)"
    by (auto elim!: act_bind_OkE)
  from poll_Ok [OF p2] have st2: "st2 = 5" and "st2 = st1 \<or> observed lv ptr st2"
    by (auto simp: state_in_shutoff)
  moreover from poll_Ok [OF p1] have "st1 = 0 \<or> observed lv ptr st1" by simp
  ultimately have "observed lv ptr 5" by auto
  with sd rc show ?thesis by (simp add: VIR_DOMAIN_SHUTOFF_def)
qed

subsection \<open>The loops end\<close>

text \<open>
  The documented behaviour of the clock: readings do not go backwards, and a sleep of \<open>n\<close>
  milliseconds takes at least that long. \<open>clock w\<close> is the time in the world \<open>w\<close>.
\<close>

definition steady :: "'w libvirt_c \<Rightarrow> 'w os \<Rightarrow> ('w \<Rightarrow> int) \<Rightarrow> bool" where
  "steady lv os clock \<longleftrightarrow>
     (\<forall>w. clock w \<le> fst (os_now os w) \<and> fst (os_now os w) \<le> clock (snd (os_now os w))) \<and>
     (\<forall>ms w. clock w + ms * 1000000 \<le> clock (os_sleep_for os ms w)) \<and>
     (\<forall>ptr flags w. clock w \<le> clock (snd (c_virDomainGetState lv ptr flags w)))"

definition responsive :: "'w libvirt_c \<Rightarrow> domain_ptr \<Rightarrow> bool" where
  "responsive lv ptr \<longleftrightarrow>
     act_ends (c_virDomainGetState lv ptr 0) \<and> act_ends (c_virDomainShutdown lv ptr)"

lemma responsiveD:
  "responsive lv ptr \<Longrightarrow> fst (virDomainGetState lv ptr 0 w) \<noteq> Hang"
  "responsive lv ptr \<Longrightarrow> act_ends (virDomainGetState lv ptr 0)"
  "responsive lv ptr \<Longrightarrow> act_ends (virDomainShutdown lv ptr)"
  by (simp_all add: responsive_def virDomainGetState_def virDomainShutdown_def act_ends_def)

lemma steadyD:
  assumes "steady lv os clock"
  shows "os_now os w = (t, w') \<Longrightarrow> clock w \<le> t" "os_now os w = (t, w') \<Longrightarrow> t \<le> clock w'"
    "clock w + ms * 1000000 \<le> clock (os_sleep_for os ms w)"
    "virDomainGetState lv ptr flags w = (r, w') \<Longrightarrow> clock w \<le> clock w'"
  using assms by (auto simp: steady_def virDomainGetState_def) (metis fst_conv snd_conv)+

lemma poll_state_ends:
  assumes st: "steady lv os clock" and "act_ends (virDomainGetState lv ptr 0)"
    and "timeout * 1000000000 < of_int (clock w - start + 20000000 * int k)"
  shows "\<exists>r w'. poll_state lv os ptr targets timeout message start state w = Some (r, w') \<and> r \<noteq> Hang"
  using assms(3)
proof (induction k arbitrary: w state)
  case 0
  show ?case
  proof (cases "virDomainGetState lv ptr 0 w")
    case (Pair res w1)
    then have "clock w \<le> clock w1" by (rule steadyD(4) [OF st])
    moreover obtain t w2 where now: "os_now os w1 = (t, w2)" by force
    then have "clock w1 \<le> t" by (rule steadyD(1) [OF st])
    ultimately have "(of_int (clock w - start) :: rat) \<le> of_int (t - start)" by linarith
    with 0 have "timeout < elapsed_seconds start t" by (simp add: elapsed_seconds_def field_simps)
    moreover have "res \<noteq> Hang"
      using act_endsD [OF assms(2), of w] Pair by simp
    ultimately show ?thesis
      using Pair now by (subst poll_state.simps) (auto simp: Let_def split: outcome.split option.split prod.split)
  qed
next
  case (Suc k)
  show ?case
  proof (cases "virDomainGetState lv ptr 0 w")
    case (Pair res w1)
    then have "clock w \<le> clock w1" by (rule steadyD(4) [OF st])
    moreover obtain t w2 where now: "os_now os w1 = (t, w2)" by force
    then have "clock w1 \<le> clock w2" using steadyD(1,2) [OF st now] by simp
    moreover have "clock w2 + 20 * 1000000 \<le> clock (os_sleep_for os 20 w2)" by (rule steadyD(3) [OF st])
    ultimately have "clock w - start + 20000000 * int (Suc k)
        \<le> clock (os_sleep_for os 20 w2) - start + 20000000 * int k" by simp
    then have "(of_int (clock w - start + 20000000 * int (Suc k)) :: rat)
        \<le> of_int (clock (os_sleep_for os 20 w2) - start + 20000000 * int k)" by (simp only: of_int_le_iff)
    with Suc.prems have "timeout * 1000000000
        < of_int (clock (os_sleep_for os 20 w2) - start + 20000000 * int k)" by linarith
    then have rec: "\<exists>r w'. poll_state lv os ptr targets timeout message start state'
        (os_sleep_for os 20 w2) = Some (r, w') \<and> r \<noteq> Hang" for state'
      by (rule Suc.IH)
    moreover have "res \<noteq> Hang"
      using act_endsD [OF assms(2), of w] Pair by simp
    ultimately show ?thesis
      using Pair now by (subst poll_state.simps) (auto simp: Let_def split: outcome.split option.split prod.split)
  qed
qed

lemma poll_ends:
  assumes "steady lv os clock" "act_ends (virDomainGetState lv ptr 0)"
  shows "act_ends (poll lv os ptr targets timeout message state)"
proof (rule act_endsI)
  fix w
  obtain start w1 where now: "os_now os w = (start, w1)" by force
  obtain k :: nat where "timeout * 1000000000 - of_int (clock w1 - start) < 20000000 * of_nat k"
  proof -
    obtain k :: nat where "(timeout * 1000000000 - of_int (clock w1 - start)) / 20000000 < of_nat k"
      using reals_Archimedean2 by blast
    then show ?thesis by (intro that [of k]) (simp add: field_simps)
  qed
  then have "timeout * 1000000000 < of_int (clock w1 - start + 20000000 * int k)" by simp
  from poll_state_ends [OF assms this, of targets message state] obtain r w' where
    "poll_state lv os ptr targets timeout message start state w1 = Some (r, w')" "r \<noteq> Hang" by blast
  with now show "fst (poll lv os ptr targets timeout message state w) \<noteq> Hang" by (simp add: poll_def)
qed

text \<open>Under a steady clock, and with a libvirt whose calls return, \<open>domain::shutdown\<close> always
  returns or throws, whatever states the domain goes through and whatever the timeouts are.\<close>

theorem domain_shutdown_ends:
  assumes "steady lv os clock" and "responsive lv ptr"
  shows "act_ends (domain_shutdown conf lv os ptr)"
proof -
  have get: "get_double conf n \<noteq> Hang" for n
    by (simp add: get_double_def split: option.split)
  show ?thesis
    unfolding domain_shutdown_def
    by (intro act_ends_intros get poll_ends [OF assms(1)] responsiveD [OF assms(2)])
qed

lemma poll_stuck:
  assumes st: "steady lv os clock"
    and stuck: "\<And>v. \<exists>rc reason v'. virDomainGetState lv ptr 0 v = (Ok (rc, Some (st, reason)), v')"
    and range: "0 \<le> st" "st < 32" "st \<noteq> int VIR_DOMAIN_SHUTDOWN" "st \<noteq> int VIR_DOMAIN_SHUTOFF"
    and p: "poll lv os ptr shutdown_mask t msg 0 wa = (res, w2)"
  shows "res = Throw (Out_Of_Range msg)"
proof -
  have ends: "act_ends (virDomainGetState lv ptr 0)"
  proof (rule act_endsI)
    fix v
    from stuck [of v] show "fst (virDomainGetState lv ptr 0 v) \<noteq> Hang" by auto
  qed
  have "res \<noteq> Hang" using act_endsD [OF poll_ends [OF st ends], of _ _ _ _ wa] p by (metis fst_conv)
  with p obtain start wb where "poll_state lv os ptr shutdown_mask t msg start 0 wb = Some (res, w2)"
    by (auto simp: poll_def split: prod.splits option.splits)
  then have explained: "poll_explained lv ptr shutdown_mask msg 0 (res, w2)" by (rule poll_state_explained)
  have obs: "st' = st" if "observed lv ptr st'" for st'
  proof -
    from that obtain v rc reason v' where
      "virDomainGetState lv ptr 0 v = (Ok (rc, Some (st', reason)), v')" by (auto simp: observed_def)
    with stuck [of v] show ?thesis by auto
  qed
  have ok: "\<exists>x. r' = Ok x" if "virDomainGetState lv ptr 0 v = (r', w')" for v r' w'
    using stuck [of v] that by auto
  show ?thesis
  proof (cases res)
    case (Ok st')
    with explained have "state_in st' shutdown_mask = Ok True" "st' = 0 \<or> observed lv ptr st'"
      by (simp_all add: poll_explained_def)
    with obs range show ?thesis by (auto simp: state_in_shutdown virt_consts split: if_splits)
  next
    case Undef
    with explained have "\<exists>st'. (st' = 0 \<or> observed lv ptr st') \<and> \<not> (0 \<le> st' \<and> st' < 32)"
      by (auto simp: poll_explained_def dest: ok)
    with obs range show ?thesis by auto
  qed (use explained \<open>res \<noteq> Hang\<close> in \<open>auto simp: poll_explained_def dest: ok\<close>)
qed

text \<open>If libvirt accepts the shutdown but keeps reporting a state other than Shutdown and Shutoff,
  the first timeout ends the wait with \<open>std::out_of_range\<close>, which the view turns into a gateway
  timeout.\<close>

theorem domain_shutdown_times_out:
  assumes st: "steady lv os clock"
    and stuck: "\<And>v. \<exists>rc reason v'. virDomainGetState lv ptr 0 v = (Ok (rc, Some (st, reason)), v')"
    and range: "0 \<le> st" "st < 32" "st \<noteq> int VIR_DOMAIN_SHUTDOWN" "st \<noteq> int VIR_DOMAIN_SHUTOFF"
    and accepted: "virDomainShutdown lv ptr w = (Ok 0, wa)"
    and conf: "cfg_double conf ''libvirt-shutdown-timeout'' = Some t"
  shows "\<exists>w'. domain_shutdown conf lv os ptr w =
    (Throw (Out_Of_Range (cfg_format conf t @ '' second timeout exceeded'')), w')"
proof -
  obtain res w2 where p: "poll lv os ptr shutdown_mask t (cfg_format conf t @ '' second timeout exceeded'') 0 wa = (res, w2)" by force
  with poll_stuck [OF st stuck range p] accepted conf show ?thesis
    by (simp add: domain_shutdown_def act_simps get_double_def)
qed

text \<open>
  A concrete world for the witnesses: the stub library with a fixed domain state, a clock in
  nanoseconds that the state counts, and timeouts of three and fifteen seconds.
\<close>

definition fixed_state_libvirt :: "int \<Rightarrow> nat libvirt_c" where
  "fixed_state_libvirt st = stub_libvirt\<lparr>c_virDomainGetState := (\<lambda>ptr flags. act_return (0, Some (st, 0)))\<rparr>"

definition counting_os :: "nat os" where
  "counting_os = \<lparr>sys_getpwnam = (\<lambda>user w. (True, w)), os_errno = (\<lambda>w. 0), os_strerror = (\<lambda>n. []),
     os_now = (\<lambda>w. (int w, w)), os_sleep_for = (\<lambda>ms w. w + nat (ms * 1000000))\<rparr>"

definition default_config :: virt_config where
  "default_config = \<lparr>cfg_double = [''libvirt-shutdown-timeout'' \<mapsto> 3, ''libvirt-shutoff-timeout'' \<mapsto> 15],
     cfg_format = (\<lambda>t. ''3'')\<rparr>"

lemma fixed_state_simps [simp]:
  "virDomainGetState (fixed_state_libvirt st) ptr flags w = (Ok (0, Some (st, 0)), w)"
  "virDomainShutdown (fixed_state_libvirt st) ptr w = (Ok 0, w)"
  by (simp_all add: fixed_state_libvirt_def stub_libvirt_def stub_with_def act_defs act_simps)

lemma steady_fixed_state: "steady (fixed_state_libvirt st) counting_os int"
  by (simp add: steady_def counting_os_def fixed_state_libvirt_def stub_libvirt_def stub_with_def act_simps)

lemma responsive_fixed_state: "responsive (fixed_state_libvirt st) ptr"
  by (simp add: responsive_def act_ends_def fixed_state_libvirt_def stub_libvirt_def stub_with_def act_simps)

lemma default_config_simps [simp]:
  "cfg_double default_config ''libvirt-shutdown-timeout'' = Some 3"
  "cfg_double default_config ''libvirt-shutoff-timeout'' = Some 15"
  by (simp_all add: default_config_def)

lemma shutdown_of_shutoff:
  "domain_shutdown default_config (fixed_state_libvirt 5) counting_os ptr w = (Ok True, w)"
proof -
  have p: "poll (fixed_state_libvirt 5) counting_os ptr m t msg st w = (Ok 5, w)"
    if "state_in 5 m = Ok True" for m t msg st
    using that by (simp add: poll_def counting_os_def poll_state.simps)
  show ?thesis
    unfolding domain_shutdown_def
    by (simp add: act_simps get_double_def p state_in_shutoff state_in_shutdown)
qed

theorem domain_shutdown_true_witness:
  "domain_shutdown default_config (fixed_state_libvirt 5) counting_os 1 0 = (Ok True, 0) \<and>
   observed (fixed_state_libvirt 5) 1 5"
  using domain_shutdown_true [OF shutdown_of_shutoff, of 1 0] shutdown_of_shutoff [of 1 0]
  by (simp add: VIR_DOMAIN_SHUTOFF_def)

theorem domain_shutdown_ends_witness:
  "fst (domain_shutdown default_config (fixed_state_libvirt 1) counting_os 1 0) \<noteq> Hang"
  by (rule act_endsD [OF domain_shutdown_ends [OF steady_fixed_state responsive_fixed_state]])

theorem domain_shutdown_times_out_witness:
  "\<exists>w'. domain_shutdown default_config (fixed_state_libvirt 1) counting_os 1 0 =
    (Throw (Out_Of_Range ''3 second timeout exceeded''), w')"
proof -
  have "\<exists>w'. domain_shutdown default_config (fixed_state_libvirt 1) counting_os 1 0 =
    (Throw (Out_Of_Range (cfg_format default_config 3 @ '' second timeout exceeded'')), w')"
    by (rule domain_shutdown_times_out [where st = 1 and wa = 0, OF steady_fixed_state])
       (auto simp: virt_consts)
  then show ?thesis by (simp add: default_config_def)
qed

end
