(* ===== verification/Connection.thy ===== *)
theory Connection
  imports Domain
begin

text \<open>
  \<open>virt/connection.cpp\<close> and \<open>virt/connection_pool.cpp\<close>: a libvirt connection object and the table of
  connections by user. The methods that change a connection are calls on the pair of the object and
  the world; the pool's are calls on the pair of the table and the world. The reference the pool
  hands out is the key of the slot: the object stays where it is, and later calls change it in place.
\<close>

section \<open>A connection\<close>

record connection =
  vc_ptr :: "connect_ptr option"
  vc_errno :: int
  vc_closed :: bool
  vc_user :: string

definition new_connection :: connection where
  "new_connection = \<lparr>vc_ptr = None, vc_errno = 0, vc_closed = True, vc_user = []\<rparr>"

definition connection_is_open :: "connection \<Rightarrow> bool" where
  "connection_is_open c \<longleftrightarrow> \<not> vc_closed c"

definition connection_eq :: "connection \<Rightarrow> connection \<Rightarrow> bool" where
  "connection_eq c d \<longleftrightarrow> vc_ptr c = vc_ptr d"

text \<open>A call on the world inside a call on an object and the world.\<close>

definition on_world :: "('w, 'a) act \<Rightarrow> ('c \<times> 'w, 'a) act" where
  "on_world m = (\<lambda>(c, w). let (r, w') = m w in (r, (c, w')))"

definition connect :: "'w libvirt_c \<Rightarrow> 'w os \<Rightarrow> string \<Rightarrow> (connection \<times> 'w, unit) act" where
  "connect lv os user =
     act_bind (act_read (\<lambda>(c, w). vc_ptr c)) (\<lambda>conn.
     if conn \<noteq> None then act_throw (Overflow_Error ''cannot connect more than once'') else
     act_bind (on_world (virConnectOpen lv (c_str (uri user)))) (\<lambda>p.
     act_then (act_modify (\<lambda>(c, w). (c\<lparr>vc_ptr := p\<rparr>, w)))
     (case p of
        None \<Rightarrow>
          act_then (act_modify (\<lambda>(c, w). (c\<lparr>vc_errno := os_errno os w\<rparr>, w)))
          (act_bind (act_read (\<lambda>(c, w). ''error: '' @ os_strerror os (vc_errno c) @ [CHR 0x0A]))
             (\<lambda>message. act_throw (Runtime_Error message)))
      | Some conn \<Rightarrow>
          act_then (act_modify (\<lambda>(c, w). (c\<lparr>vc_user := user, vc_closed := False\<rparr>, w)))
          (act_bind (on_world (virConnectRegisterCloseCallback lv conn)) (\<lambda>rc.
           on_world (virConnSetErrorFunc lv conn))))))"

text \<open>The callback libvirt runs when the connection closes: it sets the flag, then throws.\<close>

definition close_func :: "(connection, unit) act" where
  "close_func = act_then (act_modify (\<lambda>c. c\<lparr>vc_closed := True\<rparr>))
     (act_throw (Retry_Error ''libvirt connection closed''))"

text \<open>Methods that call libvirt on the connection; on an unconnected object that is undefined here.\<close>

definition with_ptr :: "connection \<Rightarrow> (connect_ptr \<Rightarrow> ('w, 'a) act) \<Rightarrow> ('w, 'a) act" where
  "with_ptr c f = (case vc_ptr c of Some p \<Rightarrow> f p | None \<Rightarrow> act_undef)"

definition capabilities :: "'w libvirt_c \<Rightarrow> connection \<Rightarrow> ('w, string) act" where
  "capabilities lv c = with_ptr c (virConnectGetCapabilities lv)"

definition hostname :: "'w libvirt_c \<Rightarrow> connection \<Rightarrow> ('w, string) act" where
  "hostname lv c = with_ptr c (virConnectGetHostname lv)"

definition library_version :: "'w libvirt_c \<Rightarrow> connection \<Rightarrow> ('w, nat) act" where
  "library_version lv c = act_bind (with_ptr c (virConnectGetLibVersion lv))
     (\<lambda>(rc, written). act_return (case written of Some v \<Rightarrow> v | None \<Rightarrow> 0))"

definition max_vcpus :: "'w libvirt_c \<Rightarrow> connection \<Rightarrow> string \<Rightarrow> ('w, int) act" where
  "max_vcpus lv c ty = with_ptr c (\<lambda>p. virConnectGetMaxVcpus lv p ty)"

definition sysinfo :: "'w libvirt_c \<Rightarrow> connection \<Rightarrow> ('w, string) act" where
  "sysinfo lv c = with_ptr c (\<lambda>p. virConnectGetSysinfo lv p 0)"

definition connection_type :: "'w libvirt_c \<Rightarrow> connection \<Rightarrow> ('w, string option) act" where
  "connection_type lv c = with_ptr c (virConnectGetType lv)"

definition connection_uri :: "'w libvirt_c \<Rightarrow> connection \<Rightarrow> ('w, string) act" where
  "connection_uri lv c = with_ptr c (virConnectGetURI lv)"

definition connection_version :: "'w libvirt_c \<Rightarrow> connection \<Rightarrow> ('w, nat) act" where
  "connection_version lv c = act_bind (with_ptr c (virConnectGetVersion lv))
     (\<lambda>(rc, written). act_return (case written of Some v \<Rightarrow> v | None \<Rightarrow> 0))"

definition encrypted :: "'w libvirt_c \<Rightarrow> connection \<Rightarrow> ('w, bool) act" where
  "encrypted lv c = act_bind (with_ptr c (virConnectIsEncrypted lv)) (\<lambda>rc. act_return (rc \<noteq> 0))"

definition secure :: "'w libvirt_c \<Rightarrow> connection \<Rightarrow> ('w, bool) act" where
  "secure lv c = act_bind (with_ptr c (virConnectIsSecure lv)) (\<lambda>rc. act_return (rc \<noteq> 0))"

definition connection_domains :: "'w libvirt_c \<Rightarrow> connection \<Rightarrow> ('w, domain_ptr list) act" where
  "connection_domains lv c = with_ptr c (\<lambda>p. virConnectListAllDomains lv p 0)"

definition connection_networks :: "'w libvirt_c \<Rightarrow> connection \<Rightarrow> ('w, network_ptr list) act" where
  "connection_networks lv c = with_ptr c (\<lambda>p. virConnectListAllNetworks lv p 0)"

definition connection_domain :: "'w libvirt_c \<Rightarrow> connection \<Rightarrow> string \<Rightarrow> ('w, domain_ptr) act" where
  "connection_domain lv c name =
     act_bind (with_ptr c (\<lambda>p. virDomainLookupByName lv p (c_str name)))
       (\<lambda>d. case d of Some ptr \<Rightarrow> act_return ptr
            | None \<Rightarrow> act_throw (Domain_Error ''virDomainLookupByName error''))"

lemmas connection_defs [act_defs] =
  capabilities_def hostname_def library_version_def max_vcpus_def sysinfo_def connection_type_def
  connection_uri_def connection_version_def encrypted_def secure_def connection_domains_def
  connection_networks_def connection_domain_def with_ptr_def

text \<open>The error callback: a message that contains a whitelisted text is not logged.\<close>

fun strstr :: "string \<Rightarrow> string \<Rightarrow> bool" where
  "strstr [] needle = (needle = [])"
| "strstr (c # cs) needle = (take (length needle) (c # cs) = needle \<or> strstr cs needle)"

definition error_whitelist :: "string list" where
  "error_whitelist = [''Requested metadata element is not present'']"

definition on_libvirt_error :: "string \<Rightarrow> string list" where
  "on_libvirt_error message =
     (if list_ex (strstr message) error_whitelist then [] else [message])"

section \<open>The pool\<close>

type_synonym conn_pool = "(string, connection) std_map"

text \<open>A call on the object in a slot of the table.\<close>

definition on_slot :: "string \<Rightarrow> (connection \<times> 'w, 'a) act \<Rightarrow> (conn_pool \<times> 'w, 'a) act" where
  "on_slot user m = (\<lambda>(pool, w). case sm_find user pool of
      None \<Rightarrow> (Throw (Out_Of_Range ''map::at''), (pool, w))
    | Some c \<Rightarrow> let (r, (c', w')) = m (c, w) in (r, (sm_put user c' pool, w')))"

definition pool_get :: "'w libvirt_c \<Rightarrow> 'w os \<Rightarrow> string \<Rightarrow> (conn_pool \<times> 'w, string) act" where
  "pool_get lv os user =
     act_bind (act_read (\<lambda>(pool, w). sm_find user pool)) (\<lambda>iter. case iter of
        None \<Rightarrow>
          act_then (act_modify (\<lambda>(pool, w). (sm_put user new_connection pool, w)))
          (act_then (on_slot user (connect lv os user)) (act_return user))
      | Some c \<Rightarrow>
          if \<not> connection_is_open c then
            act_then (act_modify (\<lambda>(pool, w). (sm_put user new_connection pool, w)))
            (act_then (on_slot user (connect lv os user)) (act_return user))
          else act_return user)"

text \<open>
  Every connection in the table is closed, or it is connected, on behalf of the user it is filed
  under.
\<close>

definition slot_ok :: "string \<Rightarrow> connection \<Rightarrow> bool" where
  "slot_ok user c \<longleftrightarrow> connection_is_open c \<longrightarrow> vc_user c = user \<and> vc_ptr c \<noteq> None"

definition pool_ok :: "conn_pool \<Rightarrow> bool" where
  "pool_ok pool \<longleftrightarrow> sm_ok pool \<and> (\<forall>user c. sm_find user pool = Some c \<longrightarrow> slot_ok user c)"

definition slot_open :: "string \<Rightarrow> conn_pool \<Rightarrow> bool" where
  "slot_open user pool \<longleftrightarrow> (\<exists>c. sm_find user pool = Some c \<and> connection_is_open c)"

lemma pool_ok_put: "pool_ok pool \<Longrightarrow> slot_ok user c \<Longrightarrow> pool_ok (sm_put user c pool)"
  by (auto simp: pool_ok_def sm_find_put)

lemma slot_ok_new [simp]: "slot_ok user new_connection"
  by (simp add: slot_ok_def connection_is_open_def new_connection_def)

lemma slot_open_put: "slot_open u (sm_put v c pool) = (if u = v then connection_is_open c else slot_open u pool)"
  by (simp add: slot_open_def sm_find_put)

text \<open>What \<^const>\<open>connect\<close> does to a fresh object, by the outcome of opening.\<close>

lemma on_world_run: "m w = (r, w') \<Longrightarrow> on_world m (c, w) = (r, (c, w'))"
  by (simp add: on_world_def)

lemma connect_fresh:
  assumes "vc_ptr c = None" and "virConnectOpen lv (c_str (uri user)) w = (r, w1)"
  shows "connect lv os user (c, w) = (case r of
      Ok None \<Rightarrow> (Throw (Runtime_Error (''error: '' @ os_strerror os (os_errno os w1) @ [CHR 0x0A])),
        (c\<lparr>vc_errno := os_errno os w1\<rparr>, w1))
    | Ok (Some p) \<Rightarrow> act_bind (on_world (virConnectRegisterCloseCallback lv p))
        (\<lambda>rc. on_world (virConnSetErrorFunc lv p))
        (c\<lparr>vc_ptr := Some p, vc_user := user, vc_closed := False\<rparr>, w1)
    | Throw e \<Rightarrow> (Throw e, (c, w1)) | Undef \<Rightarrow> (Undef, (c, w1)) | Hang \<Rightarrow> (Hang, (c, w1)))"
proof -
  have run: "on_world (virConnectOpen lv (c_str (uri user))) (c, w) = (r, (c, w1))"
    using assms(2) by (rule on_world_run)
  show ?thesis
    using assms(1)
    by (cases r) (simp_all add: connect_def act_simps run split: option.split)
qed

lemma act_bind_fst_kept:
  assumes "\<And>c w. fst (snd (m (c, w))) = c" and "\<And>a c w. fst (snd (f a (c, w))) = c"
  shows "fst (snd (act_bind m f (c, w))) = c"
proof -
  obtain r c' w' where m: "m (c, w) = (r, (c', w'))" by (metis prod_cases3)
  with assms(1) [of c w] have "c' = c" by simp
  with m assms(2) show ?thesis by (simp add: act_bind_def split: outcome.split)
qed

lemma on_world_fst [simp]: "fst (snd (on_world m (c, w))) = c"
  by (simp add: on_world_def split: prod.split)

lemma connect_slot_ok:
  assumes "slot_ok user c" "vc_ptr c = None"
  shows "slot_ok user (fst (snd (connect lv os user (c, w))))"
proof -
  obtain r w1 where "virConnectOpen lv (c_str (uri user)) w = (r, w1)" by force
  from connect_fresh [OF assms(2) this, where os = os] assms show ?thesis
    by (auto simp: slot_ok_def connection_is_open_def act_bind_fst_kept split: outcome.split option.split)
qed

lemma connect_Ok:
  assumes "vc_ptr c = None" and "connect lv os user (c, w) = (Ok (), (c', w'))"
  shows "connection_is_open c' \<and> vc_user c' = user \<and> vc_ptr c' \<noteq> None"
proof -
  obtain r w1 where r: "virConnectOpen lv (c_str (uri user)) w = (r, w1)" by force
  from connect_fresh [OF assms(1) r, where os = os] assms(2) obtain p where
    "act_bind (on_world (virConnectRegisterCloseCallback lv p)) (\<lambda>rc. on_world (virConnSetErrorFunc lv p))
        (c\<lparr>vc_ptr := Some p, vc_user := user, vc_closed := False\<rparr>, w1) = (Ok (), (c', w'))"
    by (auto split: outcome.splits option.splits)
  then have "c' = c\<lparr>vc_ptr := Some p, vc_user := user, vc_closed := False\<rparr>"
    using act_bind_fst_kept [of "on_world (virConnectRegisterCloseCallback lv p)"
        "\<lambda>rc. on_world (virConnSetErrorFunc lv p)"] by (metis fst_conv snd_conv on_world_fst)
  then show ?thesis by (simp add: connection_is_open_def)
qed

text \<open>The two cases of a lookup.\<close>

lemma pool_get_open:
  assumes "slot_open user pool"
  shows "pool_get lv os user (pool, w) = (Ok user, (pool, w))"
  using assms by (auto simp: pool_get_def act_simps slot_open_def)

lemma pool_get_closed:
  assumes "\<not> slot_open user pool"
  shows "pool_get lv os user (pool, w) =
    (let (r, (c, w')) = connect lv os user (new_connection, w)
     in (outcome_bind r (\<lambda>_. Ok user), (sm_put user c pool, w')))"
proof -
  have put2: "sm_put user c (sm_put user d pool) = sm_put user c pool" for c d
    by (induction user d pool rule: sm_put.induct) auto
  have "pool_get lv os user (pool, w) =
      act_then (on_slot user (connect lv os user)) (act_return user) (sm_put user new_connection pool, w)"
    using assms by (auto simp: pool_get_def act_simps slot_open_def split: option.split)
  also have "\<dots> = (let (r, (c, w')) = connect lv os user (new_connection, w)
     in (outcome_bind r (\<lambda>_. Ok user), (sm_put user c pool, w')))"
    by (simp add: act_then_def act_bind_def on_slot_def sm_find_put put2 act_return_def
        split: prod.split outcome.split)
  finally show ?thesis .
qed

lemma pool_get_sound:
  assumes "pool_ok pool" and "pool_get lv os user (pool, w) = (r, (pool', w'))"
  shows "pool_ok pool' \<and> (\<forall>v. v \<noteq> user \<longrightarrow> sm_find v pool' = sm_find v pool) \<and>
    (\<forall>ref. r = Ok ref \<longrightarrow> ref = user \<and> slot_open user pool')"
proof (cases "slot_open user pool")
  case True
  with assms show ?thesis by (auto simp: pool_get_open)
next
  case False
  obtain q c w1 where q: "connect lv os user (new_connection, w) = (q, (c, w1))" by (metis prod_cases3)
  with False assms(2) have eq: "r = outcome_bind q (\<lambda>_. Ok user)" "pool' = sm_put user c pool"
    by (simp_all add: pool_get_closed)
  have ptr: "vc_ptr new_connection = None" by (simp add: new_connection_def)
  have "slot_ok user c"
    using connect_slot_ok [OF slot_ok_new ptr, of user lv os w] q by simp
  then have "pool_ok pool'" using assms(1) by (simp add: eq pool_ok_put)
  moreover have "connection_is_open c" if "q = Ok ()"
    using connect_Ok [OF ptr, of lv os user w c w1] q that by simp
  ultimately show ?thesis
    using eq by (cases q) (auto simp: sm_find_put slot_open_put)
qed

section \<open>The contract of a source of connections\<close>

text \<open>
  What the request path relies on: what it is handed is live, and asking again for something live
  gives the same thing without side effects.
\<close>

locale connection_source =
  fixes get :: "'u \<Rightarrow> ('s, 'r) act"
    and inv :: "'s \<Rightarrow> bool"
    and live :: "'u \<Rightarrow> 'r \<Rightarrow> 's \<Rightarrow> bool"
  assumes get_keeps: "inv s \<Longrightarrow> inv (snd (get u s))"
    and get_live: "inv s \<Longrightarrow> get u s = (Ok r, s') \<Longrightarrow> live u r s'"
    and get_stable: "live u r s \<Longrightarrow> get u s = (Ok r, s)"
begin

lemma get_again:
  assumes "inv s" "get u s = (Ok r, s')"
  shows "get u s' = (Ok r, s')"
  using assms by (blast intro: get_live get_stable)

lemma get_twice:
  assumes "inv s" "get u s = (Ok r, s')"
  shows "act_then (get u) (get u) s = get u s"
  using assms get_again [OF assms] by (simp add: act_simps)

lemma act_keeps_get: "act_keeps inv (get u)"
  by (rule act_keepsI) (rule get_keeps)

end

interpretation pool_source: connection_source "pool_get lv os" "\<lambda>(pool, w). pool_ok pool"
    "\<lambda>user r (pool, w). r = user \<and> slot_open user pool" for lv os
proof unfold_locales
  fix s :: "conn_pool \<times> 'a" and u
  assume "case s of (pool, w) \<Rightarrow> pool_ok pool"
  moreover obtain pool w r pool' w' where "s = (pool, w)" "pool_get lv os u s = (r, (pool', w'))"
    by (metis prod_cases3 surj_pair)
  ultimately show "case snd (pool_get lv os u s) of (pool, w) \<Rightarrow> pool_ok pool"
    using pool_get_sound [of pool lv os u w r pool' w'] by simp
next
  fix s :: "conn_pool \<times> 'a" and u r s'
  assume "case s of (pool, w) \<Rightarrow> pool_ok pool" and "pool_get lv os u s = (Ok r, s')"
  then show "case s' of (pool, w) \<Rightarrow> r = u \<and> slot_open u pool"
    using pool_get_sound [of "fst s" lv os u "snd s" "Ok r" "fst s'" "snd s'"] by auto
next
  fix s :: "conn_pool \<times> 'a" and u r
  assume "case s of (pool, w) \<Rightarrow> r = u \<and> slot_open u pool"
  then show "pool_get lv os u s = (Ok r, s)" by (auto simp: pool_get_open)
qed

section \<open>Properties\<close>

text \<open>C6: a lookup in the pool keeps the table well formed and the other users' connections as they
  are, whatever libvirt does; when it returns, the user's connection is open and his, and looking it
  up again returns it without touching the table or the world.\<close>

theorem pool_get_correct:
  assumes "pool_ok pool" and "pool_get lv os user (pool, w) = (r, (pool', w'))"
  shows "pool_ok pool' \<and> (\<forall>v. v \<noteq> user \<longrightarrow> sm_find v pool' = sm_find v pool) \<and>
    (\<forall>ref. r = Ok ref \<longrightarrow> ref = user \<and> slot_open user pool' \<and>
       pool_get lv os user (pool', w') = (Ok ref, (pool', w')))"
  using assms pool_get_sound [OF assms] pool_source.get_again [of "(pool, w)" lv os user _ "(pool', w')"]
  by auto

lemma pool_get_fail_run:
  assumes "\<not> slot_open user pool" and "virConnectOpen lv (c_str (uri user)) w = (Ok None, w1)"
  shows "pool_get lv os user (pool, w) =
    (Throw (Runtime_Error (''error: '' @ os_strerror os (os_errno os w1) @ [CHR 0x0A])),
     (sm_put user (new_connection\<lparr>vc_errno := os_errno os w1\<rparr>) pool, w1))"
  using assms connect_fresh [of new_connection lv user w "Ok None" w1 os]
  by (simp add: pool_get_closed new_connection_def)

text \<open>A failure to connect throws \<open>std::runtime_error\<close> and leaves a closed, unconnected object
  in the user's slot, so that the next lookup tries to connect again.\<close>

theorem pool_get_fails:
  assumes "\<not> slot_open user pool" and "virConnectOpen lv (c_str (uri user)) w = (Ok None, w1)"
  shows "pool_get lv os user (pool, w) =
    (Throw (Runtime_Error (''error: '' @ os_strerror os (os_errno os w1) @ [CHR 0x0A])),
     (sm_put user (new_connection\<lparr>vc_errno := os_errno os w1\<rparr>) pool, w1))
    \<and> \<not> slot_open user (sm_put user (new_connection\<lparr>vc_errno := os_errno os w1\<rparr>) pool)"
  using pool_get_fail_run [OF assms] by (simp add: new_connection_def slot_open_put connection_is_open_def)

text \<open>Witnesses: over the stub library, whose open always fails, and over one whose open succeeds.\<close>

definition opening_libvirt :: "nat libvirt_c" where
  "opening_libvirt = stub_libvirt\<lparr>c_virConnectOpen := (\<lambda>u. (\<lambda>n. (Ok (Some n), Suc n)))\<rparr>"

theorem pool_get_correct_witness:
  "\<exists>r pool' w'. pool_get opening_libvirt counting_os ''test'' ([], 7) = (r, (pool', w')) \<and>
     r = Ok ''test'' \<and> slot_open ''test'' pool' \<and> pool_ok pool'"
proof -
  have run: "pool_get opening_libvirt counting_os ''test'' ([], 7) = (Ok ''test'',
      ([(''test'', \<lparr>vc_ptr = Some 7, vc_errno = 0, vc_closed = False, vc_user = ''test''\<rparr>)], 8))"
    by (simp add: pool_get_def on_slot_def connect_def on_world_def act_simps act_then_def act_bind_def
        act_read_def act_modify_def act_return_def opening_libvirt_def stub_libvirt_def stub_with_def libvirt_defs
        new_connection_def)
  have "pool_ok []" by (simp add: pool_ok_def)
  from pool_get_correct [OF this run] run show ?thesis by blast
qed

theorem pool_get_fails_witness:
  "fst (pool_get stub_libvirt counting_os ''test'' ([], 0)) = Throw (Runtime_Error (''error: '' @ [CHR 0x0A]))"
proof -
  have "\<not> slot_open ''test'' []" by (simp add: slot_open_def)
  moreover have "virConnectOpen stub_libvirt (c_str (uri ''test'')) 0 = (Ok None, 0)"
    by (simp add: virConnectOpen_def stub_libvirt_def stub_with_def act_return_def)
  ultimately show ?thesis
    using pool_get_fails [of "''test''" "[]" stub_libvirt 0 0 counting_os] by (simp add: counting_os_def)
qed

end
