(* ===== verification/Data.thy ===== *)
theory Data
  imports Connection
begin

text \<open>
  \<open>data/domain.cpp\<close> and \<open>data/host.cpp\<close>: the JSON the views answer with, built from what libvirt
  reports about a domain, the host and its networks. The functions build a local value, so an
  exception discards it; calls made on libvirt before the exception stay made.
\<close>

section \<open>A domain in a list\<close>

definition ARRAY_KEYS :: "string list" where
  "ARRAY_KEYS =
     [''disk'', ''controller'', ''interface'', ''serial'', ''console'', ''channel'', ''input'',
      ''graphics'', ''sound'', ''audio'', ''video'', ''redirdev'', ''memballoon'', ''rng'']"

definition text_object :: "string \<Rightarrow> json" where
  "text_object s = JObject (sm_put ''text'' (JString s) [])"

definition state_object :: "int \<Rightarrow> string \<Rightarrow> json" where
  "state_object st name =
     (let attrib = sm_put ''string'' (JString name) (sm_put ''id'' (JInt st) [])
      in JObject (sm_put ''attrib'' (JObject attrib) []))"

definition simple_domain :: "'w libvirt_c \<Rightarrow> domain_ptr \<Rightarrow> ('w, json) act" where
  "simple_domain lv ptr =
     act_bind (domain_id lv ptr) (\<lambda>id.
     let output = sm_put ''id'' (JInt id) [] in
     act_bind (domain_name lv ptr) (\<lambda>name.
     let output = sm_put ''name'' (text_object name) output in
     act_bind (domain_title lv ptr) (\<lambda>title.
     let output = sm_put ''title'' (text_object title) output in
     act_bind (domain_description lv ptr) (\<lambda>description.
     let output = sm_put ''description'' (text_object description) output in
     act_bind (domain_state lv ptr) (\<lambda>state_id.
     act_bind (act_lift (state_string state_id)) (\<lambda>name.
     act_return (JObject (sm_put ''state'' (state_object state_id name) output))))))))"

section \<open>A domain in detail\<close>

text \<open>Every member of the converted document replaces the member of that name.\<close>

definition merge_members :: "json \<Rightarrow> (string, json) std_map \<Rightarrow> (string, json) std_map" where
  "merge_members xml_output output = fold (\<lambda>(k, v). sm_put k v) (members xml_output) output"

definition array_key :: "string \<Rightarrow> json \<Rightarrow> json outcome" where
  "array_key key devices =
     outcome_bind (j_member devices key) (\<lambda>found.
     if \<not> found then Ok devices else
     outcome_bind (j_index devices key) (\<lambda>current.
     if is_object current then j_assign devices key (JArray [current]) else Ok devices))"

fun array_keys :: "string list \<Rightarrow> json \<Rightarrow> json outcome" where
  "array_keys [] devices = Ok devices"
| "array_keys (key # keys) devices =
     outcome_bind (array_key key devices) (\<lambda>devices'. array_keys keys devices')"

definition block_info_object :: "block_info \<Rightarrow> json" where
  "block_info_object bi =
     (let output = sm_put ''unit'' (JString ''KiB'') [];
          output = sm_put ''capacity'' (JUInt (unat (bi_capacity bi div 1000))) output;
          output = sm_put ''allocation'' (JUInt (unat (bi_allocation bi div 1000))) output;
          output = sm_put ''physical'' (JUInt (unat (bi_physical bi div 1000))) output
      in JObject output)"

definition add_block_info :: "libs \<Rightarrow> 'w libvirt_c \<Rightarrow> domain_ptr \<Rightarrow> json \<Rightarrow> ('w, json) act" where
  "add_block_info L lv ptr disk =
     act_bind (act_lift (j_touch disk [''attrib'', ''device''])) (\<lambda>(device, disk).
     act_bind (act_lift (lib_as_string L device)) (\<lambda>device.
     if device \<noteq> ''disk'' then act_return disk else
     act_bind (act_lift (j_touch disk [''target'', ''attrib'', ''dev''])) (\<lambda>(dev, disk).
     act_bind (act_lift (lib_as_string L dev)) (\<lambda>dev.
     act_bind (domain_block_info lv ptr dev) (\<lambda>bi.
     act_lift (j_assign disk ''block_info'' (block_info_object bi)))))))"

text \<open>The loop over \<open>devices["disk"]\<close>: the elements of an array, or the members of an object.\<close>

fun for_each :: "(json \<Rightarrow> ('w, json) act) \<Rightarrow> json \<Rightarrow> ('w, json) act" where
  "for_each f (JArray xs) = act_bind (act_map f xs) (\<lambda>ys. act_return (JArray ys))"
| "for_each f (JObject m) =
     act_bind (act_map f (map snd m)) (\<lambda>ys. act_return (JObject (zip (map fst m) ys)))"
| "for_each f j = act_return j"

definition disks_block_info :: "libs \<Rightarrow> 'w libvirt_c \<Rightarrow> domain_ptr \<Rightarrow> json \<Rightarrow> ('w, json) act" where
  "disks_block_info L lv ptr devices =
     act_bind (act_lift (j_member devices ''disk'')) (\<lambda>found.
     if \<not> found then act_return devices else
     act_bind (act_lift (j_index devices ''disk'')) (\<lambda>disks.
     act_bind (for_each (add_block_info L lv ptr) disks) (\<lambda>disks.
     act_lift (j_assign devices ''disk'' disks))))"

text \<open>\<open>output["devices"]\<close>, which the loops read through, inserts a null if there is none.\<close>

definition data_domain :: "libs \<Rightarrow> 'w libvirt_c \<Rightarrow> domain_ptr \<Rightarrow> ('w, json) act" where
  "data_domain L lv ptr =
     act_bind (simple_domain lv ptr) (\<lambda>output.
     act_bind (domain_autostart lv ptr) (\<lambda>autostart.
     let output = sm_put ''autostart'' (JBool autostart) (members output) in
     act_bind (domain_xml_document L lv ptr) (\<lambda>doc.
     let xml_output = xml_to_json (xml_child doc ''domain'');
         (devices, output) = sm_index JNull ''devices'' (merge_members xml_output output) in
     act_bind (act_lift (array_keys ARRAY_KEYS devices)) (\<lambda>devices.
     act_bind (disks_block_info L lv ptr devices) (\<lambda>devices.
     act_return (JObject (sm_put ''devices'' devices output)))))))"

section \<open>The host and its networks\<close>

text \<open>A null \<open>const char*\<close> is refused by the constructor of a JSON value.\<close>

definition json_of_c_string :: "string option \<Rightarrow> json outcome" where
  "json_of_c_string s = (case s of Some t \<Rightarrow> Ok (JString t) | None \<Rightarrow> Throw (Json_Error []))"

definition host_sysinfo :: "libs \<Rightarrow> 'w libvirt_c \<Rightarrow> connection \<Rightarrow> (string, json) std_map \<Rightarrow>
    ('w, (string, json) std_map) act" where
  "host_sysinfo L lv conn output =
     (if vc_user conn = ''root'' then
        act_bind (sysinfo lv conn) (\<lambda>info.
        let doc = lib_xml_load L (c_str info) in
        act_return (sm_put ''sysinfo'' (xml_to_json (xml_child doc ''sysinfo'')) output))
      else act_return output)"

definition data_host :: "libs \<Rightarrow> 'w libvirt_c \<Rightarrow> connection \<Rightarrow> ('w, json) act" where
  "data_host L lv conn =
     act_bind (hostname lv conn) (\<lambda>name.
     let output = sm_put ''hostname'' (JString name) [] in
     act_bind (library_version lv conn) (\<lambda>lib.
     let output = sm_put ''libVersion'' (JUInt lib) output in
     act_bind (connection_uri lv conn) (\<lambda>u.
     let output = sm_put ''uri'' (JString u) output in
     act_bind (host_sysinfo L lv conn output) (\<lambda>output.
     act_bind (connection_version lv conn) (\<lambda>version.
     let output = sm_put ''version'' (JUInt version) output in
     act_bind (encrypted lv conn) (\<lambda>enc.
     let output = sm_put ''encrypted'' (JBool enc) output in
     act_bind (secure lv conn) (\<lambda>sec.
     let output = sm_put ''secure'' (JBool sec) output in
     act_bind (connection_type lv conn) (\<lambda>ty.
     act_bind (act_lift (json_of_c_string ty)) (\<lambda>j.
     let output = sm_put ''type'' j output in
     act_bind (max_vcpus lv conn (the ty)) (\<lambda>n.
     let output = sm_put ''max_vcpus'' (JInt n) output in
     act_bind (capabilities lv conn) (\<lambda>caps.
     let doc = lib_xml_load L (c_str caps);
         caps = xml_to_json (xml_child (xml_child doc ''capabilities'') ''host'') in
     act_return (JObject (sm_put ''caps'' caps output)))))))))))))"

definition network_object :: "libs \<Rightarrow> 'w libvirt_c \<Rightarrow> network_ptr \<Rightarrow> ('w, json) act" where
  "network_object L lv net =
     act_bind (network_xml_document L lv net) (\<lambda>doc.
     act_return (xml_to_json (xml_child doc ''network'')))"

definition data_networks :: "libs \<Rightarrow> 'w libvirt_c \<Rightarrow> connection \<Rightarrow> ('w, json) act" where
  "data_networks L lv conn =
     act_bind (connection_networks lv conn) (\<lambda>networks.
     act_bind (act_map (network_object L lv) networks) (\<lambda>outputs.
     act_return (JArray outputs)))"

section \<open>Arrays of devices\<close>

definition as_array :: "json \<Rightarrow> json" where
  "as_array v = (if is_object v then JArray [v] else v)"

lemma array_key_object:
  "array_key k (JObject m) = Ok (JObject (case sm_find k m of Some v \<Rightarrow>
     (if is_object v then sm_put k (as_array v) m else m) | None \<Rightarrow> m))"
  by (simp add: array_key_def as_array_def split: option.split)

lemma array_keys_object:
  obtains m' where "array_keys keys (JObject m) = Ok (JObject m')"
    and "\<And>k. sm_find k m' = (if k \<in> set keys then map_option as_array (sm_find k m) else sm_find k m)"
proof (induction keys arbitrary: m thesis)
  case Nil
  from Nil [of m] show ?case by simp
next
  case (Cons key keys)
  define m1 where "m1 = (case sm_find key m of Some v \<Rightarrow>
     (if is_object v then sm_put key (as_array v) m else m) | None \<Rightarrow> m)"
  have find1: "sm_find k m1 = (if k = key then map_option as_array (sm_find k m) else sm_find k m)" for k
    by (auto simp: m1_def sm_find_put as_array_def split: option.split)
  have idem: "as_array (as_array v) = as_array v" for v by (simp add: as_array_def)
  obtain m' where m': "array_keys keys (JObject m1) = Ok (JObject m')"
    "\<And>k. sm_find k m' = (if k \<in> set keys then map_option as_array (sm_find k m1) else sm_find k m1)"
    using Cons.IH [of m1] by blast
  show ?case
  proof (rule Cons.prems)
    show "array_keys (key # keys) (JObject m) = Ok (JObject m')"
      using m'(1) by (simp add: array_key_object m1_def)
    show "sm_find k m' = (if k \<in> set (key # keys) then map_option as_array (sm_find k m) else sm_find k m)" for k
      by (auto simp: m'(2) find1 option.map_comp o_def idem)
  qed
qed

lemma array_keys_null: "array_keys keys JNull = Ok JNull"
  by (induction keys) (simp_all add: array_key_def)

lemma array_keys_array: "array_keys ARRAY_KEYS (JArray xs) = Throw (Json_Error [])"
  by (simp add: ARRAY_KEYS_def array_key_def)

lemma sm_put_same: "sm_ok m \<Longrightarrow> sm_find k m = Some v \<Longrightarrow> sm_put k v m = m"
  by (rule sm_ext) (auto simp: sm_find_put)

text \<open>What the values of one element name become: an array whenever there is one at all.\<close>

definition array_of :: "json list \<Rightarrow> json option" where
  "array_of vs = (if vs = [] then None else Some (JArray vs))"

lemma as_array_collect:
  assumes "\<forall>v \<in> set vs. is_object v"
  shows "map_option as_array (collect vs) = array_of vs"
  using assms by (cases vs rule: collect.cases) (auto simp: as_array_def array_of_def)

lemma child_values_objects: "\<forall>v \<in> set (child_values nd k). is_object v"
  by (auto simp: child_values_def)

lemma base_values_none: "k \<noteq> ''attrib'' \<Longrightarrow> k \<noteq> ''text'' \<Longrightarrow> base_values nd k = []"
  by (simp add: base_values_def)

lemma xml_child_values:
  assumes "child_values nd n = [v]"
  shows "v = xml_to_json (xml_child nd n)"
  using assms by (auto simp: child_values_def xml_child_def map_eq_Cons_conv)

lemma array_keys_xml:
  assumes "k \<in> set ARRAY_KEYS"
    and "array_keys ARRAY_KEYS (xml_to_json nd) = Ok devices"
  shows "sm_find k (members devices) = array_of (child_values nd k)"
proof -
  obtain m where m: "xml_to_json nd = JObject m" by (cases nd) simp
  from assms(1) have k: "k \<noteq> []" "k \<noteq> ''attrib''" "k \<noteq> ''text''" by (auto simp: ARRAY_KEYS_def)
  from xml_members_find [OF k(1), of nd] m k have "sm_find k m = collect (child_values nd k)"
    by (simp add: base_values_none)
  moreover obtain m' where "array_keys ARRAY_KEYS (JObject m) = Ok (JObject m')"
    and "\<And>k. sm_find k m' = (if k \<in> set ARRAY_KEYS then map_option as_array (sm_find k m) else sm_find k m)"
    using array_keys_object [of ARRAY_KEYS m] by blast
  ultimately show ?thesis
    using assms m by (auto simp: as_array_collect child_values_objects)
qed

lemma for_each_arrays:
  assumes "for_each f (JArray xs) w = (Ok j, w')"
  obtains ys where "j = JArray ys" "length ys = length xs"
  using assms by (auto simp: act_return_def dest: act_map_length elim!: act_bind_OkE)

text \<open>The disks change in place; nothing else of the devices does.\<close>

lemma disks_block_info_find:
  assumes "disks_block_info L lv ptr (JObject m) w = (Ok j, w')"
  obtains m' where "j = JObject m'" "\<And>k. k \<noteq> ''disk'' \<Longrightarrow> sm_find k m' = sm_find k m"
    "sm_find ''disk'' m = None \<Longrightarrow> m' = m"
    "\<And>xs. sm_find ''disk'' m = Some (JArray xs) \<Longrightarrow>
       \<exists>ys v v'. sm_find ''disk'' m' = Some (JArray ys) \<and> act_map (add_block_info L lv ptr) xs v = (Ok ys, v')"
proof (cases "sm_find ''disk'' m")
  case None
  with assms show ?thesis
    by (intro that [of m]) (auto simp: disks_block_info_def act_simps)
next
  case (Some d)
  with assms obtain d' w1 where d': "for_each (add_block_info L lv ptr) d w = (Ok d', w1)"
      "j = JObject (sm_put ''disk'' d' m)"
    by (auto simp: disks_block_info_def act_simps elim!: act_bind_OkE)
  show ?thesis
  proof (rule that [OF d'(2)])
    fix xs assume "sm_find ''disk'' m = Some (JArray xs)"
    with Some d' show "\<exists>ys v v'. sm_find ''disk'' (sm_put ''disk'' d' m) = Some (JArray ys) \<and>
        act_map (add_block_info L lv ptr) xs v = (Ok ys, v')"
      by (fastforce simp: sm_find_put act_return_def elim!: act_bind_OkE)
  qed (use Some in \<open>simp_all add: sm_find_put\<close>)
qed

text \<open>The separately fetched members, and how the document is merged over them.\<close>

definition plain_keys :: "string list" where
  "plain_keys = [''id'', ''name'', ''title'', ''description'', ''state'', ''autostart'']"

lemma simple_domain_members:
  assumes "simple_domain lv ptr w = (Ok j, w')"
  shows "sm_find k (members j) \<noteq> None \<longleftrightarrow> k \<in> set plain_keys \<and> k \<noteq> ''autostart''"
  using assms
  by (auto simp: simple_domain_def Let_def sm_find_put plain_keys_def act_return_def
      simp del: sm_put.simps split: if_splits elim!: act_bind_OkE)

lemma merge_members_find:
  "sm_find k (merge_members (xml_to_json nd) outp) =
     (case sm_find k (members (xml_to_json nd)) of Some v \<Rightarrow> Some v | None \<Rightarrow> sm_find k outp)"
proof -
  have "sm_ok (members (xml_to_json nd))"
    using json_ok_xml [of nd] by (cases nd) (simp add: jmap_ok_def)
  then show ?thesis by (simp add: merge_members_def sm_find_merge)
qed

text \<open>The document a detailed view is built from, and what became of its devices.\<close>

lemma data_domain_Ok:
  assumes "data_domain L lv ptr w = (Ok j, w')"
  obtains doc w1 w2 nd outp dv dv1 dv2 w3 where
    "domain_xml_document L lv ptr w1 = (Ok doc, w2)" "nd = xml_child doc ''domain''"
    "\<And>k. sm_find k outp \<noteq> None \<longleftrightarrow> k \<in> set plain_keys"
    "dv = (case sm_find ''devices'' (members (xml_to_json nd)) of Some d \<Rightarrow> d | None \<Rightarrow> JNull)"
    "array_keys ARRAY_KEYS dv = Ok dv1" "disks_block_info L lv ptr dv1 w2 = (Ok dv2, w3)"
    "\<And>k. sm_find k (members j) = (if k = ''devices'' then Some dv2 else
       case sm_find k (members (xml_to_json nd)) of Some v \<Rightarrow> Some v | None \<Rightarrow> sm_find k outp)"
proof -
  from assms obtain base a doc dv1 dv2 w0 w1 w2 w3 where
    base: "simple_domain lv ptr w = (Ok base, w0)" and
    doc: "domain_xml_document L lv ptr w1 = (Ok doc, w2)" and
    keys: "array_keys ARRAY_KEYS (fst (sm_index JNull ''devices''
      (merge_members (xml_to_json (xml_child doc ''domain'')) (sm_put ''autostart'' (JBool a) (members base)))))
      = Ok dv1" and
    disks: "disks_block_info L lv ptr dv1 w2 = (Ok dv2, w3)" and
    j: "j = JObject (sm_put ''devices'' dv2 (snd (sm_index JNull ''devices''
      (merge_members (xml_to_json (xml_child doc ''domain'')) (sm_put ''autostart'' (JBool a) (members base))))))"
    unfolding data_domain_def
    by (elim act_bind_OkE) (auto simp: Let_def act_lift_def act_return_def case_prod_beta elim!: act_bind_OkE)
  define outp where "outp = sm_put ''autostart'' (JBool a) (members base)"
  have plain: "sm_find k outp \<noteq> None \<longleftrightarrow> k \<in> set plain_keys" for k
  proof (cases "k = ''autostart''")
    case True
    then show ?thesis by (simp add: outp_def sm_find_put plain_keys_def del: sm_put.simps)
  next
    case False
    with simple_domain_members [OF base, of k] show ?thesis by (simp add: outp_def sm_find_put)
  qed
  have "sm_find ''devices'' outp = None" using plain [of "''devices''"] by (simp add: plain_keys_def)
  then have dv: "fst (sm_index JNull ''devices'' (merge_members (xml_to_json nd) outp)) =
      (case sm_find ''devices'' (members (xml_to_json nd)) of Some d \<Rightarrow> d | None \<Rightarrow> JNull)" for nd
    by (simp add: fst_sm_index merge_members_find split: option.split)
  have "sm_find k (members j) = (if k = ''devices'' then Some dv2 else
      case sm_find k (members (xml_to_json (xml_child doc ''domain''))) of Some v \<Rightarrow> Some v
      | None \<Rightarrow> sm_find k outp)" for k
    by (simp add: j outp_def [symmetric] sm_find_put sm_find_index merge_members_find)
  with doc plain keys [folded outp_def, unfolded dv] disks show ?thesis
    by (intro that [OF doc refl plain refl]) assumption+
qed

lemma devices_arrays:
  assumes one: "child_values nd ''devices'' = [v]" and "dv = xml_to_json (xml_child nd ''devices'')"
    and arrays: "array_keys ARRAY_KEYS dv = Ok dv1" and infos: "disks_block_info L lv ptr dv1 w2 = (Ok dv2, w3)"
  shows "(\<forall>k \<in> set ARRAY_KEYS. k \<noteq> ''disk'' \<longrightarrow>
      sm_find k (members dv2) = array_of (child_values (xml_child nd ''devices'') k)) \<and>
     (child_values (xml_child nd ''devices'') ''disk'' \<noteq> [] \<longrightarrow> (\<exists>ys. sm_find ''disk'' (members dv2) = Some (JArray ys) \<and>
        length ys = length (child_values (xml_child nd ''devices'') ''disk'')))"
proof -
  let ?devices = "xml_child nd ''devices''"
  have found: "sm_find k (members dv1) = array_of (child_values ?devices k)" if "k \<in> set ARRAY_KEYS" for k
    using array_keys_xml that assms(2,3) by simp
  from arrays \<open>dv = xml_to_json ?devices\<close> obtain m where m: "dv1 = JObject m"
    by (metis array_keys_object is_object_xml_to_json is_objectE outcome.inject(1))
  from infos [unfolded m] obtain m' where m': "dv2 = JObject m'"
      "\<And>k. k \<noteq> ''disk'' \<Longrightarrow> sm_find k m' = sm_find k m"
      "\<And>xs. sm_find ''disk'' m = Some (JArray xs) \<Longrightarrow>
         \<exists>ys v v'. sm_find ''disk'' m' = Some (JArray ys) \<and> act_map (add_block_info L lv ptr) xs v = (Ok ys, v')"
    by (rule disks_block_info_find) blast
  have "''disk'' \<in> set ARRAY_KEYS" by (simp add: ARRAY_KEYS_def)
  then show ?thesis
    using found m m' by (auto simp: array_of_def) (blast dest: act_map_length)
qed


section \<open>Block information\<close>

lemma xml_attributes_find: "sm_find n (xml_attributes attrs) = map_option JString (map_of (rev attrs) n)"
proof -
  have "sm_find n (fold (\<lambda>(n, v). sm_put n (JString v)) attrs m) =
      (case map_of (rev attrs) n of Some v \<Rightarrow> Some (JString v) | None \<Rightarrow> sm_find n m)" for m
    by (induction attrs arbitrary: m) (auto simp: sm_find_put map_add_def split: option.splits)
  then show ?thesis by (simp add: xml_attributes_def split: option.split)
qed

text \<open>An attribute of a converted node, when no child element is called \<open>attrib\<close>.\<close>

definition attr_of :: "xml \<Rightarrow> string \<Rightarrow> string option" where
  "attr_of nd n = (if child_values nd ''attrib'' = [] then map_of (rev (nd_attrs nd)) n else None)"

lemma touch_attr:
  assumes "attr_of nd n = Some v"
  shows "j_touch (xml_to_json nd) [''attrib'', n] = Ok (JString v, xml_to_json nd)"
proof -
  obtain m where m: "xml_to_json nd = JObject m" by (cases nd) simp
  have ok: "sm_ok m" using json_ok_xml [of nd] by (simp add: m jmap_ok_def)
  from assms have none: "child_values nd ''attrib'' = []" and v: "map_of (rev (nd_attrs nd)) n = Some v"
    by (simp_all add: attr_of_def split: if_splits)
  then have "nd_attrs nd \<noteq> []" by auto
  then have a: "sm_find ''attrib'' m = Some (JObject (xml_attributes (nd_attrs nd)))"
    using xml_members_find [of "''attrib''" nd] none m by (simp add: base_values_def)
  have b: "sm_find n (xml_attributes (nd_attrs nd)) = Some (JString v)"
    using v by (simp add: xml_attributes_find)
  have "sm_ok (xml_attributes (nd_attrs nd))"
    using jmap_ok_attributes [of "nd_attrs nd"] by (simp add: jmap_ok_def)
  then show ?thesis by (simp add: m a b sm_put_same ok)
qed

lemma touch_child:
  assumes "child_values nd n = [c]" "n \<noteq> []" "n \<noteq> ''attrib''" "n \<noteq> ''text''"
    and "j_touch c path = Ok (v, c)"
  shows "j_touch (xml_to_json nd) (n # path) = Ok (v, xml_to_json nd)"
proof -
  obtain m where m: "xml_to_json nd = JObject m" by (cases nd) simp
  have ok: "sm_ok m" using json_ok_xml [of nd] by (simp add: m jmap_ok_def)
  have "sm_find n m = Some c"
    using xml_members_find [OF assms(2), of nd] assms(1,3,4) m by (simp add: base_values_none)
  with assms(5) show ?thesis by (simp add: m sm_put_same ok)
qed

lemma add_block_info_run:
  assumes "j_touch disk [''attrib'', ''device''] = Ok (v1, d1)" "lib_as_string L v1 = Ok kind"
    and "j_touch d1 [''target'', ''attrib'', ''dev''] = Ok (v2, d2)" "lib_as_string L v2 = Ok dev"
    and "domain_block_info lv ptr dev w = (Ok bi, w')"
  shows "add_block_info L lv ptr disk w =
    (if kind = ''disk'' then (j_assign d2 ''block_info'' (block_info_object bi), w') else (Ok d1, w))"
  by (simp add: add_block_info_def assms act_simps del: j_touch.simps)

lemma block_info_sizes:
  "sm_find ''capacity'' (members (block_info_object bi)) = Some (JUInt (unat (bi_capacity bi) div 1000))"
  "sm_find ''allocation'' (members (block_info_object bi)) = Some (JUInt (unat (bi_allocation bi) div 1000))"
  "sm_find ''physical'' (members (block_info_object bi)) = Some (JUInt (unat (bi_physical bi) div 1000))"
  "sm_find ''unit'' (members (block_info_object bi)) = Some (JString ''KiB'')"
  by (simp_all add: block_info_object_def Let_def unat_div)

text \<open>A disk element is given a \<open>block_info\<close> member exactly when its \<open>device\<close> attribute is
  \<open>disk\<close>: it holds what libvirt reports for the device the disk's target names, each size in
  thousands of bytes rounded down (the unit is written \<open>KiB\<close>); any other disk is left as it is and
  libvirt is not asked.\<close>

theorem disk_block_info:
  assumes "as_string_ok L" and "attr_of nd ''device'' = Some kind"
    and "child_values nd ''target'' = [xml_to_json target]" and "attr_of target ''dev'' = Some dev"
    and "domain_block_info lv ptr dev w = (Ok bi, w')"
  shows "add_block_info L lv ptr (xml_to_json nd) w =
      (if kind = ''disk''
       then (Ok (JObject (sm_put ''block_info'' (block_info_object bi) (members (xml_to_json nd)))), w')
       else (Ok (xml_to_json nd), w)) \<and>
    (\<forall>f \<in> {(''capacity'', bi_capacity bi), (''allocation'', bi_allocation bi), (''physical'', bi_physical bi)}.
      \<exists>n. sm_find (fst f) (members (block_info_object bi)) = Some (JUInt n) \<and>
        n * 1000 \<le> unat (snd f) \<and> unat (snd f) < (n + 1) * 1000)"
proof
  obtain m where m: "xml_to_json nd = JObject m" by (cases nd) simp
  have t1: "j_touch (JObject m) [''attrib'', ''device''] = Ok (JString kind, JObject m)"
    using touch_attr [OF assms(2)] m by simp
  have t2: "j_touch (JObject m) [''target'', ''attrib'', ''dev''] = Ok (JString dev, JObject m)"
    using touch_child [OF assms(3) _ _ _ touch_attr [OF assms(4)]] m by simp
  show "add_block_info L lv ptr (xml_to_json nd) w =
      (if kind = ''disk''
       then (Ok (JObject (sm_put ''block_info'' (block_info_object bi) (members (xml_to_json nd)))), w')
       else (Ok (xml_to_json nd), w))"
    unfolding m add_block_info_run [OF t1 as_string_okD(1) [OF assms(1)] t2 as_string_okD(1) [OF assms(1)] assms(5)]
    by simp
next
  have "n div 1000 * 1000 \<le> n \<and> n < (n div 1000 + 1) * 1000" for n :: nat
    using div_mult_mod_eq [of n 1000] mod_less_divisor [of 1000 n] by simp
  then show "\<forall>f \<in> {(''capacity'', bi_capacity bi), (''allocation'', bi_allocation bi),
      (''physical'', bi_physical bi)}. \<exists>n. sm_find (fst f) (members (block_info_object bi)) = Some (JUInt n) \<and>
        n * 1000 \<le> unat (snd f) \<and> unat (snd f) < (n + 1) * 1000"
    by (auto simp: block_info_sizes)
qed

section \<open>Witnesses\<close>

text \<open>A library with one running domain, whose description is this document.\<close>

definition lab_disk :: "string \<Rightarrow> string \<Rightarrow> xml" where
  "lab_disk kind dev = Node ''disk'' [(''type'', ''file''), (''device'', kind)] []
     [Node ''target'' [(''dev'', dev), (''bus'', ''virtio'')] [] []]"

definition lab_doc :: xml where
  "lab_doc = Node [] [] [] [Node ''domain'' [(''type'', ''kvm'')] []
     [Node ''name'' [] ''vm'' [], Node ''devices'' [] []
        [lab_disk ''disk'' ''vda'', Node ''interface'' [(''type'', ''network'')] [] []]]]"

definition lab_libs :: libs where
  "lab_libs = \<lparr>
     lib_reader_parse = (\<lambda>s. if s = ''{}'' then Inr (JObject []) else Inl ''syntax error''),
     lib_fast_write = (\<lambda>j. case j of JString s \<Rightarrow> s | JObject _ \<Rightarrow> ''{}'' | JArray _ \<Rightarrow> ''[]'' | _ \<Rightarrow> ''null''),
     lib_as_string = (\<lambda>j. case j of JString s \<Rightarrow> Ok s | JNull \<Rightarrow> Ok [] | _ \<Rightarrow> Throw (Json_Error [])),
     lib_xml_load = (\<lambda>s. if s = ''<domain/>'' then lab_doc else null_node),
     lib_xml_save = (\<lambda>x. ''<domain/>'')\<rparr>"

definition lab_libvirt :: "nat libvirt_c" where
  "lab_libvirt = stub_libvirt\<lparr>
     c_virConnectOpen := (\<lambda>u n. (Ok (Some n), Suc n)),
     c_virDomainLookupByName := (\<lambda>conn name. act_return (if name = ''vm'' then Some 1 else None)),
     c_virDomainGetName := (\<lambda>dptr. act_return (Some ''vm'')),
     c_virDomainGetAutostart := (\<lambda>dptr. act_return (0, Some 1)),
     c_virDomainGetXMLDesc := (\<lambda>dptr flags. act_return (Some ''<domain/>'')),
     c_virDomainGetBlockInfo := (\<lambda>dptr dev flags. act_return (0,
       Some \<lparr>bi_capacity = 8192, bi_allocation = 4096, bi_physical = 1024\<rparr>))\<rparr>"

lemma lab_document: "domain_xml_document lab_libs lab_libvirt ptr w = (Ok lab_doc, w)"
  by (simp add: domain_defs libvirt_defs lab_libvirt_def stub_libvirt_def stub_with_def lab_libs_def act_simps)

lemma data_domain_lab:
  "case data_domain lab_libs lab_libvirt 1 0 of (Ok j, w) \<Rightarrow> True | _ \<Rightarrow> False"
  by code_simp


theorem disk_block_info_witness:
  "fst (add_block_info lab_libs lab_libvirt 1 (xml_to_json (lab_disk ''disk'' ''vda'')) 0) =
     Ok (JObject (sm_put ''block_info'' (block_info_object
       \<lparr>bi_capacity = 8192, bi_allocation = 4096, bi_physical = 1024\<rparr>)
       (members (xml_to_json (lab_disk ''disk'' ''vda'')))))"
proof -
  define target where "target = Node ''target'' [(''dev'', ''vda''), (''bus'', ''virtio'')] [] []"
  have 1: "as_string_ok lab_libs" by (simp add: as_string_ok_def lab_libs_def)
  have 2: "attr_of (lab_disk ''disk'' ''vda'') ''device'' = Some ''disk''"
    by (simp add: attr_of_def child_values_def lab_disk_def)
  have 3: "child_values (lab_disk ''disk'' ''vda'') ''target'' = [xml_to_json target]"
    by (simp add: child_values_def lab_disk_def target_def)
  have 4: "attr_of target ''dev'' = Some ''vda''"
    by (simp add: attr_of_def child_values_def target_def)
  have 5: "domain_block_info lab_libvirt 1 ''vda'' 0 =
      (Ok \<lparr>bi_capacity = 8192, bi_allocation = 4096, bi_physical = 1024\<rparr>, 0)"
    by (simp add: domain_defs libvirt_defs lab_libvirt_def act_simps)
  show ?thesis using disk_block_info [OF 1 2 3 4 5] by simp
qed

end
