(* ===== verification/Retry.thy ===== *)
theory Retry
  imports Prelude
begin

text \<open>
  \<open>util/retry.hpp\<close> and \<open>http/handlers.hpp\<close>: the bounded retry of a callback, which the router runs
  every route under, and the ordered list of callbacks the servers and connections notify.
\<close>

section \<open>Retry\<close>

text \<open>
  The object keeps its limit and the number of attempts repeated so far, both \<open>unsigned int\<close>. The
  template's two exception parameters have their default values: \<open>retry_error\<close> is retried, and the
  last failure is rethrown as \<open>std::domain_error\<close>.
\<close>

record retry =
  rt_limit :: "32 word"
  rt_count :: "32 word"

definition retry_init :: retry where
  "retry_init = \<lparr>rt_limit = 1, rt_count = 0\<rparr>"

definition retries :: "32 word \<Rightarrow> retry \<Rightarrow> retry" where
  "retries n r = r\<lparr>rt_limit := n\<rparr>"

lemma unat_count_less:
  fixes c l :: "32 word"
  assumes "c < l"
  shows "unat (c + 1) = Suc (unat c)"
proof -
  have "unat c < unat l" using assms by (simp add: word_less_nat_alt)
  moreover have "unat l < 2 ^ 32" using unsigned_less [of l] by simp
  ultimately show ?thesis by (simp add: unat_word_ariths)
qed

text \<open>\<open>operator()\<close> calls itself from its handler; \<open>retry_++ < retries_\<close> compares and increments.\<close>

function retry_call :: "('s, unit) act \<Rightarrow> retry \<Rightarrow> 's \<Rightarrow> unit outcome \<times> retry \<times> 's" where
  "retry_call func r s = (case func s of
      (Throw e, s') \<Rightarrow>
        if is_retry_error e then
          (if rt_count r < rt_limit r
           then retry_call func (r\<lparr>rt_count := rt_count r + 1\<rparr>) s'
           else (Throw (Domain_Error (what e)), r\<lparr>rt_count := rt_count r + 1\<rparr>, s'))
        else (Throw e, r, s')
    | (res, s') \<Rightarrow> (res, r, s'))"
  by pat_completeness auto

termination
proof (relation "measure (\<lambda>(func, r, s). unat (rt_limit r) - unat (rt_count r))")
  show "wf (measure (\<lambda>(func, r, s). unat (rt_limit r) - unat (rt_count r)))" by simp
next
  fix func :: "('s, unit) act" and r s res s' e
  assume "rt_count r < rt_limit r"
  then show "((func, r\<lparr>rt_count := rt_count r + 1\<rparr>, s'), func, r, s)
      \<in> measure (\<lambda>(func, r, s). unat (rt_limit r) - unat (rt_count r))"
    using unat_count_less [of "rt_count r" "rt_limit r"] by (simp add: word_less_nat_alt)
qed

declare retry_call.simps [simp del]

text \<open>The state after \<open>k\<close> attempts, and what the next attempt does.\<close>

definition after_attempts :: "('s, unit) act \<Rightarrow> nat \<Rightarrow> 's \<Rightarrow> 's" where
  "after_attempts func k = ((\<lambda>s. snd (func s)) ^^ k)"

definition attempt :: "('s, unit) act \<Rightarrow> nat \<Rightarrow> 's \<Rightarrow> unit outcome" where
  "attempt func k s = fst (func (after_attempts func k s))"

definition wants_retry :: "unit outcome \<Rightarrow> bool" where
  "wants_retry res = (case res of Throw e \<Rightarrow> is_retry_error e | _ \<Rightarrow> False)"

lemma after_attempts_0 [simp]: "after_attempts func 0 s = s"
  by (simp add: after_attempts_def)

lemma after_attempts_Suc: "after_attempts func (Suc k) s = after_attempts func k (snd (func s))"
  by (simp add: after_attempts_def funpow_Suc_right del: funpow.simps)

lemma attempt_0 [simp]: "attempt func 0 s = fst (func s)"
  by (simp add: attempt_def)

lemma attempt_Suc: "attempt func (Suc k) s = attempt func k (snd (func s))"
  by (simp add: attempt_def after_attempts_Suc)

lemma wants_retryE:
  assumes "wants_retry res"
  obtains m where "res = Throw (Retry_Error m)"
  using assms by (auto simp: wants_retry_def split: outcome.splits elim: is_retry_errorE)

lemma retry_call_stop:
  assumes "\<not> wants_retry (fst (func s))"
  shows "retry_call func r s = (fst (func s), r, snd (func s))"
  using assms
  by (subst retry_call.simps) (auto simp: wants_retry_def split: prod.splits outcome.splits)

lemma retry_call_again:
  assumes "wants_retry (fst (func s))" "rt_count r < rt_limit r"
  shows "retry_call func r s = retry_call func (r\<lparr>rt_count := rt_count r + 1\<rparr>) (snd (func s))"
  using assms
  by (subst retry_call.simps) (auto simp: wants_retry_def split: prod.splits outcome.splits)

lemma retry_call_fatal:
  assumes "fst (func s) = Throw (Retry_Error m)" "\<not> rt_count r < rt_limit r"
  shows "retry_call func r s = (Throw (Domain_Error m), r\<lparr>rt_count := rt_count r + 1\<rparr>, snd (func s))"
  using assms by (subst retry_call.simps) (auto split: prod.splits)

lemma retry_call_stops_at:
  assumes "\<And>i. i < k \<Longrightarrow> wants_retry (attempt func i s)"
    and "\<not> wants_retry (attempt func k s)"
    and "unat (rt_count r) + k \<le> unat (rt_limit r)"
  shows "retry_call func r s =
    (attempt func k s, r\<lparr>rt_count := rt_count r + of_nat k\<rparr>, after_attempts func (Suc k) s)"
  using assms
proof (induction k arbitrary: r s)
  case 0
  then show ?case by (simp add: retry_call_stop after_attempts_Suc)
next
  case (Suc k)
  have less: "rt_count r < rt_limit r" using Suc.prems(3) by (simp add: word_less_nat_alt)
  have "wants_retry (fst (func s))" using Suc.prems(1) [of 0] by simp
  then have "retry_call func r s = retry_call func (r\<lparr>rt_count := rt_count r + 1\<rparr>) (snd (func s))"
    using less by (rule retry_call_again)
  also have "\<dots> = (attempt func k (snd (func s)),
      r\<lparr>rt_count := rt_count r + 1\<rparr>\<lparr>rt_count := rt_count r + 1 + of_nat k\<rparr>,
      after_attempts func (Suc k) (snd (func s)))"
    using Suc.prems unat_count_less [OF less]
    by (subst Suc.IH) (auto simp: attempt_Suc [symmetric])
  finally show ?case by (simp add: attempt_Suc after_attempts_Suc add.assoc add.commute)
qed

lemma retry_call_runs_out:
  assumes "\<And>i. i < n \<Longrightarrow> wants_retry (attempt func i s)"
    and "attempt func n s = Throw (Retry_Error m)"
    and "unat (rt_limit r) = unat (rt_count r) + n"
  shows "retry_call func r s = (Throw (Domain_Error m),
    r\<lparr>rt_count := rt_count r + of_nat (Suc n)\<rparr>, after_attempts func (Suc n) s)"
  using assms
proof (induction n arbitrary: r s)
  case 0
  then have "\<not> rt_count r < rt_limit r" by (simp add: word_less_nat_alt)
  with 0 show ?case by (simp add: retry_call_fatal after_attempts_Suc)
next
  case (Suc n)
  have less: "rt_count r < rt_limit r" using Suc.prems(3) by (simp add: word_less_nat_alt)
  have "wants_retry (fst (func s))" using Suc.prems(1) [of 0] by simp
  then have "retry_call func r s = retry_call func (r\<lparr>rt_count := rt_count r + 1\<rparr>) (snd (func s))"
    using less by (rule retry_call_again)
  also have "\<dots> = (Throw (Domain_Error m),
      r\<lparr>rt_count := rt_count r + 1\<rparr>\<lparr>rt_count := rt_count r + 1 + of_nat (Suc n)\<rparr>,
      after_attempts func (Suc n) (snd (func s)))"
    using Suc.prems unat_count_less [OF less]
    by (subst Suc.IH) (auto simp: attempt_Suc [symmetric])
  finally show ?case by (simp add: attempt_Suc after_attempts_Suc add.assoc add.commute)
qed

text \<open>If the first \<open>k\<close> attempts ask for a retry, the budget allows \<open>k\<close> repetitions and attempt
  \<open>k\<close> does not ask for one, the call returns exactly what attempt \<open>k\<close> returned (a value or an
  exception of another class), after exactly \<open>k + 1\<close> runs of the callback.\<close>

theorem retry_call_returns:
  assumes "\<And>i. i < k \<Longrightarrow> wants_retry (attempt func i s)"
    and "\<not> wants_retry (attempt func k s)"
    and "unat (rt_count r) + k \<le> unat (rt_limit r)"
  shows "retry_call func r s =
    (attempt func k s, r\<lparr>rt_count := rt_count r + of_nat k\<rparr>, after_attempts func (Suc k) s)"
  using assms by (rule retry_call_stops_at)

text \<open>If the attempt that uses up the budget still asks for a retry, as all before it did, the
  call throws \<open>std::domain_error\<close> with the message of that last attempt, having run the callback
  once more than the number of retries left.\<close>

theorem retry_call_exhausted:
  assumes "\<And>i. i < n \<Longrightarrow> wants_retry (attempt func i s)"
    and "attempt func n s = Throw (Retry_Error m)"
    and "unat (rt_limit r) = unat (rt_count r) + n"
  shows "retry_call func r s = (Throw (Domain_Error m),
    r\<lparr>rt_count := rt_count r + of_nat (Suc n)\<rparr>, after_attempts func (Suc n) s)"
  using assms by (rule retry_call_runs_out)

text \<open>The two cases are all there are: some attempt within the budget stops the call, or none does.\<close>

lemma retry_call_cases:
  obtains (stops) k where "k \<le> n" "\<And>i. i < k \<Longrightarrow> wants_retry (attempt func i s)"
      "\<not> wants_retry (attempt func k s)"
    | (exhausts) "\<And>i. i \<le> n \<Longrightarrow> wants_retry (attempt func i s)"
proof (cases "\<exists>k\<le>n. \<not> wants_retry (attempt func k s)")
  case True
  define k where "k = (LEAST k. \<not> wants_retry (attempt func k s))"
  from True have "\<not> wants_retry (attempt func k s)"
    unfolding k_def by (metis (mono_tags, lifting) LeastI)
  moreover from True have "k \<le> n" unfolding k_def by (metis (mono_tags, lifting) Least_le order_trans)
  moreover have "wants_retry (attempt func i s)" if "i < k" for i
    using that not_less_Least unfolding k_def by blast
  ultimately show ?thesis using stops by blast
next
  case False
  then show ?thesis by (intro exhausts) blast
qed

text \<open>An invariant the callback keeps is kept by the whole call, and no retry error escapes.\<close>

lemma retry_call_keeps:
  assumes "act_keeps P func" "P s"
  shows "P (snd (snd (retry_call func r s)))"
  using assms
proof (induction func r s rule: retry_call.induct)
  case (1 func r s)
  then have "P (snd (func s))" by (blast dest: act_keepsD)
  with 1 show ?case
    by (subst retry_call.simps) (auto split: prod.splits outcome.splits)
qed

lemma retry_call_defined:
  assumes "\<And>s. fst (func s) \<noteq> Undef \<and> fst (func s) \<noteq> Hang"
  shows "fst (retry_call func r s) \<noteq> Undef \<and> fst (retry_call func r s) \<noteq> Hang"
proof (rule retry_call_cases [of "unat (rt_limit r) - unat (rt_count r)" func s])
  let ?n = "unat (rt_limit r) - unat (rt_count r)"
  {
    fix k assume "k \<le> ?n" "\<And>i. i < k \<Longrightarrow> wants_retry (attempt func i s)" "\<not> wants_retry (attempt func k s)"
    then show ?thesis
      using retry_call_stops_at [of k func s r] retry_call_stop [of func s r] assms
      by (cases "k = 0") (auto simp: attempt_def)
  next
    assume all: "\<And>i. i \<le> ?n \<Longrightarrow> wants_retry (attempt func i s)"
    then obtain m where m: "attempt func ?n s = Throw (Retry_Error m)" by (blast elim: wants_retryE)
    show ?thesis
    proof (cases "unat (rt_count r) \<le> unat (rt_limit r)")
      case True
      with all m retry_call_runs_out [of ?n func s m r] show ?thesis by simp
    next
      case False
      then have "\<not> rt_count r < rt_limit r" by (simp add: word_less_nat_alt)
      with retry_call_fatal [of func s m r] m False show ?thesis by simp
    qed
  }
qed

lemma retry_call_not_retry_error:
  "fst (retry_call func r s) \<noteq> Throw (Retry_Error m)"
proof (induction func r s rule: retry_call.induct)
  case (1 func r s)
  then show ?case
    by (subst retry_call.simps) (auto split: prod.splits outcome.splits)
qed

text \<open>
  Witnesses: a callback that counts its runs and fails until the third, under the limit of five the
  router sets, and one that always fails.
\<close>

definition flaky :: "nat \<Rightarrow> (nat, unit) act" where
  "flaky n = (\<lambda>i. (if i < n then Throw (Retry_Error ''libvirt connection closed'') else Ok (), Suc i))"

lemma after_flaky [simp]: "after_attempts (flaky n) k i = i + k"
  by (induction k arbitrary: i) (simp_all add: after_attempts_Suc, simp add: flaky_def)

lemma attempt_flaky [simp]:
  "attempt (flaky n) k i = (if i + k < n then Throw (Retry_Error ''libvirt connection closed'') else Ok ())"
  by (simp add: attempt_def) (simp add: flaky_def)

theorem retry_call_returns_witness:
  "retry_call (flaky 2) (retries 5 retry_init) 0 =
     (Ok (), (retries 5 retry_init)\<lparr>rt_count := 2\<rparr>, 3)"
  using retry_call_returns [of 2 "flaky 2" 0 "retries 5 retry_init"]
  by (simp add: wants_retry_def retries_def retry_init_def)

theorem retry_call_exhausted_witness:
  "retry_call (flaky 9) (retries 5 retry_init) 0 =
     (Throw (Domain_Error ''libvirt connection closed''), (retries 5 retry_init)\<lparr>rt_count := 6\<rparr>, 6)"
  using retry_call_exhausted [of 5 "flaky 9" 0 "''libvirt connection closed''" "retries 5 retry_init"]
  by (simp add: wants_retry_def retries_def retry_init_def)

section \<open>Handlers\<close>

text \<open>
  \<open>http::handler<args...>\<close> is a vector of callbacks, called in order with the same arguments. An
  exception of one callback leaves the loop.
\<close>

type_synonym ('a, 's) handler = "('a \<Rightarrow> ('s, unit) act) list"

definition handler_new :: "('a, 's) handler" where
  "handler_new = []"

definition handler_add :: "('a \<Rightarrow> ('s, unit) act) \<Rightarrow> ('a, 's) handler \<Rightarrow> ('a, 's) handler" where
  "handler_add f h = h @ [f]"

definition handler_clear :: "('a, 's) handler \<Rightarrow> ('a, 's) handler" where
  "handler_clear h = []"

definition handler_call :: "('a, 's) handler \<Rightarrow> 'a \<Rightarrow> ('s, unit) act" where
  "handler_call h a = act_for (\<lambda>f. f a) h"

definition handler_functions :: "('a, 's) handler \<Rightarrow> ('a \<Rightarrow> ('s, unit) act) list" where
  "handler_functions h = h"

definition noop :: "'a \<Rightarrow> ('s, unit) act" where
  "noop a = act_return ()"

text \<open>The three setters the macro \<open>handler_setter\<close> declares for a member: add, replace, override.\<close>

definition set_handler :: "('a, 's) handler \<Rightarrow> ('a, 's) handler \<Rightarrow> ('a, 's) handler" where
  "set_handler h member = h"

definition override_handler :: "('a \<Rightarrow> ('s, unit) act) \<Rightarrow> ('a, 's) handler \<Rightarrow> ('a, 's) handler" where
  "override_handler f member = handler_add f (handler_clear member)"

lemma act_for_append: "act_for f (xs @ ys) = act_then (act_for f xs) (act_for f ys)"
proof (induction xs)
  case Nil
  show ?case by (simp add: act_then_def)
next
  case (Cons x xs)
  then show ?case by (simp add: act_then_def act_bind_assoc)
qed

text \<open>A callback added to a handler runs after everything registered before it, on the state those
  callbacks left, and not at all if one of them threw.\<close>

theorem handler_call_add:
  "handler_call (handler_add f h) a s = act_then (handler_call h a) (f a) s"
  by (simp add: handler_call_def handler_add_def act_for_append)
     (simp add: act_then_def act_bind_def act_return_def split: prod.splits outcome.splits)

lemma handler_call_override: "handler_call (override_handler f h) a = f a"
  by (rule ext) (simp add: handler_call_def override_handler_def handler_add_def handler_clear_def
    act_then_def act_bind_def act_return_def split: prod.splits outcome.splits)

end
