(* ===== verification/Server_State.thy ===== *)
theory Server_State
  imports Data Retry
begin

text \<open>
  The state of the daemon the request path works on: the outside world, the table of libvirt
  connections, the HTTP and websocket connection objects, the websockets and event registrations of
  each user, the response being filled and the log. Objects the code shares through
  \<open>std::shared_ptr\<close> live in stores and are named by numbers; a reference to a pooled libvirt
  connection is the user it is filed under. A request is handled without interleaving with others;
  the races between worker threads are modelled on their own.
\<close>

section \<open>Objects\<close>

text \<open>
  The callbacks of a websocket are data: the program registers exactly the ones named here, with the
  values they capture. \<open>Ws_Close\<close> and \<open>Ws_Handshake\<close> are the two lambdas of \<open>app::websocket\<close>;
  they capture the reference to the libvirt connection and a copy of the user's name.
\<close>

type_synonym ws_id = nat
type_synonym http_id = nat

datatype ws_callback =
    Ws_Handshake string string
  | Ws_Close string string ws_id

record ws_conn =
  ws_request :: request
  ws_on_handshake :: "ws_callback list"
  ws_on_close :: "ws_callback list"

record http_conn =
  hc_request :: request
  hc_upgrade :: bool
  hc_websock :: "ws_id option"
  hc_has_socket :: bool
  hc_on_handshake :: "ws_callback list"
  hc_on_close :: "ws_callback list"

text \<open>
  An event object: the reference to its connection, the id libvirt gave its callback, and the user
  its lambda captured. \<open>ev_registered\<close> records for the proofs which connection the callback was
  registered on; the code does not read it.
\<close>

record event =
  ev_conn :: string
  ev_callback_id :: int
  ev_user :: string
  ev_registered :: "connect_ptr option"

type_synonym events = "(int, event) std_map"

datatype log_level = Log_Info | Log_Error

text \<open>One line of the access log; how it is laid out, and the time taken it ends with, are left out.\<close>

record access =
  ac_method :: string
  ac_target :: string
  ac_major :: nat
  ac_minor :: nat
  ac_status :: nat
  ac_size :: nat

record 'w server =
  sv_world :: 'w
  sv_pool :: conn_pool
  sv_response :: response
  sv_http :: "(http_id, http_conn) std_map"
  sv_ws :: "(ws_id, ws_conn) std_map"
  sv_next_ws :: ws_id
  sv_websockets :: "(string, ws_id list) std_map"
  sv_events :: "(string, events) std_map"
  sv_written :: "(ws_id \<times> string) list"
  sv_log :: "(log_level \<times> access) list"

section \<open>Calls on parts of the state\<close>

definition on_sv_world :: "('w, 'a) act \<Rightarrow> ('w server, 'a) act" where
  "on_sv_world m = (\<lambda>s. let (r, w) = m (sv_world s) in (r, s\<lparr>sv_world := w\<rparr>))"

definition on_sv_pool :: "(conn_pool \<times> 'w, 'a) act \<Rightarrow> ('w server, 'a) act" where
  "on_sv_pool m = (\<lambda>s. let (r, (p, w)) = m (sv_pool s, sv_world s) in (r, s\<lparr>sv_pool := p, sv_world := w\<rparr>))"

text \<open>
  A call of libvirt through a pooled connection. The only thrower of \<open>retry_error\<close> in the program is
  the close callback registered for the connection, so a call that ends with one has run it: the
  connection's \<open>closed_\<close> is set.
\<close>

definition on_conn :: "string \<Rightarrow> (connection \<Rightarrow> ('w, 'a) act) \<Rightarrow> ('w server, 'a) act" where
  "on_conn ref m = (\<lambda>s. case sm_find ref (sv_pool s) of
      None \<Rightarrow> (Undef, s)
    | Some c \<Rightarrow> (case m c (sv_world s) of
        (Throw e, w) \<Rightarrow> (Throw e, s\<lparr>sv_world := w, sv_pool :=
            (if is_retry_error e then sm_put ref (snd (close_func c)) (sv_pool s) else sv_pool s)\<rparr>)
      | (r, w) \<Rightarrow> (r, s\<lparr>sv_world := w\<rparr>)))"

definition on_domain :: "string \<Rightarrow> ('w, 'a) act \<Rightarrow> ('w server, 'a) act" where
  "on_domain ref m = on_conn ref (\<lambda>c. m)"

definition respond :: "libs \<Rightarrow> json \<Rightarrow> status \<Rightarrow> ('w server, unit) act" where
  "respond L j st = act_modify (\<lambda>s. s\<lparr>sv_response := set_response_json L j st (sv_response s)\<rparr>)"

definition modify_response :: "(response \<Rightarrow> response) \<Rightarrow> ('w server, unit) act" where
  "modify_response f = act_modify (\<lambda>s. s\<lparr>sv_response := f (sv_response s)\<rparr>)"

section \<open>What the calls leave alone\<close>

text \<open>
  A view reads and changes the world, marks its own connection closed and fills the response; the
  rest of the state is as before.
\<close>

definition same_frame :: "string \<Rightarrow> 'w server \<Rightarrow> 'w server \<Rightarrow> bool" where
  "same_frame ref s t \<longleftrightarrow>
     sv_http t = sv_http s \<and> sv_ws t = sv_ws s \<and> sv_next_ws t = sv_next_ws s \<and> sv_websockets t = sv_websockets s \<and>
     sv_events t = sv_events s \<and> sv_written t = sv_written s \<and> sv_log t = sv_log s \<and>
     (\<forall>u. u \<noteq> ref \<longrightarrow> sm_find u (sv_pool t) = sm_find u (sv_pool s))"

definition server_ok :: "'w server \<Rightarrow> bool" where
  "server_ok s \<longleftrightarrow> pool_ok (sv_pool s) \<and> length_ok (sv_response s)"

lemma same_frame_refl [simp]: "same_frame ref s s"
  by (simp add: same_frame_def)

lemma slot_ok_closed [simp]: "slot_ok u (snd (close_func c))"
  by (simp add: close_func_def act_simps slot_ok_def connection_is_open_def)

lemma keeps_on_conn:
  assumes "\<And>s w. P s \<Longrightarrow> P (s\<lparr>sv_world := w\<rparr>)"
    and "\<And>s w c. P s \<Longrightarrow> sm_find ref (sv_pool s) = Some c \<Longrightarrow>
      P (s\<lparr>sv_world := w, sv_pool := sm_put ref (snd (close_func c)) (sv_pool s)\<rparr>)"
  shows "act_keeps P (on_conn ref m)"
proof (rule act_keepsI)
  fix s assume "P s"
  with assms show "P (snd (on_conn ref m s))"
    by (simp add: on_conn_def split: option.split prod.split outcome.split)
qed

lemma on_conn_Ok:
  "sm_find ref (sv_pool s) = Some c \<Longrightarrow> m c (sv_world s) = (Ok a, w) \<Longrightarrow>
     on_conn ref m s = (Ok a, s\<lparr>sv_world := w\<rparr>)"
  by (simp add: on_conn_def)

lemma on_domain_Ok:
  "sm_find ref (sv_pool s) = Some c \<Longrightarrow> m (sv_world s) = (Ok a, w) \<Longrightarrow>
     on_domain ref m s = (Ok a, s\<lparr>sv_world := w\<rparr>)"
  by (simp add: on_domain_def on_conn_Ok)

lemma on_domain_Throw:
  "sm_find ref (sv_pool s) = Some c \<Longrightarrow> m (sv_world s) = (Throw e, w) \<Longrightarrow> \<not> is_retry_error e \<Longrightarrow>
     on_domain ref m s = (Throw e, s\<lparr>sv_world := w\<rparr>)"
  by (simp add: on_domain_def on_conn_def)

lemma on_domain_closed:
  "sm_find ref (sv_pool s) = Some c \<Longrightarrow> m (sv_world s) = (Throw (Retry_Error msg), w) \<Longrightarrow>
     on_domain ref m s = (Throw (Retry_Error msg),
       s\<lparr>sv_world := w, sv_pool := sm_put ref (c\<lparr>vc_closed := True\<rparr>) (sv_pool s)\<rparr>)"
  by (simp add: on_domain_def on_conn_def close_func_def act_simps)

lemma respond_run [act_simps]:
  "respond L j st s = (Ok (), s\<lparr>sv_response := set_response_json L j st (sv_response s)\<rparr>)"
  by (simp add: respond_def act_simps)

lemma modify_response_run [act_simps]:
  "modify_response f s = (Ok (), s\<lparr>sv_response := f (sv_response s)\<rparr>)"
  by (simp add: modify_response_def act_simps)

end
