(* ===== verification/Views.thy ===== *)
theory Views
  imports Server_State
begin

text \<open>
  \<open>views/domains.cpp\<close> and \<open>views/host.cpp\<close>: the handlers behind the routes. A view is given the
  reference of the user's libvirt connection, the domain where the route names one, the HTTP
  connection, the matched groups and the request, and fills the response.
\<close>

type_synonym smatch = "string list"

type_synonym 'w libvirt_view = "string \<Rightarrow> http_id option \<Rightarrow> smatch \<Rightarrow> request \<Rightarrow> ('w server, unit) act"

type_synonym 'w domain_view =
  "string \<Rightarrow> domain_ptr \<Rightarrow> http_id option \<Rightarrow> smatch \<Rightarrow> request \<Rightarrow> ('w server, unit) act"

section \<open>Domains\<close>

definition domains_index :: "libs \<Rightarrow> 'w libvirt_c \<Rightarrow> 'w libvirt_view" where
  "domains_index L lv conn http_conn match req =
     act_bind (on_conn conn (connection_domains lv)) (\<lambda>domains.
     act_bind (act_map (\<lambda>d. on_domain conn (simple_domain lv d)) domains) (\<lambda>data.
     respond L (JArray data) Status_Ok))"

definition domains_show :: "libs \<Rightarrow> 'w libvirt_c \<Rightarrow> 'w domain_view" where
  "domains_show L lv conn domain http_conn match req =
     act_bind (on_domain conn (data_domain L lv domain)) (\<lambda>data. respond L data Status_Ok)"

definition domains_autostart :: "libs \<Rightarrow> 'w libvirt_c \<Rightarrow> 'w domain_view" where
  "domains_autostart L lv conn domain http_conn match req =
     (let enabled = (rq_method req = Post) in
      act_bind (on_domain conn (domain_set_autostart lv domain enabled)) (\<lambda>_.
      respond L (JObject (sm_put ''autostart'' (JBool enabled) [])) Status_Ok))"

text \<open>
  The changes \<open>bootmenu\<close> makes to the document: a child is updated in place, where there is one; a
  null node has no children to change.
\<close>

fun update_first :: "string \<Rightarrow> (xml \<Rightarrow> xml) \<Rightarrow> xml list \<Rightarrow> xml list" where
  "update_first n f [] = []"
| "update_first n f (c # cs) = (if nd_name c = n then f c # cs else c # update_first n f cs)"

definition update_child :: "string \<Rightarrow> (xml \<Rightarrow> xml) \<Rightarrow> xml \<Rightarrow> xml" where
  "update_child n f nd =
     Node (nd_name nd) (nd_attrs nd) (nd_text nd) (update_first n f (nd_children nd))"

fun remove_first :: "string \<Rightarrow> xml list \<Rightarrow> xml list" where
  "remove_first n [] = []"
| "remove_first n (c # cs) = (if nd_name c = n then cs else c # remove_first n cs)"

definition set_bootmenu :: "string \<Rightarrow> xml \<Rightarrow> xml" where
  "set_bootmenu enabled os =
     Node (nd_name os) (nd_attrs os) (nd_text os)
       (remove_first ''bootmenu'' (nd_children os) @ [Node ''bootmenu'' [(''enable'', enabled)] [] []])"

definition bootmenu_document :: "string \<Rightarrow> xml \<Rightarrow> xml" where
  "bootmenu_document enabled doc =
     update_child ''domain'' (update_child ''os'' (set_bootmenu enabled)) doc"

definition bootmenu_os :: "string \<Rightarrow> xml \<Rightarrow> xml" where
  "bootmenu_os enabled doc = xml_child (xml_child (bootmenu_document enabled doc) ''domain'') ''os''"

definition domains_bootmenu :: "libs \<Rightarrow> 'w libvirt_c \<Rightarrow> 'w domain_view" where
  "domains_bootmenu L lv conn domain http_conn match req =
     act_bind (on_domain conn (domain_xml_document L lv domain)) (\<lambda>doc.
     let enabled = (if rq_method req = Post then ''yes'' else ''no'');
         x = lib_xml_save L (bootmenu_document enabled doc) in
     act_bind (on_conn conn (\<lambda>c. domain_define_xml lv (vc_ptr c) (c_str x))) (\<lambda>ptr.
     if ptr = None
     then respond L (error ''Unable to replace domain XML'') Internal_Server_Error
     else respond L (xml_to_json (bootmenu_os enabled doc)) Status_Ok))"

text \<open>
  One member of the metadata body: the current value is read, the requested one defaults to it, and
  a difference is written; the result of writing is not looked at.
\<close>

definition update_metadata ::
    "libs \<Rightarrow> 'w libvirt_c \<Rightarrow> string \<Rightarrow> domain_ptr \<Rightarrow> json \<Rightarrow> int \<Rightarrow> string \<Rightarrow> (string, json) std_map
      \<Rightarrow> ('w server, (string, json) std_map) act" where
  "update_metadata L lv conn domain data ty name outp =
     act_bind (on_domain conn (domain_metadata lv domain ty)) (\<lambda>current.
     act_bind (act_lift (j_get data name (JString current))) (\<lambda>j.
     act_bind (act_lift (lib_as_string L j)) (\<lambda>v.
     if v \<noteq> current then
       act_bind (on_domain conn (domain_set_metadata lv domain ty v)) (\<lambda>_.
       act_return (sm_put name (JString v) outp))
     else act_return outp)))"

definition change_metadata ::
    "libs \<Rightarrow> 'w libvirt_c \<Rightarrow> string \<Rightarrow> domain_ptr \<Rightarrow> json \<Rightarrow> ('w server, unit) act" where
  "change_metadata L lv conn domain data =
     act_bind (update_metadata L lv conn domain data VIR_DOMAIN_METADATA_TITLE ''title'' []) (\<lambda>outp.
     act_bind (update_metadata L lv conn domain data VIR_DOMAIN_METADATA_DESCRIPTION ''description'' outp) (\<lambda>outp.
     act_then (if sm_size outp = 0 then modify_response (set_result Not_Modified) else act_return ())
     (act_bind (act_read (\<lambda>s. rs_result (sv_response s))) (\<lambda>st. respond L (JObject outp) st))))"

definition domains_metadata :: "libs \<Rightarrow> 'w libvirt_c \<Rightarrow> 'w domain_view" where
  "domains_metadata L lv conn domain http_conn match req =
     (case parse L (rq_body req) of
        Ok data \<Rightarrow> change_metadata L lv conn domain data
      | Throw e \<Rightarrow> (if is_invalid_argument e
          then respond L (error ''Invalid JSON input'') Bad_Request else act_throw e)
      | Undef \<Rightarrow> act_undef
      | Hang \<Rightarrow> act_lift Hang)"

definition domains_start :: "libs \<Rightarrow> 'w libvirt_c \<Rightarrow> 'w domain_view" where
  "domains_start L lv conn domain http_conn match req =
     act_bind (on_domain conn (domain_start lv domain)) (\<lambda>ok.
     if \<not> ok then respond L (error ''Unable to start domain'') Bad_Request
     else act_bind (on_domain conn (simple_domain lv domain)) (\<lambda>data. respond L data Created))"

text \<open>The \<open>try\<close> block covers the shutdown alone; a handler that responds also returns.\<close>

definition domains_shutdown :: "virt_config \<Rightarrow> libs \<Rightarrow> 'w libvirt_c \<Rightarrow> 'w os \<Rightarrow> 'w domain_view" where
  "domains_shutdown conf L lv os conn domain http_conn match req =
     act_bind
       (act_catch is_out_of_range
         (act_bind (on_domain conn (domain_shutdown conf lv os domain)) (\<lambda>ok. act_return (Some ok)))
         (\<lambda>e. act_then (respond L (error ''Shutdown operation timed out'') Gateway_Timeout)
            (act_return None)))
       (\<lambda>ok. case ok of
          None \<Rightarrow> act_return ()
        | Some ok \<Rightarrow>
            if \<not> ok then respond L (error ''Unable to shutdown domain'') Bad_Request
            else act_bind (on_domain conn (simple_domain lv domain)) (\<lambda>data. respond L data Status_Ok))"

section \<open>The host\<close>

definition host_show :: "libs \<Rightarrow> 'w libvirt_c \<Rightarrow> 'w libvirt_view" where
  "host_show L lv conn http_conn match req =
     act_bind (on_conn conn (data_host L lv)) (\<lambda>data. respond L data Status_Ok)"

definition host_networks :: "libs \<Rightarrow> 'w libvirt_c \<Rightarrow> 'w libvirt_view" where
  "host_networks L lv conn http_conn match req =
     act_bind (on_conn conn (data_networks L lv)) (\<lambda>data. respond L data Status_Ok)"

section \<open>What a view changes\<close>

text \<open>
  An invariant that survives the three things a view does to the state, a call that changes the
  world, a connection found closed, and filling the response, is kept by every view, whatever
  libvirt does and however the view ends.
\<close>

locale view_invariant =
  fixes P :: "'w server \<Rightarrow> bool" and ref :: string
  assumes keeps_world: "P s \<Longrightarrow> P (s\<lparr>sv_world := w\<rparr>)"
    and keeps_closed: "P s \<Longrightarrow> sm_find ref (sv_pool s) = Some c \<Longrightarrow>
      P (s\<lparr>sv_world := w, sv_pool := sm_put ref (snd (close_func c)) (sv_pool s)\<rparr>)"
    and keeps_answer: "P s \<Longrightarrow> P (s\<lparr>sv_response := set_response d st (sv_response s)\<rparr>)"
    and keeps_status: "P s \<Longrightarrow> P (s\<lparr>sv_response := set_result st (sv_response s)\<rparr>)"
begin

lemma conn_call: "act_keeps P (on_conn ref m)"
  by (rule keeps_on_conn) (auto intro: keeps_world keeps_closed)

lemma domain_call: "act_keeps P (on_domain ref m)"
  by (simp add: on_domain_def conn_call)

lemma answer_call: "act_keeps P (respond L j st)"
  by (auto simp: respond_def set_response_json_def intro: act_keeps_modify keeps_answer)

lemma status_call: "act_keeps P (modify_response (set_result st))"
  by (auto simp: modify_response_def intro: act_keeps_modify keeps_status)

lemma if_call: "act_keeps P m \<Longrightarrow> act_keeps P n \<Longrightarrow> act_keeps P (if c then m else n)"
  by simp

lemmas calls = act_keeps_bind act_keeps_then act_keeps_catch act_keeps_map act_keeps_return
  act_keeps_lift act_keeps_read conn_call domain_call answer_call status_call if_call

lemma update_metadata_keeps: "act_keeps P (update_metadata L lv ref domain data ty name outp)"
  unfolding update_metadata_def by (intro calls)

lemma change_metadata_keeps: "act_keeps P (change_metadata L lv ref domain data)"
  unfolding change_metadata_def by (intro calls update_metadata_keeps)

lemma libvirt_views_keep:
  "act_keeps P (domains_index L lv ref hc match req)"
  "act_keeps P (host_show L lv ref hc match req)"
  "act_keeps P (host_networks L lv ref hc match req)"
  unfolding domains_index_def host_show_def host_networks_def by (intro calls)+

lemma domain_views_keep:
  "act_keeps P (domains_show L lv ref domain hc match req)"
  "act_keeps P (domains_autostart L lv ref domain hc match req)"
  "act_keeps P (domains_bootmenu L lv ref domain hc match req)"
  "act_keeps P (domains_start L lv ref domain hc match req)"
  unfolding domains_show_def domains_autostart_def domains_bootmenu_def domains_start_def Let_def
  by (intro calls)+

lemma metadata_view_keeps: "act_keeps P (domains_metadata L lv ref domain hc match req)"
  by (auto simp: domains_metadata_def intro: change_metadata_keeps answer_call split: outcome.split)

lemma shutdown_view_keeps: "act_keeps P (domains_shutdown conf L lv os ref domain hc match req)"
  unfolding domains_shutdown_def
  by (intro act_keeps_bind act_keeps_catch act_keeps_then domain_call answer_call act_keeps_return)
     (auto split: option.split intro: calls)

lemmas views_keep = libvirt_views_keep domain_views_keep metadata_view_keeps shutdown_view_keeps

end

definition view_inv :: "string \<Rightarrow> 'w server \<Rightarrow> 'w server \<Rightarrow> bool" where
  "view_inv ref s0 s \<longleftrightarrow> server_ok s \<and> same_frame ref s0 s"

interpretation view_frame: view_invariant "view_inv ref s0" ref for ref s0
  by unfold_locales
     (auto simp: view_inv_def server_ok_def same_frame_def sm_find_put intro: pool_ok_put)

lemma view_inv_refl: "server_ok s \<Longrightarrow> view_inv ref s s"
  by (simp add: view_inv_def)

section \<open>Metadata\<close>

text \<open>
  The documented behaviour of a domain's metadata, for the property below: reading gives what is
  stored and changes nothing, writing stores the C string it is given.
\<close>

definition metadata_store :: "'w libvirt_c \<Rightarrow> domain_ptr \<Rightarrow> ('w \<Rightarrow> int \<Rightarrow> string) \<Rightarrow> bool" where
  "metadata_store lv domain stored \<longleftrightarrow>
     (\<forall>w ty. domain_metadata lv domain ty w = (Ok (stored w ty), w)) \<and>
     (\<forall>w ty v. \<exists>w'. domain_set_metadata lv domain ty v w = (Ok True, w') \<and>
        stored w' = (stored w)(ty := c_str v))"

definition wanted :: "(string, json) std_map \<Rightarrow> string \<Rightarrow> string \<Rightarrow> string" where
  "wanted m name current = (case sm_find name m of Some (JString v) \<Rightarrow> v | _ \<Rightarrow> current)"

definition text_or_absent :: "(string, json) std_map \<Rightarrow> string \<Rightarrow> bool" where
  "text_or_absent m name \<longleftrightarrow> (case sm_find name m of None \<Rightarrow> True | Some (JString v) \<Rightarrow> True | _ \<Rightarrow> False)"

lemma update_metadata_run:
  assumes "metadata_store lv domain stored" and "as_string_ok L" and "text_or_absent m name"
    and "sm_find conn (sv_pool s) = Some c"
  obtains w' where
    "update_metadata L lv conn domain (JObject m) ty name outp s =
       (Ok (if wanted m name (stored (sv_world s) ty) = stored (sv_world s) ty then outp
            else sm_put name (JString (wanted m name (stored (sv_world s) ty))) outp), s\<lparr>sv_world := w'\<rparr>)"
    "stored w' = (if wanted m name (stored (sv_world s) ty) = stored (sv_world s) ty
       then stored (sv_world s)
       else (stored (sv_world s))(ty := c_str (wanted m name (stored (sv_world s) ty))))"
proof -
  let ?cur = "stored (sv_world s) ty" and ?v = "wanted m name (stored (sv_world s) ty)"
  have get: "domain_metadata lv domain ty (sv_world s) = (Ok ?cur, sv_world s)"
    using assms(1) by (simp add: metadata_store_def)
  obtain w1 where set: "domain_set_metadata lv domain ty ?v (sv_world s) = (Ok True, w1)"
      "stored w1 = (stored (sv_world s))(ty := c_str ?v)"
    using assms(1) unfolding metadata_store_def by blast
  have read: "on_domain conn (domain_metadata lv domain ty) s = (Ok ?cur, s)"
    using on_domain_Ok [where m = "domain_metadata lv domain ty", OF assms(4) get] by simp
  obtain j where j: "j_get (JObject m) name (JString ?cur) = Ok j" and v: "lib_as_string L j = Ok ?v"
    using assms(2,3)
    by (auto simp: wanted_def text_or_absent_def as_string_ok_def split: option.splits json.splits)
  have run: "update_metadata L lv conn domain (JObject m) ty name outp s =
      (if ?v \<noteq> ?cur then act_bind (on_domain conn (domain_set_metadata lv domain ty ?v))
         (\<lambda>_. act_return (sm_put name (JString ?v) outp)) s else (Ok outp, s))"
    unfolding update_metadata_def by (simp add: act_simps read j v del: j_get.simps)
  show ?thesis
  proof (cases "?v = ?cur")
    case True
    with run show ?thesis by (intro that [of "sv_world s"]) simp_all
  next
    case False
    with run set(2) on_domain_Ok [where m = "domain_set_metadata lv domain ty (wanted m name (stored (sv_world s) ty))",
        OF assms(4) set(1)] show ?thesis
      by (intro that [of w1]) (simp_all add: act_simps)
  qed
qed

lemma sm_put_not_Nil [simp]: "sm_put k v m \<noteq> []"
  by (cases m) (auto split: if_splits)


text \<open>
  A live system for the witnesses: the user \<open>test\<close> has an open connection, and the world is the
  metadata of the one domain.
\<close>

definition memory_libvirt :: "(int \<Rightarrow> string) libvirt_c" where
  "memory_libvirt = (stub_with (act_return (Some 1)))\<lparr>
     c_virDomainGetMetadata := (\<lambda>dptr ty u flags w. (Ok (Some (w ty)), w)),
     c_virDomainSetMetadata := (\<lambda>dptr ty v key u flags w. (Ok 0, w(ty := v)))\<rparr>"

definition body_libs :: "(string, json) std_map \<Rightarrow> libs" where
  "body_libs m = lab_libs\<lparr>lib_reader_parse := (\<lambda>s. Inr (JObject m))\<rparr>"

definition open_connection :: connection where
  "open_connection = \<lparr>vc_ptr = Some 7, vc_errno = 0, vc_closed = False, vc_user = ''test''\<rparr>"

definition server_with :: "'w \<Rightarrow> 'w server" where
  "server_with w = \<lparr>sv_world = w, sv_pool = [(''test'', open_connection)], sv_response = new_response,
     sv_http = [], sv_ws = [], sv_next_ws = 0, sv_websockets = [], sv_events = [], sv_written = [], sv_log = []\<rparr>"

definition request_of :: "verb \<Rightarrow> string \<Rightarrow> request" where
  "request_of v target = \<lparr>rq_method = v, rq_target = target, rq_version = 11, rq_body = [], rq_upgrade = False\<rparr>"

lemma memory_store: "metadata_store memory_libvirt d (\<lambda>w. w)"
  by (simp add: metadata_store_def memory_libvirt_def domain_defs libvirt_defs act_simps)

lemma as_string_ok_body: "as_string_ok (body_libs m)"
  by (simp add: as_string_ok_def body_libs_def lab_libs_def)

lemma parse_body: "parse (body_libs m) b = Ok (JObject m)"
  by (simp add: parse_def body_libs_def)


text \<open>An update is not atomic: when the requested description has no string form, the view throws,
  and a title that differed has been stored already.\<close>

theorem metadata_view_partial:
  assumes "metadata_store lv domain stored" and "as_string_ok L"
    and "parse L (rq_body req) = Ok (JObject m)"
    and "sm_find ''title'' m = Some (JString t)" and "t \<noteq> stored (sv_world s) VIR_DOMAIN_METADATA_TITLE"
    and "sm_find ''description'' m = Some j" and "lib_as_string L j = Throw e"
    and "sm_find conn (sv_pool s) = Some c"
  shows "\<exists>w'. domains_metadata L lv conn domain http_conn match req s = (Throw e, s\<lparr>sv_world := w'\<rparr>) \<and>
    stored w' = (stored (sv_world s))(VIR_DOMAIN_METADATA_TITLE := c_str t)"
proof -
  have "text_or_absent m ''title''" by (simp add: text_or_absent_def assms(4))
  moreover have want: "wanted m ''title'' cur = t" for cur by (simp add: wanted_def assms(4))
  ultimately obtain w1 where 1: "update_metadata L lv conn domain (JObject m) VIR_DOMAIN_METADATA_TITLE ''title'' [] s =
      (Ok (sm_put ''title'' (JString t) []), s\<lparr>sv_world := w1\<rparr>)"
    "stored w1 = (stored (sv_world s))(VIR_DOMAIN_METADATA_TITLE := c_str t)"
    using assms(5) update_metadata_run [OF assms(1,2) _ assms(8), where name = "''title''"
        and ty = VIR_DOMAIN_METADATA_TITLE and outp = "[]" and m = m] by (auto simp: want)
  have read: "on_domain conn (domain_metadata lv domain VIR_DOMAIN_METADATA_DESCRIPTION) (s\<lparr>sv_world := w1\<rparr>) =
      (Ok (stored w1 VIR_DOMAIN_METADATA_DESCRIPTION), s\<lparr>sv_world := w1\<rparr>)"
    using on_domain_Ok [where m = "domain_metadata lv domain VIR_DOMAIN_METADATA_DESCRIPTION" and
        s = "s\<lparr>sv_world := w1\<rparr>" and ref = conn and c = c] assms(1,8) by (simp add: metadata_store_def)
  have 2: "update_metadata L lv conn domain (JObject m) VIR_DOMAIN_METADATA_DESCRIPTION ''description''
      outp (s\<lparr>sv_world := w1\<rparr>) = (Throw e, s\<lparr>sv_world := w1\<rparr>)" for outp
    unfolding update_metadata_def by (simp add: act_simps read assms(6,7))
  show ?thesis
    using 1(2) by (intro exI [of _ w1])
      (simp add: domains_metadata_def assms(3) change_metadata_def act_simps 1(1) 2 del: sm_put.simps)
qed

theorem metadata_view_partial_witness:
  "fst (domains_metadata (body_libs [(''description'', JArray []), (''title'', JString ''new'')]) memory_libvirt
     ''test'' 1 None [] (request_of Post []) (server_with (\<lambda>ty. ''old''))) = Throw (Json_Error [])"
proof -
  let ?m = "[(''description'', JArray []), (''title'', JString ''new'')]"
  have "lib_as_string (body_libs ?m) (JArray []) = Throw (Json_Error [])"
    by (simp add: body_libs_def lab_libs_def)
  moreover have "sm_find ''test'' (sv_pool (server_with (\<lambda>ty :: int. ''old''))) = Some open_connection"
    by (simp add: server_with_def)
  ultimately show ?thesis
    using metadata_view_partial [OF memory_store [of 1] as_string_ok_body [of ?m] parse_body,
        where req = "request_of Post []" and http_conn = None and match = "[]" and t = "''new''"
        and j = "JArray []" and e = "Json_Error []" and s = "server_with (\<lambda>ty. ''old'')" and conn = "''test''"]
    by (auto simp: server_with_def)
qed

section \<open>The boot menu\<close>

lemma remove_first_absent: "\<forall>c \<in> set cs. nd_name c \<noteq> n \<Longrightarrow> remove_first n cs = cs"
  by (induction cs) auto

lemma filter_remove_first: "filter (\<lambda>c. nd_name c = n) (remove_first n cs) = tl (filter (\<lambda>c. nd_name c = n) cs)"
  by (induction cs) auto

lemma remove_first_only:
  assumes "length (filter (\<lambda>c. nd_name c = n) cs) \<le> 1"
  shows "\<forall>c \<in> set (remove_first n cs). nd_name c \<noteq> n"
proof -
  have "tl (filter (\<lambda>c. nd_name c = n) cs) = []"
    using assms by (cases "filter (\<lambda>c. nd_name c = n) cs") auto
  then have "filter (\<lambda>c. nd_name c = n) (remove_first n cs) = []" by (simp add: filter_remove_first)
  then show ?thesis by (simp add: filter_empty_conv)
qed

lemma remove_first_append:
  "\<forall>c \<in> set cs. nd_name c \<noteq> n \<Longrightarrow> remove_first n (cs @ ds) = cs @ remove_first n ds"
  by (induction cs) auto

lemma remove_first_others: "filter (\<lambda>c. nd_name c \<noteq> n) (remove_first n cs) = filter (\<lambda>c. nd_name c \<noteq> n) cs"
  by (induction cs) auto

lemma update_first_twice:
  assumes "\<And>c. nd_name c = n \<Longrightarrow> nd_name (g c) = n"
  shows "update_first n f (update_first n g cs) = update_first n (\<lambda>c. f (g c)) cs"
  using assms by (induction cs) auto

lemma update_first_cong:
  assumes "\<And>c. c \<in> set cs \<Longrightarrow> nd_name c = n \<Longrightarrow> f c = g c"
  shows "update_first n f cs = update_first n g cs"
  using assms by (induction cs) auto

lemma nd_name_update_child [simp]: "nd_name (update_child n f nd) = nd_name nd"
  by (simp add: update_child_def)

lemma nd_name_set_bootmenu [simp]: "nd_name (set_bootmenu e os) = nd_name os"
  by (simp add: set_bootmenu_def)

lemma update_child_twice:
  assumes "\<And>c. nd_name c = n \<Longrightarrow> nd_name (g c) = n"
  shows "update_child n f (update_child n g nd) = update_child n (\<lambda>c. f (g c)) nd"
  using update_first_twice [OF assms] by (simp add: update_child_def)

lemma update_child_cong:
  assumes "\<And>c. c \<in> set (nd_children nd) \<Longrightarrow> nd_name c = n \<Longrightarrow> f c = g c"
  shows "update_child n f nd = update_child n g nd"
  using update_first_cong [of "nd_children nd", OF assms] by (simp add: update_child_def)

lemma xml_child_update_child:
  assumes "xml_child nd n \<noteq> null_node" "n \<noteq> []" and "\<And>c. nd_name c = n \<Longrightarrow> nd_name (f c) = n"
  shows "xml_child (update_child n f nd) n = f (xml_child nd n)"
proof -
  have "filter (\<lambda>c. nd_name c = n) (update_first n f cs) =
      (case filter (\<lambda>c. nd_name c = n) cs of [] \<Rightarrow> [] | c # r \<Rightarrow> f c # r)" for cs
    using assms(3) by (induction cs) auto
  then show ?thesis
    using assms(1) by (auto simp: xml_child_def update_child_def split: list.splits)
qed

definition one_bootmenu :: "xml \<Rightarrow> bool" where
  "one_bootmenu os \<longleftrightarrow> length (filter (\<lambda>c. nd_name c = ''bootmenu'') (nd_children os)) \<le> 1"

lemma replace_child:
  assumes "length (filter (\<lambda>c. nd_name c = n) cs) \<le> 1" and "nd_name x = n"
  shows "filter (\<lambda>c. nd_name c = n) (remove_first n cs @ [x]) = [x]"
    and "filter (\<lambda>c. nd_name c \<noteq> n) (remove_first n cs @ [x]) = filter (\<lambda>c. nd_name c \<noteq> n) cs"
    and "remove_first n (remove_first n cs @ [x]) = remove_first n cs"
proof -
  have none: "\<forall>c \<in> set (remove_first n cs). nd_name c \<noteq> n" using assms(1) by (rule remove_first_only)
  then have "filter (\<lambda>c. nd_name c = n) (remove_first n cs) = []" by (simp add: filter_empty_conv)
  then show "filter (\<lambda>c. nd_name c = n) (remove_first n cs @ [x]) = [x]" using assms(2) by simp
  show "filter (\<lambda>c. nd_name c \<noteq> n) (remove_first n cs @ [x]) = filter (\<lambda>c. nd_name c \<noteq> n) cs"
    using assms(2) by (simp add: remove_first_others)
  show "remove_first n (remove_first n cs @ [x]) = remove_first n cs"
    using remove_first_append [OF none, of "[x]"] assms(2) by simp
qed

lemma set_bootmenu_twice:
  assumes "one_bootmenu os"
  shows "set_bootmenu e (set_bootmenu e' os) = set_bootmenu e os"
  using replace_child(3) [OF assms [unfolded one_bootmenu_def]] by (simp add: set_bootmenu_def)

lemma set_bootmenu_content:
  assumes "one_bootmenu os"
  shows "filter (\<lambda>c. nd_name c = ''bootmenu'') (nd_children (set_bootmenu e os)) =
      [Node ''bootmenu'' [(''enable'', e)] [] []]"
    and "filter (\<lambda>c. nd_name c \<noteq> ''bootmenu'') (nd_children (set_bootmenu e os)) =
      filter (\<lambda>c. nd_name c \<noteq> ''bootmenu'') (nd_children os)"
  unfolding set_bootmenu_def xml.sel
  by (rule replace_child [OF assms [unfolded one_bootmenu_def]], simp)+

definition os_of :: "xml \<Rightarrow> xml" where
  "os_of doc = xml_child (xml_child doc ''domain'') ''os''"

lemma os_of_not_null: "os_of doc \<noteq> null_node \<Longrightarrow> xml_child doc ''domain'' \<noteq> null_node"
  by (auto simp: os_of_def null_node_def xml_child_def)

lemma os_of_bootmenu:
  assumes "os_of doc \<noteq> null_node"
  shows "bootmenu_os e doc = set_bootmenu e (os_of doc)"
  using assms os_of_not_null [OF assms]
  by (simp add: bootmenu_os_def bootmenu_document_def xml_child_update_child os_of_def)



section \<open>Shutdown and the frame of every view\<close>

lemma shutdown_view_cases:
  assumes "sm_find conn (sv_pool s) = Some c"
    and "domain_shutdown conf lv os domain (sv_world s) = (r, w)"
  shows "domains_shutdown conf L lv os conn domain hc match req s = (case r of
      Ok True \<Rightarrow> act_bind (on_domain conn (simple_domain lv domain)) (\<lambda>data. respond L data Status_Ok)
        (s\<lparr>sv_world := w\<rparr>)
    | Ok False \<Rightarrow> respond L (error ''Unable to shutdown domain'') Bad_Request (s\<lparr>sv_world := w\<rparr>)
    | Throw e \<Rightarrow>
        (if is_out_of_range e
         then respond L (error ''Shutdown operation timed out'') Gateway_Timeout (s\<lparr>sv_world := w\<rparr>)
         else (Throw e, s\<lparr>sv_world := w, sv_pool :=
           (if is_retry_error e then sm_put conn (snd (close_func c)) (sv_pool s) else sv_pool s)\<rparr>))
    | Undef \<Rightarrow> (Undef, s\<lparr>sv_world := w\<rparr>) | Hang \<Rightarrow> (Hang, s\<lparr>sv_world := w\<rparr>))"
proof (cases r)
  case (Ok b)
  then have "on_domain conn (domain_shutdown conf lv os domain) s = (Ok b, s\<lparr>sv_world := w\<rparr>)"
    using on_domain_Ok [where m = "domain_shutdown conf lv os domain", OF assms(1)] assms(2) by simp
  with Ok show ?thesis by (cases b) (simp_all add: domains_shutdown_def act_simps)
next
  case (Throw e)
  then have "on_domain conn (domain_shutdown conf lv os domain) s = (Throw e, s\<lparr>sv_world := w, sv_pool :=
      (if is_retry_error e then sm_put conn (snd (close_func c)) (sv_pool s) else sv_pool s)\<rparr>)"
    using assms by (simp add: on_domain_def on_conn_def)
  moreover have "\<not> is_retry_error e" if "is_out_of_range e" using that by (cases e) auto
  ultimately show ?thesis using Throw by (auto simp: domains_shutdown_def act_simps)
next
  case Undef
  then have "on_domain conn (domain_shutdown conf lv os domain) s = (Undef, s\<lparr>sv_world := w\<rparr>)"
    using assms by (simp add: on_domain_def on_conn_def)
  with Undef show ?thesis by (simp add: domains_shutdown_def act_simps)
next
  case Hang
  then have "on_domain conn (domain_shutdown conf lv os domain) s = (Hang, s\<lparr>sv_world := w\<rparr>)"
    using assms by (simp add: on_domain_def on_conn_def)
  with Hang show ?thesis by (simp add: domains_shutdown_def act_simps)
qed

text \<open>The status of the shutdown view tells what the shutdown did: 504 exactly when it threw
  \<open>std::out_of_range\<close> (a timeout, or an option missing from the configuration), 400 exactly when
  libvirt refused it, 200 when the domain was seen shut off.\<close>

theorem shutdown_view_status:
  assumes "sm_find conn (sv_pool s) = Some c"
    and "domain_shutdown conf lv os domain (sv_world s) = (r, w)"
    and "domains_shutdown conf L lv os conn domain hc match req s = (Ok (), s')"
  shows "(rs_result (sv_response s') = Gateway_Timeout \<longleftrightarrow> (\<exists>m. r = Throw (Out_Of_Range m))) \<and>
    (rs_result (sv_response s') = Bad_Request \<longleftrightarrow> r = Ok False) \<and>
    (rs_result (sv_response s') = Status_Ok \<longleftrightarrow> r = Ok True)"
proof (cases r)
  case (Ok b)
  have "rs_result (sv_response s') = Status_Ok" if "b"
    using shutdown_view_cases [OF assms(1,2), of L hc match req, symmetric] assms(3) Ok that
    by (auto simp: act_simps elim!: act_bind_OkE)
  moreover have "rs_result (sv_response s') = Bad_Request" if "\<not> b"
    using shutdown_view_cases [OF assms(1,2), of L hc match req] assms(3) Ok that
    by (auto simp: act_simps)
  ultimately show ?thesis using Ok by (cases b) auto
next
  case (Throw e)
  with shutdown_view_cases [OF assms(1,2), of L hc match req] assms(3)
  have "is_out_of_range e" "rs_result (sv_response s') = Gateway_Timeout"
    by (auto simp: act_simps split: if_splits)
  with Throw show ?thesis by (cases e) auto
qed (use shutdown_view_cases [OF assms(1,2), of L hc match req] assms(3) in auto)

theorem shutdown_view_status_witness:
  "rs_result (sv_response (snd (domains_shutdown \<lparr>cfg_double = (\<lambda>n. None), cfg_format = (\<lambda>r. [])\<rparr> lab_libs
     (stub_with (act_return None)) counting_os ''test'' 1 None [] (request_of Post []) (server_with 0))))
     = Gateway_Timeout"
proof -
  let ?conf = "\<lparr>cfg_double = (\<lambda>n. None), cfg_format = (\<lambda>r. [])\<rparr>"
  let ?lv = "stub_with (act_return None) :: nat libvirt_c"
  have 1: "sm_find ''test'' (sv_pool (server_with (0 :: nat))) = Some open_connection"
    by (simp add: server_with_def)
  have 2: "domain_shutdown ?conf ?lv counting_os 1 (sv_world (server_with 0)) = (Throw (Out_Of_Range ''map::at''), 0)"
    by (simp add: domain_shutdown_def libvirt_defs stub_with_def act_simps get_double_def server_with_def)
  obtain s' where 3: "domains_shutdown ?conf lab_libs ?lv counting_os ''test'' 1 None [] (request_of Post [])
      (server_with 0) = (Ok (), s')"
    using shutdown_view_cases [OF 1 2, of lab_libs None "[]" "request_of Post []"] by (auto simp: act_simps)
  from shutdown_view_status [OF 1 2 3] 3 show ?thesis by auto
qed

text \<open>C23: no view touches the connection objects, the websockets, the registered events, the log or
  another user's libvirt connection, whatever libvirt does and however the view ends; the table of
  connections stays well formed and the announced length of the response is that of its body.\<close>

theorem views_frame:
  assumes "server_ok s"
    and "view \<in> {domains_index L lv conn, host_show L lv conn, host_networks L lv conn,
      domains_show L lv conn d, domains_autostart L lv conn d, domains_bootmenu L lv conn d,
      domains_metadata L lv conn d, domains_start L lv conn d, domains_shutdown conf L lv os conn d}"
  shows "server_ok (snd (view http_conn match req s)) \<and> same_frame conn s (snd (view http_conn match req s))"
proof -
  have "act_keeps (view_inv conn s) (view http_conn match req)"
    using assms(2) view_frame.views_keep by auto
  from act_keepsD [OF this view_inv_refl [OF assms(1)]] show ?thesis by (simp add: view_inv_def)
qed

theorem views_frame_witness:
  "server_ok (snd (domains_metadata (body_libs []) memory_libvirt ''test'' 1 None [] (request_of Post [])
     (server_with (\<lambda>ty. []))))"
proof -
  have "server_ok (server_with (\<lambda>ty :: int. ([] :: string)))"
    by (auto simp: server_ok_def server_with_def pool_ok_def slot_ok_def open_connection_def
        connection_is_open_def sm_ok_def split: if_splits)
  then show ?thesis
    using views_frame [of "server_with (\<lambda>ty. [])" "domains_metadata (body_libs []) memory_libvirt ''test'' 1"
        "body_libs []" memory_libvirt "''test''" 1] by blast
qed

end
