(* ===== verification/Regex.thy ===== *)
theory Regex
  imports Prelude
begin

text \<open>
  The part of \<open>std::regex\<close> (ECMAScript grammar) the router's patterns use: characters, \<open>.\<close>, negated
  classes, \<open>+\<close>, groups and the two anchors, with the backtracking match \<open>std::regex_match\<close>
  performs. A pattern is parsed from its text, as constructing the regex does; the match gives the
  whole target and the text of every group, as \<open>std::smatch\<close> does.
\<close>

section \<open>Patterns\<close>

datatype regex =
    REmpty
  | RChar char
  | RAny
  | RNot "char list"
  | RCat regex regex
  | RPlus regex
  | RGroup nat regex
  | RBegin
  | REnd

definition rx_seq :: "regex list \<Rightarrow> regex" where
  "rx_seq rs = foldr RCat rs REmpty"

text \<open>
  The parser reads the pattern from left to right; the items of the group being read are kept in
  reverse, and a stack holds the items read before each group that is still open.
\<close>

function rx_parse :: "string \<Rightarrow> nat \<Rightarrow> regex list \<Rightarrow> (nat \<times> regex list) list \<Rightarrow> regex option" where
  "rx_parse [] n cur stack = (if stack = [] then Some (rx_seq (rev cur)) else None)"
| "rx_parse (c # cs) n cur stack =
     (if c = CHR ''^'' then rx_parse cs n (RBegin # cur) stack
      else if c = CHR ''$'' then rx_parse cs n (REnd # cur) stack
      else if c = CHR ''.'' then rx_parse cs n (RAny # cur) stack
      else if c = CHR ''('' then rx_parse cs (n + 1) [] ((n, cur) # stack)
      else if c = CHR '')'' then
        (case stack of
           [] \<Rightarrow> None
         | (k, outer) # stack' \<Rightarrow> rx_parse cs n (RGroup k (rx_seq (rev cur)) # outer) stack')
      else if c = CHR ''+'' then
        (case cur of [] \<Rightarrow> None | r # cur' \<Rightarrow> rx_parse cs n (RPlus r # cur') stack)
      else if c = CHR ''['' then
        (case cs of
           x # cs' \<Rightarrow>
             if x = CHR ''^'' then
               rx_parse (drop 1 (dropWhile (\<lambda>y. y \<noteq> CHR '']'') cs')) n
                 (RNot (takeWhile (\<lambda>y. y \<noteq> CHR '']'') cs') # cur) stack
             else None
         | [] \<Rightarrow> None)
      else rx_parse cs n (RChar c # cur) stack)"
  by pat_completeness auto
termination
  by (relation "measure (\<lambda>(s, n, cur, stack). length s)")
     (auto simp: less_Suc_eq_le intro: le_trans [OF diff_le_self] le_trans [OF length_dropWhile_le] le_SucI)

definition regex_of :: "string \<Rightarrow> regex" where
  "regex_of pattern = (case rx_parse pattern 1 [] [] of Some r \<Rightarrow> r | None \<Rightarrow> REmpty)"

section \<open>Matching\<close>

text \<open>Whether the position is the start, the text still to be read, and the groups captured so far.\<close>

type_synonym rstate = "bool \<times> string \<times> (nat \<times> string) list"

definition rx_rest :: "rstate \<Rightarrow> string" where
  "rx_rest st = fst (snd st)"

fun rx_char :: "(char \<Rightarrow> bool) \<Rightarrow> rstate \<Rightarrow> rstate list" where
  "rx_char p (b, [], k) = []"
| "rx_char p (b, c # cs, k) = (if p c then [(False, cs, k)] else [])"

text \<open>One or more times, greedily: the longer repetitions come first.\<close>

function rx_plus :: "(rstate \<Rightarrow> rstate list) \<Rightarrow> rstate \<Rightarrow> rstate list" where
  "rx_plus f st = concat (map (\<lambda>st'.
     if length (rx_rest st') < length (rx_rest st) then rx_plus f st' @ [st'] else [st']) (f st))"
  by pat_completeness auto
termination
  by (relation "measure (\<lambda>(f, st). length (rx_rest st))") auto

declare rx_plus.simps [simp del]

definition rx_capture :: "nat \<Rightarrow> rstate \<Rightarrow> rstate \<Rightarrow> rstate" where
  "rx_capture i st st' = (case st' of (b, rest, k) \<Rightarrow>
     (b, rest, (i, take (length (rx_rest st) - length rest) (rx_rest st)) # k))"

fun rx_run :: "regex \<Rightarrow> rstate \<Rightarrow> rstate list" where
  "rx_run REmpty st = [st]"
| "rx_run (RChar c) st = rx_char (\<lambda>x. x = c) st"
| "rx_run RAny st = rx_char (\<lambda>x. x \<noteq> CHR 0x0A \<and> x \<noteq> CHR 0x0D) st"
| "rx_run (RNot cs) st = rx_char (\<lambda>x. x \<notin> set cs) st"
| "rx_run (RCat r1 r2) st = concat (map (rx_run r2) (rx_run r1 st))"
| "rx_run (RPlus r) st = rx_plus (rx_run r) st"
| "rx_run (RGroup i r) st = map (rx_capture i st) (rx_run r st)"
| "rx_run RBegin st = (if fst st then [st] else [])"
| "rx_run REnd st = (if rx_rest st = [] then [st] else [])"

fun rx_groups :: "regex \<Rightarrow> nat" where
  "rx_groups (RCat r1 r2) = rx_groups r1 + rx_groups r2"
| "rx_groups (RPlus r) = rx_groups r"
| "rx_groups (RGroup i r) = Suc (rx_groups r)"
| "rx_groups _ = 0"

definition group_text :: "(nat \<times> string) list \<Rightarrow> nat \<Rightarrow> string" where
  "group_text k i = (case map_of k i of Some t \<Rightarrow> t | None \<Rightarrow> [])"

definition regex_match :: "regex \<Rightarrow> string \<Rightarrow> string list option" where
  "regex_match r s =
     (case filter (\<lambda>st. rx_rest st = []) (rx_run r (True, s, [])) of
        [] \<Rightarrow> None
      | (b, rest, k) # _ \<Rightarrow> Some (s # map (group_text k) [1..<Suc (rx_groups r)]))"

text \<open>\<open>match[i]\<close>: an index beyond the groups is an unmatched, hence empty, group.\<close>

definition sub_match :: "string list \<Rightarrow> nat \<Rightarrow> string" where
  "sub_match m i = (if i < length m then m ! i else [])"

section \<open>Runs of the basic patterns\<close>

lemma rx_rest_simps [simp]: "rx_rest (b, s, k) = s"
  by (simp add: rx_rest_def)

lemma rx_plus_char:
  "rx_plus (rx_char p) (b, s, k) =
     map (\<lambda>i. (False, drop i s, k)) (rev [1..<Suc (length (takeWhile p s))])"
proof (induction s arbitrary: b)
  case Nil
  then show ?case by (simp add: rx_plus.simps)
next
  case (Cons c s)
  have "map (\<lambda>i. (False, drop i (c # s), k)) (rev [1..<Suc (Suc n)]) =
      map (\<lambda>i. (False, drop i s, k)) (rev [1..<Suc n]) @ [(False, s, k)]" for n
    by (induction n) simp_all
  with Cons show ?case by (simp add: rx_plus.simps)
qed

lemma rx_run_seq_Nil [simp]: "rx_run (rx_seq []) st = [st]"
  by (simp add: rx_seq_def)

lemma rx_run_seq_Cons [simp]: "rx_run (rx_seq (r # rs)) st = concat (map (rx_run (rx_seq rs)) (rx_run r st))"
  by (simp add: rx_seq_def)

lemma concat_map_concat: "concat (map f (concat (map g xs))) = concat (map (\<lambda>x. concat (map f (g x))) xs)"
  by (induction xs) auto

lemma rx_run_seq_append:
  "rx_run (rx_seq (rs @ ts)) st = concat (map (rx_run (rx_seq ts)) (rx_run (rx_seq rs) st))"
proof (induction rs arbitrary: st)
  case Nil
  then show ?case by simp
next
  case (Cons r rs)
  then have "rx_run (rx_seq (rs @ ts)) = (\<lambda>st. concat (map (rx_run (rx_seq ts)) (rx_run (rx_seq rs) st)))"
    by (intro ext)
  then show ?case by (simp add: concat_map_concat)
qed

lemma rx_run_RNot: "rx_run (RNot cs) = rx_char (\<lambda>x. x \<notin> set cs)"
  by (rule ext) simp

lemma rx_run_RAny: "rx_run RAny = rx_char (\<lambda>x. x \<noteq> CHR 0x0A \<and> x \<noteq> CHR 0x0D)"
  by (rule ext) simp

text \<open>A literal text.\<close>

definition lit :: "string \<Rightarrow> regex list" where
  "lit l = map RChar l"

lemma rx_run_lit:
  "rx_run (rx_seq (lit l)) (b, s, k) =
     (if take (length l) s = l then [(b \<and> l = [], drop (length l) s, k)] else [])"
proof (induction l arbitrary: b s)
  case Nil
  then show ?case by (simp add: lit_def)
next
  case (Cons c l)
  then show ?case by (cases s) (simp_all add: lit_def)
qed

text \<open>
  A group of characters other than the slash, \<open>([^/]+)\<close>: it may stop anywhere within its run, but
  followed by a slash it can only take the whole run.
\<close>

definition seg :: "nat \<Rightarrow> regex" where
  "seg i = RGroup i (rx_seq [RPlus (RNot ''/'')])"

definition segment :: "string \<Rightarrow> string" where
  "segment s = takeWhile (\<lambda>c. c \<noteq> CHR ''/'') s"

lemma rx_run_seg:
  "rx_run (seg i) (b, s, k) =
     map (\<lambda>j. (False, drop j s, (i, take j s) # k)) (rev [1..<Suc (length (segment s))])"
proof -
  have "length (segment s) \<le> length s" by (simp add: segment_def length_takeWhile_le)
  then have "map (rx_capture i (b, s, k)) (map (\<lambda>j. (False, drop j s, k)) (rev [1..<Suc (length (segment s))])) =
      map (\<lambda>j. (False, drop j s, (i, take j s) # k)) (rev [1..<Suc (length (segment s))])"
    by (auto simp: rx_capture_def)
  moreover have "rx_run (rx_seq [RPlus (RNot ''/'')]) (b, s, k) =
      map (\<lambda>j. (False, drop j s, k)) (rev [1..<Suc (length (segment s))])"
    by (simp add: rx_run_RNot rx_plus_char segment_def comp_def concat_map_singleton del: upt_Suc)
  ultimately show ?thesis by (simp add: seg_def del: upt_Suc)
qed

lemma segment_take: "take (length (segment s)) s = segment s"
  by (induction s) (simp_all add: segment_def)

lemma segment_inside:
  assumes "j < length (segment s)"
  shows "\<exists>c cs. drop j s = c # cs \<and> c \<noteq> CHR ''/''"
proof -
  have "j < length s" using assms length_takeWhile_le [of _ s] by (simp add: segment_def less_le_trans)
  moreover have "s ! j \<noteq> CHR ''/''"
  proof -
    have "segment s ! j = s ! j" using assms by (simp add: segment_def takeWhile_nth)
    moreover have "segment s ! j \<in> set (segment s)" using assms by (rule nth_mem)
    ultimately show ?thesis unfolding segment_def by (auto dest: set_takeWhileD)
  qed
  ultimately show ?thesis by (intro exI [of _ "s ! j"] exI [of _ "drop (Suc j) s"]) (simp add: Cons_nth_drop_Suc)
qed

lemma rx_run_seg_lit:
  assumes "l \<noteq> []" "hd l = CHR ''/''"
  shows "rx_run (rx_seq (seg i # lit l @ rs)) (b, s, k) =
    (let u = segment s; r = drop (length u) s in
     if u \<noteq> [] \<and> take (length l) r = l then rx_run (rx_seq rs) (False, drop (length l) r, (i, u) # k) else [])"
proof -
  define n where "n = length (segment s)"
  define after where "after j = concat (map (rx_run (rx_seq rs))
      (rx_run (rx_seq (lit l)) (False, drop j s, (i, take j s) # k)))" for j
  have run: "rx_run (rx_seq (seg i # lit l @ rs)) (b, s, k) = concat (map after (rev [1..<Suc n]))"
    by (simp add: rx_run_seg after_def [abs_def] n_def rx_run_seq_append comp_def del: upt_Suc)
  have "after j = []" if "j < n" for j
  proof -
    obtain c cs where "drop j s = c # cs" "c \<noteq> CHR ''/''"
      using segment_inside [OF \<open>j < n\<close> [unfolded n_def]] by blast
    moreover obtain l' where "l = CHR ''/'' # l'" using assms by (cases l) auto
    ultimately show ?thesis by (simp add: after_def rx_run_lit)
  qed
  then have shorter: "concat (map after (rev [1..<n])) = []" by simp
  show ?thesis
  proof (cases "n = 0")
    case True
    then show ?thesis by (simp add: run n_def del: rx_run_seq_Cons)
  next
    case False
    then have "rev [1..<Suc n] = n # rev [1..<n]" by simp
    with run shorter have "rx_run (rx_seq (seg i # lit l @ rs)) (b, s, k) = after n" by simp
    with False assms(1) show ?thesis
      by (simp add: after_def rx_run_lit n_def segment_take Let_def del: rx_run_seq_Cons)
  qed
qed

section \<open>Path patterns\<close>

text \<open>
  A path pattern is a literal prefix and segments, each followed by a literal that starts with a
  slash. Its match is read off the target from left to right, without backtracking.
\<close>

fun segs :: "nat \<Rightarrow> string list \<Rightarrow> regex list" where
  "segs i [] = []"
| "segs i (l # ls) = seg i # lit l @ segs (Suc i) ls"

definition path_rx :: "string \<Rightarrow> string list \<Rightarrow> bool \<Rightarrow> regex" where
  "path_rx prefix ls anchored =
     rx_seq (RBegin # lit prefix @ segs 1 ls @ (if anchored then [REnd] else []))"

fun match_path :: "string list \<Rightarrow> string \<Rightarrow> string list option" where
  "match_path [] s = (if s = [] then Some [] else None)"
| "match_path (l # ls) s =
     (let u = segment s; r = drop (length u) s in
      if u \<noteq> [] \<and> take (length l) r = l then map_option ((#) u) (match_path ls (drop (length l) r)) else None)"

definition slash_led :: "string \<Rightarrow> bool" where
  "slash_led l \<longleftrightarrow> l \<noteq> [] \<and> hd l = CHR ''/''"

fun number_from :: "nat \<Rightarrow> string list \<Rightarrow> (nat \<times> string) list" where
  "number_from i [] = []"
| "number_from i (u # us) = (i, u) # number_from (Suc i) us"

definition tail_rx :: "bool \<Rightarrow> regex list" where
  "tail_rx anchored = (if anchored then [REnd] else [])"

lemma rx_run_segs:
  assumes "\<forall>l \<in> set ls. slash_led l"
  shows "filter (\<lambda>st. rx_rest st = []) (rx_run (rx_seq (segs i ls @ tail_rx e)) (b, s, k)) =
    (case match_path ls s of None \<Rightarrow> []
     | Some us \<Rightarrow> [(if ls = [] then b else False, [], rev (number_from i us) @ k)])"
  using assms
proof (induction ls arbitrary: i b s k)
  case Nil
  then show ?case by (simp add: tail_rx_def)
next
  case (Cons l ls)
  then have l: "l \<noteq> []" "hd l = CHR ''/''" by (auto simp: slash_led_def)
  show ?case
    using Cons
    by (simp add: rx_run_seg_lit [OF l] Let_def del: rx_run_seq_Cons split: option.split)
qed

lemma rx_groups_seq [simp]: "rx_groups (rx_seq rs) = sum_list (map rx_groups rs)"
  by (induction rs) (simp_all add: rx_seq_def)

lemma rx_groups_lit: "sum_list (map rx_groups (lit l)) = 0"
  by (induction l) (simp_all add: lit_def)

lemma rx_groups_segs: "sum_list (map rx_groups (segs i ls)) = length ls"
  by (induction ls arbitrary: i) (simp_all add: rx_groups_lit seg_def)

lemma rx_groups_path: "rx_groups (path_rx prefix ls e) = length ls"
  by (simp add: path_rx_def rx_groups_lit rx_groups_segs)

lemma map_of_number_from:
  "map_of (rev (number_from i us)) j = (if i \<le> j \<and> j < i + length us then Some (us ! (j - i)) else None)"
proof (induction us arbitrary: i)
  case Nil
  then show ?case by simp
next
  case (Cons u us)
  have "map_of (rev (number_from i (u # us))) j =
      (case map_of (rev (number_from (Suc i) us)) j of Some x \<Rightarrow> Some x | None \<Rightarrow> if j = i then Some u else None)"
    by (auto simp: map_add_def split: option.split)
  then show ?case
    by (auto simp: Cons.IH nth_Cons Suc_diff_le split: option.split nat.split)
       (metis Suc_diff_Suc Suc_le_lessD diff_Suc_1 diff_Suc_Suc)
qed

lemma match_path_length: "match_path ls s = Some us \<Longrightarrow> length us = length ls"
  by (induction ls arbitrary: s us) (auto simp: Let_def split: if_splits)

lemma regex_match_path:
  assumes "\<forall>l \<in> set ls. slash_led l"
  shows "regex_match (path_rx prefix ls e) s =
    (if take (length prefix) s = prefix
     then map_option ((#) s) (match_path ls (drop (length prefix) s)) else None)"
proof -
  have run: "rx_run (path_rx prefix ls e) (True, s, []) =
      (if take (length prefix) s = prefix
       then rx_run (rx_seq (segs 1 ls @ tail_rx e)) (prefix = [], drop (length prefix) s, []) else [])"
    by (simp add: path_rx_def tail_rx_def rx_run_seq_append [of "lit prefix"] rx_run_lit)
  have groups: "map (group_text (rev (number_from 1 us))) [1..<Suc (length ls)] = us"
    if "length us = length ls" for us
    using that by (intro nth_equalityI) (auto simp: group_text_def map_of_number_from simp del: upt_Suc)
  show ?thesis
    using rx_run_segs [OF assms, of 1 e "prefix = []" "drop (length prefix) s" "[]"] groups match_path_length
    by (auto simp: regex_match_def run rx_groups_path simp del: upt_Suc split: option.splits)
qed

text \<open>What a path pattern accepts, and the only way it does.\<close>

definition segment_ok :: "string \<Rightarrow> bool" where
  "segment_ok u \<longleftrightarrow> u \<noteq> [] \<and> CHR ''/'' \<notin> set u"

fun join_path :: "string list \<Rightarrow> string list \<Rightarrow> string" where
  "join_path (u # us) (l # ls) = u @ l @ join_path us ls"
| "join_path _ _ = []"

lemma segment_append:
  assumes "segment_ok u" "slash_led l"
  shows "segment (u @ l @ r) = u"
proof -
  obtain l' where "l = CHR ''/'' # l'" using assms(2) by (cases l) (auto simp: slash_led_def)
  moreover have "takeWhile (\<lambda>c. c \<noteq> CHR ''/'') (u @ x) = u @ takeWhile (\<lambda>c. c \<noteq> CHR ''/'') x" for x
    using assms(1) by (intro takeWhile_append2) (auto simp: segment_ok_def)
  ultimately show ?thesis by (simp add: segment_def)
qed

lemma segment_ok_segment: "segment s \<noteq> [] \<Longrightarrow> segment_ok (segment s)"
  by (auto simp: segment_ok_def segment_def dest: set_takeWhileD)

lemma match_path_iff:
  assumes "\<forall>l \<in> set ls. slash_led l"
  shows "match_path ls s = Some us \<longleftrightarrow>
    length us = length ls \<and> (\<forall>u \<in> set us. segment_ok u) \<and> s = join_path us ls"
  using assms
proof (induction ls arbitrary: s us)
  case Nil
  then show ?case by auto
next
  case (Cons l ls)
  show ?case
  proof (cases us)
    case Nil
    then show ?thesis by (auto simp: Let_def)
  next
    case us: (Cons u us')
    have l: "slash_led l" using Cons.prems by simp
    show ?thesis
    proof
      assume m: "match_path (l # ls) s = Some us"
      with us have u: "u = segment s" "u \<noteq> []" "take (length l) (drop (length u) s) = l"
        "match_path ls (drop (length l) (drop (length u) s)) = Some us'"
        by (auto simp: Let_def split: if_splits)
      then have "drop (length l) (drop (length u) s) = join_path us' ls" "length us' = length ls"
        "\<forall>u \<in> set us'. segment_ok u" using Cons by auto
      moreover have "s = u @ l @ drop (length l) (drop (length u) s)"
        using u by (metis append_take_drop_id segment_take)
      ultimately show "length us = length (l # ls) \<and> (\<forall>u \<in> set us. segment_ok u) \<and> s = join_path us (l # ls)"
        using u segment_ok_segment [of s] us by simp
    next
      assume a: "length us = length (l # ls) \<and> (\<forall>u \<in> set us. segment_ok u) \<and> s = join_path us (l # ls)"
      then have "segment s = u" using us l by (auto intro: segment_append)
      then show "match_path (l # ls) s = Some us" using a us Cons by (auto simp: segment_ok_def)
    qed
  qed
qed

end
