(* ===== verification/Middleware.thy ===== *)
theory Middleware
  imports Views Regex
begin

text \<open>
  \<open>http/middleware.cpp\<close>: the guards around the views. Each takes a route function and gives one that
  first checks the request: its method, that the user exists, that libvirt can be reached for the
  user, that the domain exists.
\<close>

type_synonym 'w route_function = "http_id option \<Rightarrow> smatch \<Rightarrow> request \<Rightarrow> ('w server, unit) act"

section \<open>The guards\<close>

definition allowed_methods :: "verb list \<Rightarrow> verb \<Rightarrow> bool" where
  "allowed_methods methods method \<longleftrightarrow> method \<in> set methods"

definition allow_header :: "verb list \<Rightarrow> string" where
  "allow_header methods = concat (map (\<lambda>m. method_string m @ '', '') methods) @ ''OPTIONS''"

definition with_methods :: "verb list \<Rightarrow> 'w route_function \<Rightarrow> 'w route_function" where
  "with_methods methods route_fn conn match req =
     act_then (modify_response (set_field Allow (allow_header methods)))
     (if rq_method req = Options then act_return ()
      else if \<not> allowed_methods methods (rq_method req)
      then modify_response (set_result Method_Not_Allowed)
      else route_fn conn match req)"

definition with_user :: "libs \<Rightarrow> 'w os \<Rightarrow> 'w route_function \<Rightarrow> 'w route_function" where
  "with_user L os route_fn conn match req =
     (let user = sub_match match 1 in
      act_bind (on_sv_world (\<lambda>w. let (found, w') = sys_getpwnam os (c_str user) w in (Ok found, w')))
      (\<lambda>passwd.
        if \<not> passwd then respond L (error ''Unable to locate user'') Not_Found
        else route_fn conn match req))"

text \<open>Only \<open>pool.get\<close> is inside the \<open>try\<close> block.\<close>

definition with_libvirt :: "libs \<Rightarrow> 'w libvirt_c \<Rightarrow> 'w os \<Rightarrow> 'w libvirt_view \<Rightarrow> 'w route_function" where
  "with_libvirt L lv os route_fn =
     with_user L os (\<lambda>http_conn match req.
       let user = sub_match match 1 in
       act_bind
         (act_catch is_runtime_error
           (act_bind (on_sv_pool (pool_get lv os user)) (\<lambda>conn. act_return (Some conn)))
           (\<lambda>e. act_then (respond L (error ''Unable to connect to libvirt'') Internal_Server_Error)
              (act_return None)))
         (\<lambda>conn. case conn of None \<Rightarrow> act_return () | Some conn \<Rightarrow> route_fn conn http_conn match req))"

definition with_libvirt_domain :: "libs \<Rightarrow> 'w libvirt_c \<Rightarrow> 'w os \<Rightarrow> 'w domain_view \<Rightarrow> 'w route_function" where
  "with_libvirt_domain L lv os route_fn =
     with_libvirt L lv os (\<lambda>conn http_conn match req.
       let name = sub_match match 2 in
       act_bind
         (act_catch is_domain_error
           (act_bind (on_conn conn (\<lambda>c. connection_domain lv c name)) (\<lambda>d. act_return (Some d)))
           (\<lambda>e. act_then (respond L (error ''Domain not found'') Not_Found) (act_return None)))
         (\<lambda>domain. case domain of
            None \<Rightarrow> act_return () | Some domain \<Rightarrow> route_fn conn domain http_conn match req))"

section \<open>The contract of a guard\<close>

text \<open>
  A guard decides from the request and the state alone: it either ends the request itself, or hands
  a value and a state to the function it protects. What follows for any guard is proved once: it
  keeps an invariant if its two exits and the protected function do, and the protected function is
  not run when the guard ends the request.
\<close>

locale guard =
  fixes protect :: "('y \<Rightarrow> ('s, unit) act) \<Rightarrow> 'x \<Rightarrow> ('s, unit) act"
    and check :: "'x \<Rightarrow> 's \<Rightarrow> unit outcome \<times> 's + 'y \<times> 's"
  assumes protect_check: "protect f x s = (case check x s of Inl r \<Rightarrow> r | Inr (y, s') \<Rightarrow> f y s')"
begin

lemma rejected: "check x s = Inl r \<Longrightarrow> protect f x s = r"
  by (simp add: protect_check)

lemma passed: "check x s = Inr (y, s') \<Longrightarrow> protect f x s = f y s'"
  by (simp add: protect_check)

lemma reject_independent: "check x s = Inl r \<Longrightarrow> protect f x s = protect g x s"
  by (simp add: protect_check)

lemma protect_keeps:
  assumes "\<And>s r. P s \<Longrightarrow> check x s = Inl r \<Longrightarrow> P (snd r)"
    and "\<And>s y s'. P s \<Longrightarrow> check x s = Inr (y, s') \<Longrightarrow> P s'"
    and "\<And>y. act_keeps P (f y)"
  shows "act_keeps P (protect f x)"
  using assms by (intro act_keepsI) (auto simp: protect_check act_keeps_def split: sum.split prod.split)

end

text \<open>The checks the four guards make.\<close>

type_synonym call = "http_id option \<times> smatch \<times> request"

definition check_method :: "verb list \<Rightarrow> call \<Rightarrow> 'w server \<Rightarrow> unit outcome \<times> 'w server + call \<times> 'w server" where
  "check_method methods c s = (case c of (conn, match, req) \<Rightarrow>
     let s1 = s\<lparr>sv_response := set_field Allow (allow_header methods) (sv_response s)\<rparr> in
     if rq_method req = Options then Inl (Ok (), s1)
     else if \<not> allowed_methods methods (rq_method req)
     then Inl (Ok (), s1\<lparr>sv_response := set_result Method_Not_Allowed (sv_response s1)\<rparr>)
     else Inr (c, s1))"

definition check_user :: "libs \<Rightarrow> 'w os \<Rightarrow> call \<Rightarrow> 'w server \<Rightarrow> unit outcome \<times> 'w server + call \<times> 'w server" where
  "check_user L os c s = (case c of (conn, match, req) \<Rightarrow>
     let (found, w) = sys_getpwnam os (c_str (sub_match match 1)) (sv_world s); s1 = s\<lparr>sv_world := w\<rparr> in
     if found then Inr (c, s1) else Inl (respond L (error ''Unable to locate user'') Not_Found s1))"

definition check_libvirt ::
    "libs \<Rightarrow> 'w libvirt_c \<Rightarrow> 'w os \<Rightarrow> call \<Rightarrow> 'w server \<Rightarrow> unit outcome \<times> 'w server + (string \<times> call) \<times> 'w server" where
  "check_libvirt L lv os c s = (case check_user L os c s of Inl r \<Rightarrow> Inl r | Inr (c, s1) \<Rightarrow>
     (case on_sv_pool (pool_get lv os (sub_match (fst (snd c)) 1)) s1 of
        (Ok ref, s2) \<Rightarrow> Inr ((ref, c), s2)
      | (Throw e, s2) \<Rightarrow>
          (if is_runtime_error e
           then Inl (respond L (error ''Unable to connect to libvirt'') Internal_Server_Error s2)
           else Inl (Throw e, s2))
      | (Undef, s2) \<Rightarrow> Inl (Undef, s2)
      | (Hang, s2) \<Rightarrow> Inl (Hang, s2)))"

definition check_domain ::
    "libs \<Rightarrow> 'w libvirt_c \<Rightarrow> 'w os \<Rightarrow> call \<Rightarrow> 'w server \<Rightarrow>
      unit outcome \<times> 'w server + (string \<times> domain_ptr \<times> call) \<times> 'w server" where
  "check_domain L lv os c s = (case check_libvirt L lv os c s of Inl r \<Rightarrow> Inl r | Inr ((ref, c), s1) \<Rightarrow>
     (case on_conn ref (\<lambda>conn. connection_domain lv conn (sub_match (fst (snd c)) 2)) s1 of
        (Ok d, s2) \<Rightarrow> Inr ((ref, d, c), s2)
      | (Throw e, s2) \<Rightarrow>
          (if is_domain_error e then Inl (respond L (error ''Domain not found'') Not_Found s2)
           else Inl (Throw e, s2))
      | (Undef, s2) \<Rightarrow> Inl (Undef, s2)
      | (Hang, s2) \<Rightarrow> Inl (Hang, s2)))"

interpretation methods_guard: guard
    "\<lambda>f (conn, match, req). with_methods methods (\<lambda>conn match req. f (conn, match, req)) conn match req"
    "check_method methods" for methods
  by unfold_locales
     (auto simp: with_methods_def check_method_def Let_def act_simps split: prod.split)

lemma on_sv_world_run: "m (sv_world s) = (r, w) \<Longrightarrow> on_sv_world m s = (r, s\<lparr>sv_world := w\<rparr>)"
  by (simp add: on_sv_world_def)

lemma with_user_check:
  "with_user L os f conn match req s = (case check_user L os (conn, match, req) s of
     Inl r \<Rightarrow> r | Inr (c, s') \<Rightarrow> f conn match req s')"
  by (cases "sys_getpwnam os (c_str (sub_match match 1)) (sv_world s)")
     (auto simp: with_user_def check_user_def on_sv_world_def act_bind_def Let_def split: prod.split)

lemma check_user_Inr: "check_user L os c s = Inr (c', s') \<Longrightarrow> c' = c"
  by (auto simp: check_user_def Let_def split: prod.splits if_splits)

interpretation user_guard: guard
    "\<lambda>f (conn, match, req). with_user L os (\<lambda>conn match req. f (conn, match, req)) conn match req"
    "check_user L os" for L os
  by unfold_locales (auto simp: with_user_check split: sum.split prod.split dest: check_user_Inr)

lemma with_libvirt_check:
  "with_libvirt L lv os f conn match req s = (case check_libvirt L lv os (conn, match, req) s of
     Inl r \<Rightarrow> r | Inr ((ref, c), s') \<Rightarrow> f ref conn match req s')"
proof (cases "check_user L os (conn, match, req) s")
  case (Inl r)
  then show ?thesis by (simp add: with_libvirt_def with_user_check check_libvirt_def)
next
  case (Inr p)
  then obtain s1 where s1: "check_user L os (conn, match, req) s = Inr ((conn, match, req), s1)"
    by (cases p) (auto dest: check_user_Inr)
  obtain r s2 where "on_sv_pool (pool_get lv os (sub_match match 1)) s1 = (r, s2)" by force
  then show ?thesis
    using s1 by (cases r) (auto simp: with_libvirt_def with_user_check check_libvirt_def Let_def act_simps)
qed

lemma check_libvirt_Inr: "check_libvirt L lv os c s = Inr ((ref, c'), s') \<Longrightarrow> c' = c"
  by (auto simp: check_libvirt_def split: sum.splits prod.splits outcome.splits if_splits dest: check_user_Inr)

interpretation libvirt_guard: guard
    "\<lambda>f (conn, match, req). with_libvirt L lv os (\<lambda>ref conn match req. f (ref, conn, match, req)) conn match req"
    "check_libvirt L lv os" for L lv os
  by unfold_locales (auto simp: with_libvirt_check split: sum.split prod.split dest: check_libvirt_Inr)

lemma with_libvirt_domain_check:
  "with_libvirt_domain L lv os f conn match req s = (case check_domain L lv os (conn, match, req) s of
     Inl r \<Rightarrow> r | Inr ((ref, d, c), s') \<Rightarrow> f ref d conn match req s')"
proof (cases "check_libvirt L lv os (conn, match, req) s")
  case (Inl r)
  then show ?thesis by (simp add: with_libvirt_domain_def with_libvirt_check check_domain_def)
next
  case (Inr p)
  then obtain ref s1 where s1: "check_libvirt L lv os (conn, match, req) s = Inr ((ref, conn, match, req), s1)"
    by (cases p) (auto dest: check_libvirt_Inr)
  obtain r s2 where "on_conn ref (\<lambda>c. connection_domain lv c (sub_match match 2)) s1 = (r, s2)" by force
  then show ?thesis
    using s1 by (cases r)
      (auto simp: with_libvirt_domain_def with_libvirt_check check_domain_def Let_def act_simps)
qed

lemma check_domain_Inr: "check_domain L lv os c s = Inr ((ref, d, c'), s') \<Longrightarrow> c' = c"
  by (auto simp: check_domain_def split: sum.splits prod.splits outcome.splits if_splits dest: check_libvirt_Inr)

interpretation domain_guard: guard
    "\<lambda>f (conn, match, req).
       with_libvirt_domain L lv os (\<lambda>ref d conn match req. f (ref, d, conn, match, req)) conn match req"
    "check_domain L lv os" for L lv os
  by unfold_locales (auto simp: with_libvirt_domain_check split: sum.split prod.split dest: check_domain_Inr)

section \<open>What a guarded view can rely on\<close>

lemma check_user_exists:
  assumes "check_user L os (conn, match, req) s = Inr (c, s')"
  shows "fst (sys_getpwnam os (c_str (sub_match match 1)) (sv_world s))" "sv_pool s' = sv_pool s"
  using assms by (auto simp: check_user_def Let_def split: prod.splits if_splits)

lemma check_libvirt_live:
  assumes "pool_ok (sv_pool s)" and "check_libvirt L lv os (conn, match, req) s = Inr ((ref, c), s')"
  shows "ref = sub_match match 1" "slot_open ref (sv_pool s')" "pool_ok (sv_pool s')"
    "fst (sys_getpwnam os (c_str (sub_match match 1)) (sv_world s))"
proof -
  from assms(2) obtain s1 where s1: "check_user L os (conn, match, req) s = Inr ((conn, match, req), s1)"
      "on_sv_pool (pool_get lv os (sub_match match 1)) s1 = (Ok ref, s')"
    by (auto simp: check_libvirt_def split: sum.splits prod.splits outcome.splits if_splits dest: check_user_Inr)
  from s1(2) obtain p w where get: "pool_get lv os (sub_match match 1) (sv_pool s1, sv_world s1) = (Ok ref, (p, w))"
      "s' = s1\<lparr>sv_pool := p, sv_world := w\<rparr>"
    by (auto simp: on_sv_pool_def Let_def split: prod.splits)
  have "pool_ok (sv_pool s1)" using assms(1) check_user_exists(2) [OF s1(1)] by simp
  from pool_get_sound [OF this get(1)] get(2)
  show "ref = sub_match match 1" "slot_open ref (sv_pool s')" "pool_ok (sv_pool s')" by auto
  show "fst (sys_getpwnam os (c_str (sub_match match 1)) (sv_world s))"
    by (rule check_user_exists(1) [OF s1(1)])
qed

lemma on_conn_Ok_pool: "on_conn ref m s = (Ok a, s') \<Longrightarrow> sv_pool s' = sv_pool s"
  by (auto simp: on_conn_def split: option.splits prod.splits outcome.splits)

lemma check_domain_live:
  assumes "pool_ok (sv_pool s)" and "check_domain L lv os (conn, match, req) s = Inr ((ref, d, c), s')"
  shows "ref = sub_match match 1 \<and> slot_open ref (sv_pool s') \<and> pool_ok (sv_pool s') \<and>
    fst (sys_getpwnam os (c_str (sub_match match 1)) (sv_world s)) \<and>
    (\<exists>s1. on_conn ref (\<lambda>conn. connection_domain lv conn (sub_match match 2)) s1 = (Ok d, s'))"
proof -
  from assms(2) obtain c1 s1 where s1: "check_libvirt L lv os (conn, match, req) s = Inr ((ref, c1), s1)"
      "on_conn ref (\<lambda>conn. connection_domain lv conn (sub_match (fst (snd c1)) 2)) s1 = (Ok d, s')"
    by (auto simp: check_domain_def split: sum.splits prod.splits outcome.splits if_splits)
  from check_libvirt_live [OF assms(1) s1(1)] check_libvirt_Inr [OF s1(1)] on_conn_Ok_pool [OF s1(2)] s1(2)
  show ?thesis by auto
qed

text \<open>C1: whenever what a guarded route does depends on its view at all, the request's method is one of
  the route's, the path names a user the system has, the view runs on that very user's connection,
  which is open, and on a domain that a lookup through this connection has just found.\<close>

theorem guarded_view_runs:
  assumes "pool_ok (sv_pool s)"
    and "with_methods ms (with_libvirt_domain L lv os f) conn match req s \<noteq>
         with_methods ms (with_libvirt_domain L lv os g) conn match req s"
  shows "rq_method req \<in> set ms \<and> rq_method req \<noteq> Options \<and>
    fst (sys_getpwnam os (c_str (sub_match match 1)) (sv_world s)) \<and>
    (\<exists>d s1 s'. on_conn (sub_match match 1) (\<lambda>c. connection_domain lv c (sub_match match 2)) s1 = (Ok d, s') \<and>
       slot_open (sub_match match 1) (sv_pool s') \<and> pool_ok (sv_pool s') \<and>
       with_methods ms (with_libvirt_domain L lv os f) conn match req s = f (sub_match match 1) d conn match req s')"
proof -
  let ?s1 = "s\<lparr>sv_response := set_field Allow (allow_header ms) (sv_response s)\<rparr>"
  from assms(2) have m: "rq_method req \<in> set ms" "rq_method req \<noteq> Options"
    by (auto simp: with_methods_def act_simps allowed_methods_def split: if_splits)
  then have run: "with_methods ms (with_libvirt_domain L lv os h) conn match req s =
      with_libvirt_domain L lv os h conn match req ?s1" for h
    by (simp add: with_methods_def act_simps allowed_methods_def)
  with assms(2) obtain ref d c s' where "check_domain L lv os (conn, match, req) ?s1 = Inr ((ref, d, c), s')"
    by (auto simp: with_libvirt_domain_check split: sum.splits)
  with check_domain_live [of ?s1, OF _ this] assms(1) m run show ?thesis
    by (auto simp: with_libvirt_domain_check)
qed

theorem guarded_view_runs_witness:
  "slot_open ''test'' (sv_pool (snd (with_methods [Post] (with_libvirt_domain lab_libs lab_libvirt counting_os
     (\<lambda>ref d conn match req. act_return ())) None [''/'', ''test'', ''vm''] (request_of Post []) (server_with 0))))"
proof -
  let ?run = "\<lambda>f. with_methods [Post] (with_libvirt_domain lab_libs lab_libvirt counting_os f) None
      [''/'', ''test'', ''vm''] (request_of Post []) (server_with 0)"
  have ok: "pool_ok (sv_pool (server_with (0 :: nat)))"
    by (auto simp: server_with_def pool_ok_def slot_ok_def open_connection_def connection_is_open_def
        sm_ok_def split: if_splits)
  have "fst (?run (\<lambda>ref d conn match req. act_return ())) = Ok ()" by code_simp
  moreover have "fst (?run (\<lambda>ref d conn match req. act_undef)) = Undef" by code_simp
  ultimately have "?run (\<lambda>ref d conn match req. act_return ()) \<noteq> ?run (\<lambda>ref d conn match req. act_undef)"
    by (metis outcome.distinct(3))
  from guarded_view_runs [OF ok this] show ?thesis by (auto simp: act_simps sub_match_def)
qed

text \<open>A request whose method the route does not have ends before the user is looked up or libvirt
  is asked anything: the state keeps everything but the response, which lists the methods in its
  Allow field, and is a 405 unless the method is OPTIONS.\<close>

theorem method_refused:
  assumes "rq_method req \<notin> set ms \<or> rq_method req = Options"
  shows "with_methods ms f conn match req s = (Ok (), s\<lparr>sv_response :=
      (if rq_method req = Options then id else set_result Method_Not_Allowed)
        (set_field Allow (allow_header ms) (sv_response s))\<rparr>)"
  using assms by (auto simp: with_methods_def act_simps allowed_methods_def)

theorem method_refused_witness:
  "rs_result (sv_response (snd (with_methods [Get] (\<lambda>conn match req. act_undef) None []
     (request_of Post []) (server_with (0 :: nat))))) = Method_Not_Allowed"
  using method_refused [of "request_of Post []" "[Get]" "\<lambda>conn match req. act_undef" None "[]" "server_with (0 :: nat)"]
  by (simp add: request_of_def)

text \<open>C31: when libvirt cannot be opened for the user, the request is answered with a 500, the view is
  not run, and the failed connection stays closed in the table, so that the next request tries to
  open it again.\<close>

theorem libvirt_unavailable:
  assumes "sys_getpwnam os (c_str (sub_match match 1)) (sv_world s) = (True, w)"
    and "\<not> slot_open (sub_match match 1) (sv_pool s)"
    and "virConnectOpen lv (c_str (uri (sub_match match 1))) w = (Ok None, w1)"
  shows "\<exists>s'. with_libvirt L lv os f conn match req s = (Ok (), s') \<and>
    rs_result (sv_response s') = Internal_Server_Error \<and>
    rs_body (sv_response s') = rs_body (sv_response s) @ stringify L (error ''Unable to connect to libvirt'') \<and>
    \<not> slot_open (sub_match match 1) (sv_pool s') \<and> sv_world s' = w1"
proof -
  let ?u = "sub_match match 1" and ?s1 = "s\<lparr>sv_world := w\<rparr>"
  let ?c = "new_connection\<lparr>vc_errno := os_errno os w1\<rparr>"
  have user: "check_user L os (conn, match, req) s = Inr ((conn, match, req), ?s1)"
    using assms(1) by (simp add: check_user_def)
  have "pool_get lv os ?u (sv_pool s, w) =
      (Throw (Runtime_Error (''error: '' @ os_strerror os (os_errno os w1) @ [CHR 0x0A])), (sm_put ?u ?c (sv_pool s), w1))"
    by (rule pool_get_fail_run [OF assms(2,3)])
  then have "on_sv_pool (pool_get lv os ?u) ?s1 =
      (Throw (Runtime_Error (''error: '' @ os_strerror os (os_errno os w1) @ [CHR 0x0A])),
       s\<lparr>sv_world := w1, sv_pool := sm_put ?u ?c (sv_pool s)\<rparr>)"
    by (simp add: on_sv_pool_def)
  then have "check_libvirt L lv os (conn, match, req) s = Inl (respond L (error ''Unable to connect to libvirt'')
      Internal_Server_Error (s\<lparr>sv_world := w1, sv_pool := sm_put ?u ?c (sv_pool s)\<rparr>))"
    by (simp add: check_libvirt_def user)
  then show ?thesis
    by (simp add: with_libvirt_check act_simps slot_open_put connection_is_open_def new_connection_def)
qed

theorem libvirt_unavailable_witness:
  "rs_result (sv_response (snd (with_libvirt lab_libs stub_libvirt counting_os (\<lambda>ref conn match req. act_undef)
     None [''/'', ''root''] (request_of Get []) (server_with 0)))) = Internal_Server_Error"
proof -
  have 1: "sys_getpwnam counting_os (c_str (sub_match [''/'', ''root''] 1)) (sv_world (server_with 0)) =
      (True, sv_world (server_with 0))"
    by (simp add: counting_os_def)
  have 2: "\<not> slot_open (sub_match [''/'', ''root''] 1) (sv_pool (server_with (0 :: nat)))"
    by (simp add: slot_open_def server_with_def sub_match_def)
  have 3: "virConnectOpen stub_libvirt u w = (Ok None, w)" for u w
    by (simp add: virConnectOpen_def stub_libvirt_def stub_with_def act_return_def)
  from libvirt_unavailable [OF 1 2 3, of lab_libs "\<lambda>ref conn match req. act_undef" None "request_of Get []"]
  show ?thesis by auto
qed

end
