(* ===== verification/Router.thy ===== *)
theory Router
  imports Middleware
begin

text \<open>
  \<open>http/router.cpp\<close>: the table of routes, and how a request is dispatched: the first pattern in key
  order that matches the target wins; its function runs under a retry of five; whatever it throws
  becomes a response; a line of the access log ends the request.
\<close>

section \<open>The table\<close>

record 'w router =
  ro_routes :: "(string, 'w route_function) std_map"
  ro_regex :: "(string, regex) std_map"

definition empty_router :: "'w router" where
  "empty_router = \<lparr>ro_routes = [], ro_regex = []\<rparr>"

definition route :: "string \<Rightarrow> 'w route_function \<Rightarrow> 'w router \<Rightarrow> 'w router" where
  "route request_uri fn r = \<lparr>ro_routes = sm_put request_uri fn (ro_routes r),
     ro_regex = sm_put request_uri (regex_of request_uri) (ro_regex r)\<rparr>"

definition router_ok :: "'w router \<Rightarrow> bool" where
  "router_ok r \<longleftrightarrow> sm_ok (ro_routes r) \<and> sm_ok (ro_regex r) \<and>
     (\<forall>k. sm_find k (ro_regex r) = (if sm_find k (ro_routes r) = None then None else Some (regex_of k)))"

lemma router_ok_empty [simp]: "router_ok empty_router"
  by (simp add: router_ok_def empty_router_def)

lemma router_ok_route [simp]: "router_ok r \<Longrightarrow> router_ok (route k f r)"
  by (auto simp: router_ok_def route_def sm_find_put)

section \<open>Dispatch\<close>

text \<open>The loop over the routes; \<open>regex_.at\<close> throws for a route without a regex.\<close>

fun find_route ::
    "(string, regex) std_map \<Rightarrow> string \<Rightarrow> (string \<times> 'f) list \<Rightarrow> ('f \<times> smatch) option outcome" where
  "find_route regexes request_uri [] = Ok None"
| "find_route regexes request_uri ((key, fn) # routes) =
     outcome_bind (sm_at key regexes) (\<lambda>re.
       case regex_match re request_uri of
         Some match \<Rightarrow> Ok (Some (fn, match))
       | None \<Rightarrow> find_route regexes request_uri routes)"

text \<open>
  One attempt: the response starts afresh, and the HTTP connection is moved into the route function,
  so that the pointer the lambda captured is null from then on.
\<close>

definition route_attempt ::
    "'w route_function \<Rightarrow> smatch \<Rightarrow> request \<Rightarrow> (http_id option \<times> 'w server, unit) act" where
  "route_attempt fn match req = (\<lambda>(http_conn, s).
     let (r, s') = fn http_conn match req (s\<lparr>sv_response := new_response\<rparr>) in (r, (None, s')))"

definition run_route ::
    "libs \<Rightarrow> 'w route_function \<Rightarrow> smatch \<Rightarrow> http_id option \<Rightarrow> request \<Rightarrow> ('w server, unit) act" where
  "run_route L fn match http_conn req = (\<lambda>s.
     case retry_call (route_attempt fn match req) (retries 5 retry_init) (http_conn, s) of
       (Throw e, _, (_, s')) \<Rightarrow> respond L (error (what e)) Internal_Server_Error s'
     | (r, _, (_, s')) \<Rightarrow> (r, s'))"

definition not_found :: "libs \<Rightarrow> request \<Rightarrow> ('w server, unit) act" where
  "not_found L req =
     (let res = (if rq_method req \<noteq> Options then stringify L (error ''Not Found'') else [])
      in modify_response (set_response res Not_Found))"

definition log_access :: "request \<Rightarrow> ('w server, unit) act" where
  "log_access req = act_modify (\<lambda>s.
     let response = sv_response s;
         status_code = result_int (rs_result response);
         level = (if status_code \<ge> 400 then Log_Error else Log_Info)
     in s\<lparr>sv_log := sv_log s @ [(level,
          \<lparr>ac_method = method_string (rq_method req), ac_target = rq_target req,
           ac_major = rs_version response div 10, ac_minor = rs_version response mod 10,
           ac_status = status_code, ac_size = length (rs_body response)\<rparr>)]\<rparr>)"

definition router_run :: "libs \<Rightarrow> 'w router \<Rightarrow> http_id option \<Rightarrow> request \<Rightarrow> ('w server, unit) act" where
  "router_run L r http_conn req =
     act_then (modify_response (set_field Content_Type ''application/json''))
     (act_then (modify_response (set_result Status_Ok))
     (act_bind (act_lift (find_route (ro_regex r) (rq_target req) (ro_routes r))) (\<lambda>next.
      act_then (case next of
          None \<Rightarrow> not_found L req
        | Some (fn, match) \<Rightarrow> run_route L fn match http_conn req)
      (log_access req))))"

section \<open>Finding the route\<close>

definition matches :: "string \<Rightarrow> string \<Rightarrow> bool" where
  "matches key request_uri \<longleftrightarrow> regex_match (regex_of key) request_uri \<noteq> None"

lemma find_route_None:
  assumes "\<forall>(k, f) \<in> set routes. sm_find k regexes = Some (regex_of k) \<and> \<not> matches k u"
  shows "find_route regexes u routes = Ok None"
  using assms
proof (induction routes)
  case (Cons p routes)
  obtain k f where "p = (k, f)" by force
  with Cons show ?case by (simp add: sm_at_def matches_def)
qed simp

lemma find_route_total:
  assumes "\<forall>(k, f) \<in> set routes. sm_find k regexes = Some (regex_of k)"
  shows "\<exists>x. find_route regexes u routes = Ok x"
  using assms
proof (induction routes)
  case (Cons p routes)
  obtain k f where "p = (k, f)" by force
  with Cons show ?case by (cases "regex_match (regex_of k) u") (simp_all add: sm_at_def)
qed simp

lemma find_route_Some:
  assumes "\<forall>(k, f) \<in> set routes. sm_find k regexes = Some (regex_of k)"
    and "find_route regexes u routes = Ok (Some (fn, m))"
  shows "\<exists>k. (k, fn) \<in> set routes \<and> regex_match (regex_of k) u = Some m"
  using assms
proof (induction routes)
  case (Cons p routes)
  obtain k f where p: "p = (k, f)" by force
  show ?case
  proof (cases "regex_match (regex_of k) u")
    case None
    with Cons p have "\<exists>k. (k, fn) \<in> set routes \<and> regex_match (regex_of k) u = Some m"
      by (simp add: sm_at_def)
    then show ?thesis by auto
  next
    case (Some m')
    with Cons.prems p show ?thesis by (auto simp: sm_at_def)
  qed
qed simp

lemma find_route_unique:
  assumes "\<forall>(k, f) \<in> set routes. sm_find k regexes = Some (regex_of k)"
    and "(k, fn) \<in> set routes" "regex_match (regex_of k) u = Some m"
    and "\<And>k' f. (k', f) \<in> set routes \<Longrightarrow> matches k' u \<Longrightarrow> k' = k \<and> f = fn"
  shows "find_route regexes u routes = Ok (Some (fn, m))"
  using assms
proof (induction routes)
  case (Cons p routes)
  obtain k' f where p: "p = (k', f)" by force
  show ?case
  proof (cases "matches k' u")
    case True
    then have "k' = k" "f = fn" using Cons.prems(4) [of k' f] p by auto
    with Cons.prems(1,3) p show ?thesis by (simp add: sm_at_def)
  next
    case False
    then have "(k, fn) \<in> set routes" using Cons.prems(2,3) p by (auto simp: matches_def)
    moreover have "find_route regexes u (p # routes) = find_route regexes u routes"
      using False Cons.prems(1) p by (simp add: sm_at_def matches_def)
    moreover have "find_route regexes u routes = Ok (Some (fn, m))"
      by (rule Cons.IH) (use Cons.prems calculation in auto)
    ultimately show ?thesis by simp
  qed
qed simp

lemma router_regexes:
  assumes "router_ok r"
  shows "\<forall>(k, f) \<in> set (ro_routes r). sm_find k (ro_regex r) = Some (regex_of k)"
proof -
  have "sm_find k (ro_routes r) = Some f" if "(k, f) \<in> set (ro_routes r)" for k f
    using assms that by (intro sm_find_ok) (auto simp: router_ok_def)
  then show ?thesis using assms by (force simp: router_ok_def)
qed

section \<open>Running a route\<close>

lemma log_access_run:
  "log_access req s = (Ok (), s\<lparr>sv_log := sv_log s @ [(
      if result_int (rs_result (sv_response s)) \<ge> 400 then Log_Error else Log_Info,
      \<lparr>ac_method = method_string (rq_method req), ac_target = rq_target req,
       ac_major = rs_version (sv_response s) div 10, ac_minor = rs_version (sv_response s) mod 10,
       ac_status = result_int (rs_result (sv_response s)), ac_size = length (rs_body (sv_response s))\<rparr>)]\<rparr>)"
  by (simp add: log_access_def act_modify_def Let_def)

lemma run_route_no_throw: "fst (run_route L fn match hc req s) \<noteq> Throw e"
  by (auto simp: run_route_def act_simps split: prod.split outcome.split)

lemma run_route_fresh: "run_route L fn match hc req (s\<lparr>sv_response := r\<rparr>) = run_route L fn match hc req s"
proof -
  have "route_attempt fn match req (hc, s\<lparr>sv_response := r\<rparr>) = route_attempt fn match req (hc, s)"
    by (simp add: route_attempt_def)
  then have "retry_call (route_attempt fn match req) (retries 5 retry_init) (hc, s\<lparr>sv_response := r\<rparr>) =
      retry_call (route_attempt fn match req) (retries 5 retry_init) (hc, s)"
    by (subst (1 2) retry_call.simps) simp
  then show ?thesis by (simp add: run_route_def)
qed

lemma run_route_keeps:
  assumes "\<And>hc. act_keeps P (fn hc match req)" and "\<And>s r. P s \<Longrightarrow> P (s\<lparr>sv_response := r\<rparr>)"
  shows "act_keeps P (run_route L fn match hc req)"
proof (rule act_keepsI)
  fix s assume s: "P s"
  have "act_keeps (\<lambda>(hc, s). P s) (route_attempt fn match req)"
  proof (rule act_keepsI)
    fix p :: "http_id option \<times> 'a server" assume "case p of (hc, s) \<Rightarrow> P s"
    then obtain hc s where p: "p = (hc, s)" and "P s" by (cases p) auto
    then have "P (s\<lparr>sv_response := new_response\<rparr>)" by (simp add: assms(2))
    from act_keepsD [OF assms(1) this] show "case snd (route_attempt fn match req p) of (hc, s) \<Rightarrow> P s"
      by (simp add: route_attempt_def case_prod_beta p)
  qed
  from retry_call_keeps [OF this, of "(hc, s)" "retries 5 retry_init"] s
  have "P (snd (snd (snd (retry_call (route_attempt fn match req) (retries 5 retry_init) (hc, s)))))"
    by (auto simp: case_prod_beta)
  then show "P (snd (run_route L fn match hc req s))"
    using assms(2) by (auto simp: run_route_def act_simps split: prod.split outcome.split)
qed

lemma router_run_found:
  assumes "find_route (ro_regex r) (rq_target req) (ro_routes r) = Ok (Some (fn, m))"
  shows "router_run L r hc req s = act_then (run_route L fn m hc req) (log_access req) s"
proof -
  let ?t = "s\<lparr>sv_response := set_result Status_Ok (set_field Content_Type ''application/json'' (sv_response s))\<rparr>"
  have "router_run L r hc req s = act_then (run_route L fn m hc req) (log_access req) ?t"
    using assms by (simp add: router_run_def act_simps)
  also have "\<dots> = act_then (run_route L fn m hc req) (log_access req) s"
    by (simp add: act_then_def act_bind_def run_route_fresh)
  finally show ?thesis .
qed

section \<open>What a request gets\<close>

lemma run_route_defined:
  assumes "\<And>hc s. fst (fn hc match req s) \<noteq> Undef \<and> fst (fn hc match req s) \<noteq> Hang"
  shows "\<exists>s'. run_route L fn match hc req s = (Ok (), s')"
proof -
  have "fst (route_attempt fn match req p) \<noteq> Undef \<and> fst (route_attempt fn match req p) \<noteq> Hang" for p
    using assms by (cases p) (simp add: route_attempt_def case_prod_beta)
  from retry_call_defined [of "route_attempt fn match req", OF this, of "retries 5 retry_init" "(hc, s)"]
  show ?thesis by (auto simp: run_route_def act_simps split: prod.split outcome.split)
qed

definition log_line :: "request \<Rightarrow> response \<Rightarrow> log_level \<times> access" where
  "log_line req response = (if result_int (rs_result response) \<ge> 400 then Log_Error else Log_Info,
     \<lparr>ac_method = method_string (rq_method req), ac_target = rq_target req,
      ac_major = rs_version response div 10, ac_minor = rs_version response mod 10,
      ac_status = result_int (rs_result response), ac_size = length (rs_body response)\<rparr>)"


text \<open>A target no pattern matches is answered with a 404 whose body says so, unless the method is
  OPTIONS, when the body is empty.\<close>

theorem router_no_route:
  assumes "router_ok r" and "\<And>k fn. (k, fn) \<in> set (ro_routes r) \<Longrightarrow> \<not> matches k (rq_target req)"
  shows "\<exists>s'. router_run L r hc req s = (Ok (), s') \<and> rs_result (sv_response s') = Not_Found \<and>
    rs_fields (sv_response s') Content_Type = Some ''application/json'' \<and>
    rs_body (sv_response s') = rs_body (sv_response s) @
      (if rq_method req = Options then [] else stringify L (error ''Not Found''))"
proof -
  have "find_route (ro_regex r) (rq_target req) (ro_routes r) = Ok None"
    using router_regexes [OF assms(1)] assms(2) by (intro find_route_None) auto
  then show ?thesis
    by (simp add: router_run_def act_simps not_found_def log_access_run)
qed

text \<open>Once a route matches, the response depends on the route alone: whatever the response held
  before, the header fields, the HTTP version and the keep-alive flag among it, is discarded.\<close>

theorem router_discards_response:
  assumes "find_route (ro_regex r) (rq_target req) (ro_routes r) = Ok (Some (fn, m))"
  shows "router_run L r hc req (s\<lparr>sv_response := r1\<rparr>) = router_run L r hc req (s\<lparr>sv_response := r2\<rparr>)"
  unfolding router_run_found [OF assms] by (simp add: act_then_def act_bind_def run_route_fresh)


text \<open>Witnesses: a router with one route.\<close>

definition one_route :: "'w route_function \<Rightarrow> 'w router" where
  "one_route f = route ''^/host/$'' f empty_router"

lemma one_route_simps:
  "router_ok (one_route f)" "ro_routes (one_route f) = [(''^/host/$'', f)]"
  by (simp_all add: one_route_def) (simp add: route_def empty_router_def)

lemma one_route_found: "find_route (ro_regex (one_route f)) ''/host/'' (ro_routes (one_route f)) = Ok (Some (f, [''/host/'']))"
proof -
  have "regex_match (regex_of ''^/host/$'') ''/host/'' = Some [''/host/'']" by code_simp
  then show ?thesis by (simp add: one_route_def route_def empty_router_def sm_at_def)
qed

definition ok_route :: "'w route_function" where
  "ok_route hc match req = act_return ()"

definition closed_route :: "'w route_function" where
  "closed_route hc match req = act_throw (Retry_Error ''libvirt connection closed'')"


theorem router_no_route_witness:
  "\<exists>s'. router_run lab_libs empty_router (Some 1) (request_of Get ''/nowhere/'') (server_with (0 :: nat)) = (Ok (), s') \<and>
     rs_result (sv_response s') = Not_Found"
  using router_no_route [of empty_router "request_of Get ''/nowhere/''" lab_libs "Some 1" "server_with (0 :: nat)"]
  by (auto simp: empty_router_def router_ok_def)

theorem router_discards_response_witness:
  "router_run lab_libs (one_route ok_route) (Some 1) (request_of Get ''/host/'')
     ((server_with (0 :: nat))\<lparr>sv_response := set_field Content_Type ''text/plain'' new_response\<rparr>) =
   router_run lab_libs (one_route ok_route) (Some 1) (request_of Get ''/host/'')
     ((server_with 0)\<lparr>sv_response := new_response\<rparr>)"
  by (rule router_discards_response) (simp add: request_of_def one_route_found)

lemma closed_route_attempts:
  "attempt (route_attempt closed_route m req) i p = Throw (Retry_Error ''libvirt connection closed'')"
  by (cases "after_attempts (route_attempt closed_route m req) i p")
     (simp add: attempt_def route_attempt_def closed_route_def act_simps)


section \<open>Retrying on a closed connection\<close>

text \<open>A call of the user's routes that ends by asking for a retry leaves the user's connection closed.\<close>

definition retry_closes :: "string \<Rightarrow> ('w server, 'a) act \<Rightarrow> bool" where
  "retry_closes u m \<longleftrightarrow> (\<forall>s msg s'. m s = (Throw (Retry_Error msg), s') \<longrightarrow> \<not> slot_open u (sv_pool s'))"

named_theorems closes \<open>calls that close the connection when they ask for a retry\<close>

lemma closes_on_conn [closes]: "retry_closes u (on_conn u m)"
  by (auto simp: retry_closes_def on_conn_def slot_open_put connection_is_open_def close_func_def act_simps
      split: option.splits prod.splits outcome.splits if_splits)

lemma closes_on_domain [closes]: "retry_closes u (on_domain u m)"
  unfolding on_domain_def by (rule closes_on_conn)

lemma closes_simple [closes]:
  "retry_closes u (respond L j st)" "retry_closes u (modify_response f)" "retry_closes u (act_return a)"
  "retry_closes u act_undef" "retry_closes u (act_read g)"
  by (auto simp: retry_closes_def act_simps)

lemma closes_lift: "(\<And>msg. r \<noteq> Throw (Retry_Error msg)) \<Longrightarrow> retry_closes u (act_lift r)"
  by (auto simp: retry_closes_def act_simps)

lemma closes_bind [closes]:
  "retry_closes u m \<Longrightarrow> (\<And>a. retry_closes u (f a)) \<Longrightarrow> retry_closes u (act_bind m f)"
  by (auto simp: retry_closes_def act_bind_def split: prod.splits outcome.splits)

lemma closes_then [closes]: "retry_closes u m \<Longrightarrow> retry_closes u n \<Longrightarrow> retry_closes u (act_then m n)"
  by (simp add: act_then_def closes_bind)

lemma closes_catch [closes]:
  "retry_closes u m \<Longrightarrow> (\<And>e. retry_closes u (h e)) \<Longrightarrow> retry_closes u (act_catch p m h)"
  by (auto simp: retry_closes_def act_catch_def split: prod.splits outcome.splits if_splits)

lemma closes_if [closes]: "retry_closes u m \<Longrightarrow> retry_closes u n \<Longrightarrow> retry_closes u (if b then m else n)"
  by simp

lemma closes_map [closes]: "(\<And>x. retry_closes u (f x)) \<Longrightarrow> retry_closes u (act_map f xs)"
  by (induction xs) (auto intro: closes)

lemma closes_option [closes]:
  "retry_closes u m \<Longrightarrow> (\<And>x. retry_closes u (f x)) \<Longrightarrow> retry_closes u (case y of None \<Rightarrow> m | Some x \<Rightarrow> f x)"
  by (simp split: option.split)

text \<open>The JSON library does not throw the program's own exception.\<close>

definition libs_no_retry :: "libs \<Rightarrow> bool" where
  "libs_no_retry L \<longleftrightarrow> (\<forall>j msg. lib_as_string L j \<noteq> Throw (Retry_Error msg))"

lemma j_get_no_retry: "j_get j k d \<noteq> Throw (Retry_Error msg)"
  by (cases "(j, k, d)" rule: j_get.cases) auto

lemma closes_update_metadata:
  "libs_no_retry L \<Longrightarrow> retry_closes u (update_metadata L lv u d data ty name outp)"
  unfolding update_metadata_def libs_no_retry_def
  by (intro closes_bind closes_on_domain closes_lift closes_if closes_simple j_get_no_retry) auto

lemma closes_metadata_view:
  assumes "libs_no_retry L"
  shows "retry_closes u (domains_metadata L lv u d hc match req)"
proof -
  have "retry_closes u (change_metadata L lv u d data)" for data
    unfolding change_metadata_def
    by (intro closes_bind closes_then closes_if closes_simple closes_update_metadata assms)
  then show ?thesis
    by (cases "lib_reader_parse L (c_str (rq_body req))")
       (simp_all add: domains_metadata_def parse_def closes)
qed

lemma closes_views:
  "retry_closes u (domains_index L lv u hc match req)" "retry_closes u (host_show L lv u hc match req)"
  "retry_closes u (host_networks L lv u hc match req)" "retry_closes u (domains_show L lv u d hc match req)"
  "retry_closes u (domains_autostart L lv u d hc match req)" "retry_closes u (domains_bootmenu L lv u d hc match req)"
  "retry_closes u (domains_start L lv u d hc match req)" "retry_closes u (domains_shutdown conf L lv os u d hc match req)"
  unfolding domains_index_def host_show_def host_networks_def domains_show_def domains_autostart_def
    domains_bootmenu_def domains_start_def domains_shutdown_def Let_def
  by (intro closes_bind closes_catch closes_then closes_if closes_map closes_option closes_on_conn
      closes_on_domain closes_simple)+

lemma pool_get_ref:
  assumes "pool_get lv os user (pool, w) = (Ok ref, s')"
  shows "ref = user"
proof (cases "slot_open user pool")
  case True
  then show ?thesis using assms by (simp add: pool_get_open)
next
  case False
  obtain q c w1 where "connect lv os user (new_connection, w) = (q, (c, w1))" by (metis prod_cases3)
  with False assms show ?thesis by (cases q) (auto simp: pool_get_closed)
qed

lemma check_libvirt_ref:
  assumes "check_libvirt L lv os (conn, match, req) s = Inr ((ref, c), s')"
  shows "ref = sub_match match 1"
proof -
  from assms obtain s1 where "on_sv_pool (pool_get lv os (sub_match match 1)) s1 = (Ok ref, s')"
    by (auto simp: check_libvirt_def split: sum.splits prod.splits outcome.splits if_splits dest: check_user_Inr)
  then show ?thesis by (auto simp: on_sv_pool_def Let_def split: prod.splits intro: pool_get_ref)
qed

lemma check_user_no_retry: "check_user L os c s \<noteq> Inl (Throw e, s')"
  by (auto simp: check_user_def Let_def act_simps split: prod.splits if_splits)

lemma check_libvirt_no_retry: "check_libvirt L lv os c s \<noteq> Inl (Throw (Retry_Error msg), s')"
  by (auto simp: check_libvirt_def act_simps check_user_no_retry split: sum.splits prod.splits outcome.splits if_splits)

lemma closes_with_libvirt:
  assumes "retry_closes (sub_match match 1) (f (sub_match match 1) hc match req)"
    and "with_methods ms (with_libvirt L lv os f) hc match req s = (Throw (Retry_Error msg), s')"
  shows "\<not> slot_open (sub_match match 1) (sv_pool s')"
proof -
  from assms(2) obtain s0 where s0: "with_libvirt L lv os f hc match req s0 = (Throw (Retry_Error msg), s')"
    by (auto simp: with_methods_def act_simps split: if_splits)
  then obtain p where p: "check_libvirt L lv os (hc, match, req) s0 = Inr p"
    using check_libvirt_no_retry [of L lv os "(hc, match, req)" s0]
    by (cases "check_libvirt L lv os (hc, match, req) s0") (auto simp: with_libvirt_check)
  then obtain ref c s1 where "p = ((ref, c), s1)" by (cases p) auto
  with p s0 assms(1) check_libvirt_ref [of L lv os hc match req s0 ref c s1] show ?thesis
    by (auto simp: with_libvirt_check retry_closes_def)
qed

lemma closes_with_libvirt_domain:
  assumes "\<And>d. retry_closes (sub_match match 1) (f (sub_match match 1) d hc match req)"
    and "with_methods ms (with_libvirt_domain L lv os f) hc match req s = (Throw (Retry_Error msg), s')"
  shows "\<not> slot_open (sub_match match 1) (sv_pool s')"
proof (rule closes_with_libvirt [where f = "\<lambda>conn http_conn match req.
       act_bind
         (act_catch is_domain_error
           (act_bind (on_conn conn (\<lambda>c. connection_domain lv c (sub_match match 2))) (\<lambda>d. act_return (Some d)))
           (\<lambda>e. act_then (respond L (error ''Domain not found'') Not_Found) (act_return None)))
         (\<lambda>domain. case domain of
            None \<Rightarrow> act_return () | Some domain \<Rightarrow> f conn domain http_conn match req)"])
  show "with_methods ms (with_libvirt L lv os (\<lambda>conn http_conn match req.
       act_bind
         (act_catch is_domain_error
           (act_bind (on_conn conn (\<lambda>c. connection_domain lv c (sub_match match 2))) (\<lambda>d. act_return (Some d)))
           (\<lambda>e. act_then (respond L (error ''Domain not found'') Not_Found) (act_return None)))
         (\<lambda>domain. case domain of
            None \<Rightarrow> act_return () | Some domain \<Rightarrow> f conn domain http_conn match req)))
     hc match req s = (Throw (Retry_Error msg), s')"
    using assms(2) by (simp add: with_libvirt_domain_def Let_def)
qed (intro closes_bind closes_catch closes_then closes_option closes_on_conn closes_simple assms(1))


text \<open>The witness: the connection is found closed once, when the domain's id is asked for.\<close>

definition closing_libvirt :: "nat libvirt_c" where
  "closing_libvirt = lab_libvirt\<lparr>c_virDomainGetID := (\<lambda>d n.
     if n = 0 then (Throw (Retry_Error ''libvirt connection closed''), 1) else (Ok 1, n))\<rparr>"

definition start_route :: "nat route_function" where
  "start_route = with_methods [Post] (with_libvirt_domain lab_libs closing_libvirt counting_os
     (domains_start lab_libs closing_libvirt))"

lemma start_route_runs:
  "fst (start_route None [''/'', ''test'', ''vm''] (request_of Post []) (server_with 0)) =
     Throw (Retry_Error ''libvirt connection closed'')"
  "fst (start_route None [''/'', ''test'', ''vm''] (request_of Post [])
     ((snd (start_route None [''/'', ''test'', ''vm''] (request_of Post []) (server_with 0)))
       \<lparr>sv_response := new_response\<rparr>)) = Ok ()"
  by code_simp+


end
