(* ===== verification/Websocket.thy ===== *)
theory Websocket
  imports Server_State
begin

unbundle bit_operations_syntax

text \<open>
  \<open>ws/pool.cpp\<close>, \<open>virt/events.cpp\<close>, \<open>virt/event.cpp\<close> and \<open>virt/events/lifecycle.cpp\<close>: the table of
  open websockets by user, the libvirt event registrations, and what happens when a domain's life
  cycle event arrives.
\<close>

section \<open>The pool of websockets\<close>

definition ws_bucket :: "string \<Rightarrow> 'w server \<Rightarrow> ws_id list" where
  "ws_bucket user s = (case sm_find user (sv_websockets s) of Some v \<Rightarrow> v | None \<Rightarrow> [])"

definition ws_pool_add :: "string \<Rightarrow> ws_id \<Rightarrow> ('w server, unit) act" where
  "ws_pool_add user conn = act_modify (\<lambda>s.
     let (v, m) = sm_index [] user (sv_websockets s) in s\<lparr>sv_websockets := sm_put user (v @ [conn]) m\<rparr>)"

text \<open>The iterator \<open>find_if\<close> returns is erased as it is: the end iterator, if the connection is not there.\<close>

definition ws_pool_remove :: "string \<Rightarrow> ws_id \<Rightarrow> ('w server, unit) act" where
  "ws_pool_remove user conn = (\<lambda>s.
     let (v, m) = sm_index [] user (sv_websockets s) in
     if conn \<in> set v then (Ok (), s\<lparr>sv_websockets := sm_put user (remove1 conn v) m\<rparr>)
     else (Undef, s\<lparr>sv_websockets := m\<rparr>))"

definition ws_pool_index :: "string \<Rightarrow> ('w server, ws_id list) act" where
  "ws_pool_index key = (\<lambda>s.
     let (v, m) = sm_index [] key (sv_websockets s) in (Ok v, s\<lparr>sv_websockets := m\<rparr>))"

definition ws_write :: "string \<Rightarrow> ws_id \<Rightarrow> ('w server, unit) act" where
  "ws_write str ws = act_modify (\<lambda>s. s\<lparr>sv_written := sv_written s @ [(ws, str)]\<rparr>)"

definition ws_pool_broadcast :: "libs \<Rightarrow> string \<Rightarrow> json \<Rightarrow> ('w server, unit) act" where
  "ws_pool_broadcast L user data =
     act_bind (ws_pool_index user) (\<lambda>conns. act_for (ws_write (stringify L data)) conns)"

section \<open>Events\<close>

text \<open>
  The base class: a reference to the connection and the id of the callback, -1 until registered. The
  destructor deregisters whatever id it has, on the connection the reference leads to now; an
  exception would leave a destructor, which ends the program.
\<close>

definition event_new :: "string \<Rightarrow> string \<Rightarrow> event" where
  "event_new conn user = \<lparr>ev_conn = conn, ev_callback_id = -1, ev_user = user, ev_registered = None\<rparr>"

definition event_destroy :: "'w libvirt_c \<Rightarrow> event \<Rightarrow> ('w server, unit) act" where
  "event_destroy lv ev =
     act_catch (\<lambda>e. True)
       (act_bind (on_conn (ev_conn ev)
          (\<lambda>c. virConnectDomainEventDeregisterAny lv (vc_ptr c) (ev_callback_id ev))) (\<lambda>rc. act_return ()))
       (\<lambda>e. act_undef)"

definition register_event :: "'w libvirt_c \<Rightarrow> int \<Rightarrow> event \<Rightarrow> ('w server, event) act" where
  "register_event lv event_id ev =
     act_bind (on_conn (ev_conn ev) (\<lambda>c. virConnectDomainEventRegisterAny lv (vc_ptr c) event_id)) (\<lambda>callback_id.
     act_bind (on_conn (ev_conn ev) (\<lambda>c. act_return (vc_ptr c))) (\<lambda>ptr.
     if callback_id = -1
     then act_throw (Runtime_Error ''Event registration failed'')
     else act_return (ev\<lparr>ev_callback_id := callback_id, ev_registered := ptr\<rparr>)))"

text \<open>
  The constructor of a life cycle event. When registering throws, the base class is destroyed: its
  \<open>callback_id_\<close> is -1 whether or not a result was assigned to it.
\<close>

definition lifecycle_event_new :: "'w libvirt_c \<Rightarrow> string \<Rightarrow> string \<Rightarrow> ('w server, event) act" where
  "lifecycle_event_new lv conn user =
     act_catch (\<lambda>e. True)
       (register_event lv VIR_DOMAIN_EVENT_ID_LIFECYCLE (event_new conn user))
       (\<lambda>e. act_then (event_destroy lv (event_new conn user)) (act_throw e))"

text \<open>
  The collection of a user's events: \<open>set\<close> is an \<open>emplace\<close>, so that an event set under a key that is
  taken is destroyed instead of stored.
\<close>

definition events_set :: "'w libvirt_c \<Rightarrow> int \<Rightarrow> event \<Rightarrow> events \<Rightarrow> ('w server, events) act" where
  "events_set lv key ev evs = (case sm_find key evs of
      None \<Rightarrow> act_return (sm_put key ev evs)
    | Some _ \<Rightarrow> act_then (event_destroy lv ev) (act_return evs))"

definition events_get :: "int \<Rightarrow> events \<Rightarrow> event outcome" where
  "events_get event_id evs = sm_at event_id evs"

definition events_emplace :: "'w libvirt_c \<Rightarrow> int \<Rightarrow> string \<Rightarrow> string \<Rightarrow> events \<Rightarrow> ('w server, events) act" where
  "events_emplace lv key conn user evs = events_set lv key (event_new conn user) evs"

definition events_remove :: "'w libvirt_c \<Rightarrow> int \<Rightarrow> events \<Rightarrow> ('w server, events) act" where
  "events_remove lv key evs =
     act_bind (act_lift (sm_erase_found key evs)) (\<lambda>evs'.
     act_then (case sm_find key evs of Some ev \<Rightarrow> event_destroy lv ev | None \<Rightarrow> act_return ())
       (act_return evs'))"

definition events_size :: "events \<Rightarrow> nat" where
  "events_size evs = sm_size evs"

text \<open>The library's event loop: registering the implementation, and one iteration.\<close>

definition register_impl :: "'w libvirt_c \<Rightarrow> ('w, int) act" where
  "register_impl lv =
     act_bind (virEventRegisterDefaultImpl lv) (\<lambda>rc.
     if rc = -1 then act_return (-1) else virEventAddTimeout lv 20)"

definition run_one :: "'w libvirt_c \<Rightarrow> ('w, int) act" where
  "run_one lv = virEventRunDefaultImpl lv"

section \<open>Life cycle events\<close>

definition TARGET_LIFECYCLE_EVENTS :: "32 word" where
  "TARGET_LIFECYCLE_EVENTS =
     push_bit VIR_DOMAIN_EVENT_STARTED 1 OR push_bit VIR_DOMAIN_EVENT_SHUTDOWN 1 OR
     push_bit VIR_DOMAIN_EVENT_STOPPED 1"

text \<open>The lambda \<open>app::add_events\<close> gives the event: it captured the user's name.\<close>

definition on_lifecycle :: "libs \<Rightarrow> 'w libvirt_c \<Rightarrow> string \<Rightarrow> string \<Rightarrow> domain_ptr \<Rightarrow> int \<Rightarrow> ('w server, unit) act" where
  "on_lifecycle L lv conn user domain type =
     act_bind (act_lift (state_in type TARGET_LIFECYCLE_EVENTS)) (\<lambda>wanted.
     if wanted
     then act_bind (on_domain conn (simple_domain lv domain)) (\<lambda>data. ws_pool_broadcast L user data)
     else act_return ())"

definition on_event_handler :: "libs \<Rightarrow> 'w libvirt_c \<Rightarrow> event \<Rightarrow> domain_ptr \<Rightarrow> int \<Rightarrow> ('w server, unit) act" where
  "on_event_handler L lv ev dptr type =
     act_bind (on_domain (ev_conn ev) (virDomainRef lv dptr)) (\<lambda>rc.
     on_lifecycle L lv (ev_conn ev) (ev_user ev) dptr type)"

section \<open>Lemmas\<close>

lemma ws_bucket_index: "fst (sm_index [] user (sv_websockets s)) = ws_bucket user s"
  by (simp add: ws_bucket_def fst_sm_index)

lemma ws_bucket_snd_index:
  "(case sm_find u (snd (sm_index [] user m)) of Some v \<Rightarrow> v | None \<Rightarrow> []) = (case sm_find u m of Some v \<Rightarrow> v | None \<Rightarrow> [])"
  by (auto simp: sm_find_index split: option.split)

lemma ws_pool_add_run:
  "\<exists>m. ws_pool_add user conn s = (Ok (), s\<lparr>sv_websockets := m\<rparr>) \<and>
     (\<forall>u. ws_bucket u (s\<lparr>sv_websockets := m\<rparr>) = (if u = user then ws_bucket user s @ [conn] else ws_bucket u s))"
  by (auto simp: ws_pool_add_def act_modify_def Let_def case_prod_beta ws_bucket_def sm_find_put fst_sm_index
      sm_find_index split: option.split)

lemma ws_pool_remove_run:
  assumes "conn \<in> set (ws_bucket user s)"
  shows "\<exists>m. ws_pool_remove user conn s = (Ok (), s\<lparr>sv_websockets := m\<rparr>) \<and>
     (\<forall>u. ws_bucket u (s\<lparr>sv_websockets := m\<rparr>) = (if u = user then remove1 conn (ws_bucket user s) else ws_bucket u s))"
  using assms
  by (auto simp: ws_pool_remove_def Let_def case_prod_beta ws_bucket_def sm_find_put fst_sm_index
      sm_find_index split: option.splits)

lemma ws_pool_remove_missing:
  assumes "conn \<notin> set (ws_bucket user s)"
  shows "fst (ws_pool_remove user conn s) = Undef"
  using assms by (simp add: ws_pool_remove_def Let_def case_prod_beta ws_bucket_index)

lemma ws_pool_index_run:
  "\<exists>m. ws_pool_index user s = (Ok (ws_bucket user s), s\<lparr>sv_websockets := m\<rparr>) \<and>
     (\<forall>u. ws_bucket u (s\<lparr>sv_websockets := m\<rparr>) = ws_bucket u s)"
  by (rule exI [of _ "snd (sm_index [] user (sv_websockets s))"])
     (auto simp: ws_pool_index_def Let_def case_prod_beta ws_bucket_def fst_sm_index
      sm_find_index split: option.split)

lemma act_for_ws_write:
  "act_for (ws_write str) conns s = (Ok (), s\<lparr>sv_written := sv_written s @ map (\<lambda>c. (c, str)) conns\<rparr>)"
  by (induction conns arbitrary: s) (simp_all add: ws_write_def act_simps)

text \<open>A broadcast writes the text of the value to every websocket of the user, once each and in the
  order they were added, to no websocket of anybody else, and leaves every user's list as it is.\<close>

theorem broadcast_reaches_user:
  "\<exists>m. ws_pool_broadcast L user data s = (Ok (), s\<lparr>sv_websockets := m,
       sv_written := sv_written s @ map (\<lambda>c. (c, stringify L data)) (ws_bucket user s)\<rparr>) \<and>
     (\<forall>u. ws_bucket u (s\<lparr>sv_websockets := m\<rparr>) = ws_bucket u s)"
proof -
  obtain m where "ws_pool_index user s = (Ok (ws_bucket user s), s\<lparr>sv_websockets := m\<rparr>)"
    "\<forall>u. ws_bucket u (s\<lparr>sv_websockets := m\<rparr>) = ws_bucket u s"
    using ws_pool_index_run by blast
  then show ?thesis
    by (intro exI [of _ m]) (simp add: ws_pool_broadcast_def act_simps act_for_ws_write)
qed

text \<open>Which events are passed on.\<close>

lemma lifecycle_targets:
  assumes "0 \<le> type" "type < 9"
  shows "state_in type TARGET_LIFECYCLE_EVENTS = Ok (type = 2 \<or> type = 5 \<or> type = 6)"
proof -
  have "type = 0 \<or> type = 1 \<or> type = 2 \<or> type = 3 \<or> type = 4 \<or> type = 5 \<or> type = 6 \<or> type = 7 \<or> type = 8"
    using assms by arith
  then show ?thesis
    by (elim disjE) (simp_all add: state_in_def TARGET_LIFECYCLE_EVENTS_def virt_consts)
qed

text \<open>Of the nine kinds of life cycle events, exactly started, stopped and shut down are passed on:
  the user's websockets get the domain as the list view shows it; of any other nothing is written
  and the domain is not even looked at.\<close>

theorem lifecycle_notifies:
  assumes "0 \<le> type" "type < 9" and "sm_find (ev_conn ev) (sv_pool s) = Some c"
    and "virDomainRef lv dptr (sv_world s) = (Ok rc, w)"
    and "simple_domain lv dptr w = (Ok data, w1)"
  shows "\<exists>s'. on_event_handler L lv ev dptr type s = (Ok (), s') \<and>
    sv_written s' = sv_written s @ (if type = 2 \<or> type = 5 \<or> type = 6
      then map (\<lambda>ws. (ws, stringify L data)) (ws_bucket (ev_user ev) s) else []) \<and>
    sv_world s' = (if type = 2 \<or> type = 5 \<or> type = 6 then w1 else w)"
proof -
  let ?s1 = "s\<lparr>sv_world := w\<rparr>"
  have ref: "on_domain (ev_conn ev) (virDomainRef lv dptr) s = (Ok rc, ?s1)"
    using on_domain_Ok [where m = "virDomainRef lv dptr", OF assms(3,4)] .
  have dom: "on_domain (ev_conn ev) (simple_domain lv dptr) ?s1 = (Ok data, ?s1\<lparr>sv_world := w1\<rparr>)"
    using on_domain_Ok [where m = "simple_domain lv dptr" and s = ?s1 and ref = "ev_conn ev"] assms(3,5) by simp
  obtain m where m: "ws_pool_index (ev_user ev) (s\<lparr>sv_world := w1\<rparr>) =
      (Ok (ws_bucket (ev_user ev) s), s\<lparr>sv_world := w1, sv_websockets := m\<rparr>)"
    using ws_pool_index_run [of "ev_user ev" "s\<lparr>sv_world := w1\<rparr>"] by (auto simp: ws_bucket_def)
  show ?thesis
    by (auto simp: on_event_handler_def act_simps ref on_lifecycle_def lifecycle_targets [OF assms(1,2)] dom
        ws_pool_broadcast_def act_bind_Ok [where m = "ws_pool_index _", OF m] act_for_ws_write)
qed

theorem lifecycle_notifies_witness:
  "\<exists>s'. on_event_handler lab_libs lab_libvirt (event_new ''test'' ''test'') 1 5 
      \<lparr>sv_world = 0, sv_pool = [(''test'', \<lparr>vc_ptr = Some 7, vc_errno = 0, vc_closed = False, vc_user = ''test''\<rparr>)],
       sv_response = new_response, sv_http = [], sv_ws = [], sv_next_ws = 0, sv_websockets = [(''test'', [4, 6])],
       sv_events = [], sv_written = [], sv_log = []\<rparr> = (Ok (), s') \<and>
    sv_written s' = [(4, ''{}''), (6, ''{}'')]"
proof -
  let ?s = "\<lparr>sv_world = 0 :: nat, sv_pool = [(''test'', \<lparr>vc_ptr = Some 7, vc_errno = 0, vc_closed = False, vc_user = ''test''\<rparr>)],
       sv_response = new_response, sv_http = [], sv_ws = [], sv_next_ws = 0, sv_websockets = [(''test'', [4, 6])],
       sv_events = [], sv_written = [], sv_log = []\<rparr>"
  have "case simple_domain lab_libvirt 1 (0 :: nat) of (Ok (JObject m), w) \<Rightarrow> True | _ \<Rightarrow> False" by code_simp
  then obtain m w where d: "simple_domain lab_libvirt 1 0 = (Ok (JObject m), w)"
    by (auto split: prod.splits outcome.splits json.splits)
  have r: "virDomainRef lab_libvirt 1 (sv_world ?s) = (Ok 0, 0)"
    by (simp add: virDomainRef_def lab_libvirt_def stub_libvirt_def stub_with_def act_simps)
  have c: "sm_find (ev_conn (event_new ''test'' ''test'')) (sv_pool ?s) =
      Some \<lparr>vc_ptr = Some 7, vc_errno = 0, vc_closed = False, vc_user = ''test''\<rparr>"
    by (simp add: event_new_def)
  have b: "ws_bucket (ev_user (event_new ''test'' ''test'')) ?s = [4, 6]" "sv_written ?s = []"
    "stringify lab_libs (JObject m) = ''{}''"
    by (simp_all add: event_new_def ws_bucket_def stringify_def lab_libs_def)
  obtain s' where "on_event_handler lab_libs lab_libvirt (event_new ''test'' ''test'') 1 5 ?s = (Ok (), s')"
    "sv_written s' = sv_written ?s @ map (\<lambda>ws. (ws, stringify lab_libs (JObject m)))
       (ws_bucket (ev_user (event_new ''test'' ''test'')) ?s)"
    using lifecycle_notifies [OF _ _ c r d, of 5 lab_libs] by auto
  then show ?thesis unfolding b by auto
qed

end
