(* ===== verification/App.thy ===== *)
theory App
  imports Router Websocket
begin

text \<open>
  \<open>app.cpp\<close>: the table of routes, the redirect to paths with a trailing slash, the upgrade of a
  request to a websocket and the callbacks of its life, and the registration of libvirt events for a
  user. \<open>http/connection.cpp\<close>'s \<open>upgrade\<close> and \<open>process_request\<close> are here too, as they are what
  the handlers call and are called from.
\<close>

section \<open>Events of a user\<close>

text \<open>The user a connection works for, and the hook called after a registration.\<close>

definition conn_user :: "string \<Rightarrow> ('w server, string) act" where
  "conn_user ref = on_conn ref (\<lambda>c. act_return (vc_user c))"

type_synonym 'w registration_hook = "(string, 'w server) handler"

definition add_events :: "'w libvirt_c \<Rightarrow> 'w registration_hook \<Rightarrow> string \<Rightarrow> ('w server, unit) act" where
  "add_events lv hook conn =
     act_bind (conn_user conn) (\<lambda>user.
     act_bind (lifecycle_event_new lv conn user) (\<lambda>ev.
     act_bind (\<lambda>s. let (evs, m) = sm_index [] user (sv_events s) in (Ok evs, s\<lparr>sv_events := m\<rparr>)) (\<lambda>user_events.
     act_bind (events_set lv VIR_DOMAIN_EVENT_ID_LIFECYCLE ev user_events) (\<lambda>user_events.
     act_then (act_modify (\<lambda>s. s\<lparr>sv_events := sm_put user user_events (sv_events s)\<rparr>))
     (handler_call hook conn)))))"

definition remove_events :: "'w libvirt_c \<Rightarrow> string \<Rightarrow> ('w server, unit) act" where
  "remove_events lv conn =
     act_bind (conn_user conn) (\<lambda>user.
     act_bind (act_read (\<lambda>s. sm_find user (sv_events s))) (\<lambda>it. case it of
        None \<Rightarrow> act_return ()
      | Some evs \<Rightarrow>
          act_bind (events_remove lv VIR_DOMAIN_EVENT_ID_LIFECYCLE evs) (\<lambda>evs'.
          act_modify (\<lambda>s. s\<lparr>sv_events :=
            (if events_size evs' = 0 then sm_delete user (sv_events s) else sm_put user evs' (sv_events s))\<rparr>))))"

definition app_events :: "string \<Rightarrow> ('w server, events) act" where
  "app_events username = act_bind (act_read (\<lambda>s. sm_at username (sv_events s))) act_lift"

section \<open>The life of a websocket\<close>

text \<open>\<open>connection::upgrade\<close>: the socket moves from the HTTP connection to a new websocket.\<close>

definition new_ws :: "http_conn \<Rightarrow> ws_conn" where
  "new_ws hc = \<lparr>ws_request = hc_request hc, ws_on_handshake = hc_on_handshake hc, ws_on_close = hc_on_close hc\<rparr>"

definition upgrade :: "http_id option \<Rightarrow> ('w server, ws_id) act" where
  "upgrade http_conn = (\<lambda>s.
     case http_conn of None \<Rightarrow> (Undef, s) | Some h \<Rightarrow>
     (case sm_find h (sv_http s) of None \<Rightarrow> (Undef, s) | Some hc \<Rightarrow>
        let w = sv_next_ws s in
        (Ok w, s\<lparr>sv_next_ws := w + 1, sv_ws := sm_put w (new_ws hc) (sv_ws s),
           sv_http := sm_put h (hc\<lparr>hc_upgrade := True, hc_websock := Some w, hc_has_socket := False\<rparr>) (sv_http s)\<rparr>)))"

definition ws_modify :: "ws_id \<Rightarrow> (ws_conn \<Rightarrow> ws_conn) \<Rightarrow> ('w server, unit) act" where
  "ws_modify w f = (\<lambda>s. case sm_find w (sv_ws s) of
      None \<Rightarrow> (Undef, s) | Some c \<Rightarrow> (Ok (), s\<lparr>sv_ws := sm_put w (f c) (sv_ws s)\<rparr>))"

definition app_websocket :: "'w libvirt_view" where
  "app_websocket conn http_conn match req =
     act_bind (conn_user conn) (\<lambda>user.
     act_bind (upgrade http_conn) (\<lambda>ws.
     act_then (ws_modify ws (\<lambda>c. c\<lparr>ws_on_handshake := ws_on_handshake c @ [Ws_Handshake conn user]\<rparr>))
     (act_then (ws_modify ws (\<lambda>c. c\<lparr>ws_on_close := ws_on_close c @ [Ws_Close conn user ws]\<rparr>))
     (act_then (ws_pool_add user ws)
     (modify_response (set_result Switching_Protocols))))))"

text \<open>The two callbacks, and the events of the connection that call them.\<close>

definition ws_callback_run :: "'w libvirt_c \<Rightarrow> 'w registration_hook \<Rightarrow> ws_callback \<Rightarrow> ('w server, unit) act" where
  "ws_callback_run lv hook cb = (case cb of
      Ws_Handshake conn user \<Rightarrow>
        act_bind (conn_user conn) (\<lambda>u.
        act_bind (act_read (\<lambda>s. sm_find u (sv_events s))) (\<lambda>it.
        if it = None then add_events lv hook conn else act_return ()))
    | Ws_Close conn user ws \<Rightarrow>
        act_then (ws_pool_remove user ws)
        (act_bind (ws_pool_index user) (\<lambda>v.
         if length v = 0 then remove_events lv conn else act_return ())))"

text \<open>
  \<open>websocket::connection::async_accept\<close> and \<open>async_read\<close>: a completed handshake runs the handshake
  callbacks, a closed connection the close callbacks; any other error goes to the error callbacks,
  of which there are none.
\<close>

datatype ws_error = No_Error | Closed_Error | Other_Error

definition ws_async_accept :: "'w libvirt_c \<Rightarrow> 'w registration_hook \<Rightarrow> ws_id \<Rightarrow> ws_error \<Rightarrow> ('w server, unit) act" where
  "ws_async_accept lv hook w ec =
     (if ec \<noteq> No_Error then act_return ()
      else act_bind (act_read (\<lambda>s. sm_find w (sv_ws s))) (\<lambda>c. case c of
          None \<Rightarrow> act_undef | Some c \<Rightarrow> act_for (ws_callback_run lv hook) (ws_on_handshake c)))"

definition ws_async_read :: "'w libvirt_c \<Rightarrow> 'w registration_hook \<Rightarrow> ws_id \<Rightarrow> ws_error \<Rightarrow> ('w server, unit) act" where
  "ws_async_read lv hook w ec =
     (if ec = Closed_Error
      then act_bind (act_read (\<lambda>s. sm_find w (sv_ws s))) (\<lambda>c. case c of
          None \<Rightarrow> act_undef | Some c \<Rightarrow> act_for (ws_callback_run lv hook) (ws_on_close c))
      else act_return ())"

section \<open>The routes\<close>

definition append_trailing_slash :: "'w route_function" where
  "append_trailing_slash http_conn location req =
     (let u = sub_match location 0 @ ''/'' in
      act_then (modify_response (set_field Location u)) (modify_response (set_result Temporary_Redirect)))"

definition app_router :: "virt_config \<Rightarrow> libs \<Rightarrow> 'w libvirt_c \<Rightarrow> 'w os \<Rightarrow> 'w router" where
  "app_router conf L lv os =
     (let r = route ''^.+[^/]$'' append_trailing_slash empty_router;
          r = route ''^/users/([^/]+)/websocket/'' (with_methods [Get] (with_libvirt L lv os app_websocket)) r;
          r = route ''^/users/([^/]+)/host/'' (with_methods [Get] (with_libvirt L lv os (host_show L lv))) r;
          r = route ''^/users/([^/]+)/host/networks/''
                (with_methods [Get] (with_libvirt L lv os (host_networks L lv))) r;
          r = route ''^/users/([^/]+)/domains/$''
                (with_methods [Get] (with_libvirt L lv os (domains_index L lv))) r;
          r = route ''^/users/([^/]+)/domains/([^/]+)/$''
                (with_methods [Get] (with_libvirt_domain L lv os (domains_show L lv))) r;
          r = route ''^/users/([^/]+)/domains/([^/]+)/autostart/$''
                (with_methods [Post, Delete] (with_libvirt_domain L lv os (domains_autostart L lv))) r;
          r = route ''^/users/([^/]+)/domains/([^/]+)/metadata/$''
                (with_methods [Post] (with_libvirt_domain L lv os (domains_metadata L lv))) r;
          r = route ''^/users/([^/]+)/domains/([^/]+)/bootmenu/$''
                (with_methods [Post, Delete] (with_libvirt_domain L lv os (domains_bootmenu L lv))) r;
          r = route ''^/users/([^/]+)/domains/([^/]+)/start/$''
                (with_methods [Post] (with_libvirt_domain L lv os (domains_start L lv))) r;
          r = route ''^/users/([^/]+)/domains/([^/]+)/shutdown/''
                (with_methods [Post] (with_libvirt_domain L lv os (domains_shutdown conf L lv os))) r
      in r)"

section \<open>A request on an HTTP connection\<close>

text \<open>
  \<open>connection::process_request\<close>: the response is prepared, the request callback fills it, and an
  upgrade request runs the websocket the callback is expected to have made; the pointer is followed
  as it is. The result tells what the connection does next.
\<close>

datatype next_io = Run_Websocket ws_id | Write_Response

definition process_request ::
    "string \<Rightarrow> (http_id \<Rightarrow> request \<Rightarrow> ('w server, unit) act) \<Rightarrow> http_id \<Rightarrow> ('w server, next_io) act" where
  "process_request server_name on_request h =
     act_bind (act_read (\<lambda>s. sm_find h (sv_http s))) (\<lambda>hc. case hc of None \<Rightarrow> act_undef | Some hc \<Rightarrow>
     let req = hc_request hc in
     act_then (modify_response (\<lambda>r. r\<lparr>rs_version := rq_version req\<rparr>))
     (act_then (modify_response (\<lambda>r. r\<lparr>rs_keep_alive := False\<rparr>))
     (act_then (modify_response (set_field Content_Type ''text/plain''))
     (act_then (modify_response (set_field Server server_name))
     (act_then (on_request h req)
     (act_then (modify_response (\<lambda>r. r\<lparr>rs_length := Some (length (rs_body r))\<rparr>))
     (if rq_upgrade req
      then act_bind (act_read (\<lambda>s. sm_find h (sv_http s))) (\<lambda>hc. case hc of
          None \<Rightarrow> act_undef
        | Some hc \<Rightarrow> (case hc_websock hc of None \<Rightarrow> act_undef | Some w \<Rightarrow> act_return (Run_Websocket w)))
      else act_return Write_Response)))))))"

definition app_on_request ::
    "virt_config \<Rightarrow> libs \<Rightarrow> 'w libvirt_c \<Rightarrow> 'w os \<Rightarrow> http_id \<Rightarrow> request \<Rightarrow> ('w server, unit) act" where
  "app_on_request conf L lv os h req = router_run L (app_router conf L lv os) (Some h) req"

end
