(* ===== verification/Routes.thy ===== *)
theory Routes
  imports App
begin

text \<open>
  The route table of \<open>app.cpp\<close> against a direct reading of the path. A target is read once from left
  to right: the prefix, the user, and what follows; the theorem is that the eleven regular
  expressions, tried in key order with backtracking, give the same handler and the same groups, and
  that no two of them match the same target, so that their order does not matter.
\<close>

section \<open>Endpoints\<close>

datatype user_op = Ws_Op | Host_Op | Networks_Op | Index_Op

datatype domain_op = Show_Op | Autostart_Op | Metadata_Op | Bootmenu_Op | Start_Op | Shutdown_Op

datatype endpoint = Redirect | User_Route user_op string | Domain_Route domain_op string string

fun user_suffix :: "user_op \<Rightarrow> string" where
  "user_suffix Ws_Op = ''/websocket/''"
| "user_suffix Host_Op = ''/host/''"
| "user_suffix Networks_Op = ''/host/networks/''"
| "user_suffix Index_Op = ''/domains/''"

fun domain_suffix :: "domain_op \<Rightarrow> string" where
  "domain_suffix Show_Op = ''/''"
| "domain_suffix Autostart_Op = ''/autostart/''"
| "domain_suffix Metadata_Op = ''/metadata/''"
| "domain_suffix Bootmenu_Op = ''/bootmenu/''"
| "domain_suffix Start_Op = ''/start/''"
| "domain_suffix Shutdown_Op = ''/shutdown/''"

definition user_op_of :: "string \<Rightarrow> user_op option" where
  "user_op_of r = find (\<lambda>op. user_suffix op = r) [Ws_Op, Host_Op, Networks_Op, Index_Op]"

definition domain_op_of :: "string \<Rightarrow> domain_op option" where
  "domain_op_of r = find (\<lambda>op. domain_suffix op = r)
     [Show_Op, Autostart_Op, Metadata_Op, Bootmenu_Op, Start_Op, Shutdown_Op]"

text \<open>A target that is redirected: no trailing slash, and no line break before its last character.\<close>

definition redirects :: "string \<Rightarrow> bool" where
  "redirects t \<longleftrightarrow> length t \<ge> 2 \<and> last t \<noteq> CHR ''/'' \<and>
     (\<forall>c \<in> set (butlast t). c \<noteq> CHR 0x0A \<and> c \<noteq> CHR 0x0D)"

definition path_endpoint :: "string \<Rightarrow> endpoint option" where
  "path_endpoint t =
     (let u = segment (drop 7 t); r = drop (length u) (drop 7 t);
          n = segment (drop 9 r); q = drop (length n) (drop 9 r)
      in if redirects t then Some Redirect
         else if take 7 t \<noteq> ''/users/'' \<or> u = [] then None
         else case user_op_of r of
           Some op \<Rightarrow> Some (User_Route op u)
         | None \<Rightarrow>
             if take 9 r \<noteq> ''/domains/'' \<or> n = [] then None
             else map_option (\<lambda>op. Domain_Route op u n) (domain_op_of q))"

fun groups :: "string \<Rightarrow> endpoint \<Rightarrow> smatch" where
  "groups t Redirect = [t]"
| "groups t (User_Route op u) = [t, u]"
| "groups t (Domain_Route op u n) = [t, u, n]"

section \<open>The keys of the table\<close>

fun user_key :: "user_op \<Rightarrow> string" where
  "user_key Ws_Op = ''^/users/([^/]+)/websocket/''"
| "user_key Host_Op = ''^/users/([^/]+)/host/''"
| "user_key Networks_Op = ''^/users/([^/]+)/host/networks/''"
| "user_key Index_Op = ''^/users/([^/]+)/domains/$''"

fun domain_key :: "domain_op \<Rightarrow> string" where
  "domain_key Show_Op = ''^/users/([^/]+)/domains/([^/]+)/$''"
| "domain_key Autostart_Op = ''^/users/([^/]+)/domains/([^/]+)/autostart/$''"
| "domain_key Metadata_Op = ''^/users/([^/]+)/domains/([^/]+)/metadata/$''"
| "domain_key Bootmenu_Op = ''^/users/([^/]+)/domains/([^/]+)/bootmenu/$''"
| "domain_key Start_Op = ''^/users/([^/]+)/domains/([^/]+)/start/$''"
| "domain_key Shutdown_Op = ''^/users/([^/]+)/domains/([^/]+)/shutdown/''"

definition redirect_key :: string where
  "redirect_key = ''^.+[^/]$''"

fun endpoint_key :: "endpoint \<Rightarrow> string" where
  "endpoint_key Redirect = redirect_key"
| "endpoint_key (User_Route op u) = user_key op"
| "endpoint_key (Domain_Route op u n) = domain_key op"

lemma regex_of_user_key: "\<exists>e. regex_of (user_key op) = path_rx ''/users/'' [user_suffix op] e"
proof -
  have "regex_of ''^/users/([^/]+)/websocket/'' = path_rx ''/users/'' [''/websocket/''] False"
    "regex_of ''^/users/([^/]+)/host/'' = path_rx ''/users/'' [''/host/''] False"
    "regex_of ''^/users/([^/]+)/host/networks/'' = path_rx ''/users/'' [''/host/networks/''] False"
    "regex_of ''^/users/([^/]+)/domains/$'' = path_rx ''/users/'' [''/domains/''] True"
    by code_simp+
  then show ?thesis by (cases op) auto
qed

lemma regex_of_domain_key:
  "\<exists>e. regex_of (domain_key op) = path_rx ''/users/'' [''/domains/'', domain_suffix op] e"
proof -
  have "regex_of ''^/users/([^/]+)/domains/([^/]+)/$'' = path_rx ''/users/'' [''/domains/'', ''/''] True"
    "regex_of ''^/users/([^/]+)/domains/([^/]+)/autostart/$'' = path_rx ''/users/'' [''/domains/'', ''/autostart/''] True"
    "regex_of ''^/users/([^/]+)/domains/([^/]+)/metadata/$'' = path_rx ''/users/'' [''/domains/'', ''/metadata/''] True"
    "regex_of ''^/users/([^/]+)/domains/([^/]+)/bootmenu/$'' = path_rx ''/users/'' [''/domains/'', ''/bootmenu/''] True"
    "regex_of ''^/users/([^/]+)/domains/([^/]+)/start/$'' = path_rx ''/users/'' [''/domains/'', ''/start/''] True"
    "regex_of ''^/users/([^/]+)/domains/([^/]+)/shutdown/'' = path_rx ''/users/'' [''/domains/'', ''/shutdown/''] False"
    by code_simp+
  then show ?thesis by (cases op) auto
qed

lemma regex_of_redirect_key: "regex_of redirect_key = rx_seq [RBegin, RPlus RAny, RNot ''/'', REnd]"
  by code_simp

section \<open>What each pattern matches\<close>

lemma slash_led_user [simp]: "slash_led (user_suffix op)"
  by (cases op) (simp_all add: slash_led_def)

lemma slash_led_domain [simp]: "slash_led (domain_suffix op)" "slash_led ''/domains/''"
  by (cases op) (simp_all add: slash_led_def)

lemma prefix_lengths: "length ''/users/'' = 7" "length ''/domains/'' = 9"
  by simp_all

lemma take_all_iff: "take (length l) r = l \<and> drop (length l) r = [] \<longleftrightarrow> r = l"
  by (metis append_Nil2 append_take_drop_id drop_all order_refl take_all)

lemma match_path_one:
  "match_path [l] x = (let u = segment x; r = drop (length u) x in if u \<noteq> [] \<and> r = l then Some [u] else None)"
  using take_all_iff [of l "drop (length (segment x)) x"] by (auto simp: Let_def)

lemma match_path_two:
  "match_path [l, k] x = (let u = segment x; r = drop (length u) x; y = drop (length l) r; n = segment y; q = drop (length n) y in
     if u \<noteq> [] \<and> take (length l) r = l \<and> n \<noteq> [] \<and> q = k then Some [u, n] else None)"
  unfolding match_path.simps(2) [of l] match_path_one by (simp add: Let_def add.assoc)

lemma user_key_match:
  "regex_match (regex_of (user_key op)) t = (let u = segment (drop 7 t); r = drop (length u) (drop 7 t) in
     if take 7 t = ''/users/'' \<and> u \<noteq> [] \<and> r = user_suffix op then Some [t, u] else None)"
proof -
  obtain e where "regex_of (user_key op) = path_rx ''/users/'' [user_suffix op] e"
    using regex_of_user_key by blast
  then have "regex_match (regex_of (user_key op)) t = (if take 7 t = ''/users/''
      then map_option ((#) t) (match_path [user_suffix op] (drop 7 t)) else None)"
    using regex_match_path [of "[user_suffix op]" "''/users/''" e t, unfolded prefix_lengths]
    by (simp del: match_path.simps)
  then show ?thesis unfolding match_path_one by (simp add: Let_def)
qed

lemma domain_key_match:
  "regex_match (regex_of (domain_key op)) t = (let u = segment (drop 7 t); r = drop (length u) (drop 7 t);
       n = segment (drop 9 r); q = drop (length n) (drop 9 r) in
     if take 7 t = ''/users/'' \<and> u \<noteq> [] \<and> take 9 r = ''/domains/'' \<and> n \<noteq> [] \<and> q = domain_suffix op
     then Some [t, u, n] else None)"
proof -
  obtain e where "regex_of (domain_key op) = path_rx ''/users/'' [''/domains/'', domain_suffix op] e"
    using regex_of_domain_key by blast
  then have "regex_match (regex_of (domain_key op)) t = (if take 7 t = ''/users/''
      then map_option ((#) t) (match_path [''/domains/'', domain_suffix op] (drop 7 t)) else None)"
    using regex_match_path [of "[''/domains/'', domain_suffix op]" "''/users/''" e t, unfolded prefix_lengths]
    by (simp del: match_path.simps)
  then show ?thesis unfolding match_path_two prefix_lengths by (simp add: Let_def)
qed

lemma redirect_key_match:
  "regex_match (regex_of redirect_key) t = (if redirects t then Some [t] else None)"
proof -
  define p where "p c \<longleftrightarrow> c \<noteq> CHR 0x0A \<and> c \<noteq> CHR 0x0D" for c :: char
  define n where "n = length (takeWhile p t)"
  define good where "good i \<longleftrightarrow> (\<exists>c. drop i t = [c] \<and> c \<noteq> CHR ''/'')" for i
  have last: "rx_run (rx_seq [RNot ''/'', REnd]) (False, s, []) =
      (case s of [] \<Rightarrow> [] | c # cs \<Rightarrow> if c \<noteq> CHR ''/'' \<and> cs = [] then [(False, [], [])] else [])" for s
    by (cases s) auto
  have "rx_run (regex_of redirect_key) (True, t, []) =
      concat (map (\<lambda>i. rx_run (rx_seq [RNot ''/'', REnd]) (False, drop i t, [])) (rev [1..<Suc n]))"
    by (simp add: regex_of_redirect_key rx_run_RAny rx_plus_char n_def p_def [abs_def] comp_def del: upt_Suc)
  also have "\<dots> = concat (map (\<lambda>i. if good i then [(False, [], [])] else []) (rev [1..<Suc n]))"
    unfolding last good_def by (intro arg_cong [where f = concat] map_cong refl) (auto split: list.split)
  finally have run: "rx_run (regex_of redirect_key) (True, t, []) =
      concat (map (\<lambda>i. if good i then [(False, [], [])] else []) (rev [1..<Suc n]))" .
  have groups: "rx_groups (regex_of redirect_key) = 0" by (simp add: regex_of_redirect_key)
  have all: "\<forall>st \<in> set (concat (map (\<lambda>i. if good i then [(False, [], [])] else []) xs)). st = (False, [], [])"
    for xs :: "nat list" by auto
  have ne: "concat (map (\<lambda>i. if good i then [(False, [], [] :: (nat \<times> string) list)] else []) xs) = [] \<longleftrightarrow>
      (\<forall>i \<in> set xs. \<not> good i)" for xs :: "nat list" by auto
  have match: "regex_match (regex_of redirect_key) t = (if \<exists>i \<in> {1..n}. good i then Some [t] else None)"
  proof (cases "\<exists>i \<in> {1..n}. good i")
    case True
    then have "rx_run (regex_of redirect_key) (True, t, []) \<noteq> []"
      unfolding run ne by (auto simp del: upt_Suc)
    moreover have "\<forall>st \<in> set (rx_run (regex_of redirect_key) (True, t, [])). st = (False, [], [])"
      unfolding run by (rule all)
    ultimately obtain sts where "rx_run (regex_of redirect_key) (True, t, []) = (False, [], []) # sts"
      by (cases "rx_run (regex_of redirect_key) (True, t, [])") auto
    with True show ?thesis by (simp add: regex_match_def groups)
  next
    case False
    then have "rx_run (regex_of redirect_key) (True, t, []) = []"
      unfolding run ne by (auto simp del: upt_Suc)
    with False show ?thesis by (simp add: regex_match_def)
  qed
  have "(\<exists>i \<in> {1..n}. good i) \<longleftrightarrow> redirects t"
  proof (cases "length t \<ge> 2")
    case False
    from False have "\<not> good i" if "1 \<le> i" for i
      using that arg_cong [where f = length, of "drop i t"] by (auto simp: good_def)
    with False show ?thesis by (auto simp: redirects_def)
  next
    case True
    then obtain b c where t: "t = b @ [c]" by (cases t rule: rev_cases) auto
    with True have ne: "b \<noteq> []" by auto
    have good: "good i \<longleftrightarrow> i = length b \<and> c \<noteq> CHR ''/''" for i
    proof
      assume "good i"
      then obtain d where d: "drop i t = [d]" "d \<noteq> CHR ''/''" by (auto simp: good_def)
      then have "length t - i = 1" by (metis length_drop length_Cons list.size(3) One_nat_def)
      then have "i = length b" using t by simp
      with d t show "i = length b \<and> c \<noteq> CHR ''/''" by simp
    qed (auto simp: good_def t)
    have "length b \<le> n \<longleftrightarrow> (\<forall>x \<in> set b. p x)"
    proof
      assume "length b \<le> n"
      then have "\<forall>j < length b. p (t ! j)"
        unfolding n_def by (metis le_trans less_le_trans nth_mem set_takeWhileD takeWhile_nth)
      then show "\<forall>x \<in> set b. p x" by (auto simp: t in_set_conv_nth nth_append)
    next
      assume "\<forall>x \<in> set b. p x"
      then have "takeWhile p t = b @ takeWhile p [c]" unfolding t by (simp add: takeWhile_append2)
      then show "length b \<le> n" by (simp add: n_def)
    qed
    moreover have "1 \<le> length b" using ne by (cases b) auto
    ultimately show ?thesis
      using t True by (auto simp: good redirects_def p_def)
  qed
  with match show ?thesis by simp
qed

section \<open>The table\<close>

fun user_handler :: "libs \<Rightarrow> 'w libvirt_c \<Rightarrow> 'w os \<Rightarrow> user_op \<Rightarrow> 'w route_function" where
  "user_handler L lv os Ws_Op = with_methods [Get] (with_libvirt L lv os app_websocket)"
| "user_handler L lv os Host_Op = with_methods [Get] (with_libvirt L lv os (host_show L lv))"
| "user_handler L lv os Networks_Op = with_methods [Get] (with_libvirt L lv os (host_networks L lv))"
| "user_handler L lv os Index_Op = with_methods [Get] (with_libvirt L lv os (domains_index L lv))"

fun domain_methods :: "domain_op \<Rightarrow> verb list" where
  "domain_methods Show_Op = [Get]"
| "domain_methods Autostart_Op = [Post, Delete]"
| "domain_methods Metadata_Op = [Post]"
| "domain_methods Bootmenu_Op = [Post, Delete]"
| "domain_methods Start_Op = [Post]"
| "domain_methods Shutdown_Op = [Post]"

fun domain_view_of :: "virt_config \<Rightarrow> libs \<Rightarrow> 'w libvirt_c \<Rightarrow> 'w os \<Rightarrow> domain_op \<Rightarrow> 'w domain_view" where
  "domain_view_of conf L lv os Show_Op = domains_show L lv"
| "domain_view_of conf L lv os Autostart_Op = domains_autostart L lv"
| "domain_view_of conf L lv os Metadata_Op = domains_metadata L lv"
| "domain_view_of conf L lv os Bootmenu_Op = domains_bootmenu L lv"
| "domain_view_of conf L lv os Start_Op = domains_start L lv"
| "domain_view_of conf L lv os Shutdown_Op = domains_shutdown conf L lv os"

fun handler_of :: "virt_config \<Rightarrow> libs \<Rightarrow> 'w libvirt_c \<Rightarrow> 'w os \<Rightarrow> endpoint \<Rightarrow> 'w route_function" where
  "handler_of conf L lv os Redirect = append_trailing_slash"
| "handler_of conf L lv os (User_Route op u) = user_handler L lv os op"
| "handler_of conf L lv os (Domain_Route op u n) =
     with_methods (domain_methods op) (with_libvirt_domain L lv os (domain_view_of conf L lv os op))"

lemma router_ok_app: "router_ok (app_router conf L lv os)"
  by (simp add: app_router_def Let_def)

definition endpoints :: "endpoint list" where
  "endpoints = Redirect # map (\<lambda>op. User_Route op []) [Ws_Op, Host_Op, Networks_Op, Index_Op] @
     map (\<lambda>op. Domain_Route op [] [])
       [Show_Op, Autostart_Op, Metadata_Op, Bootmenu_Op, Start_Op, Shutdown_Op]"

definition table :: "virt_config \<Rightarrow> libs \<Rightarrow> 'w libvirt_c \<Rightarrow> 'w os \<Rightarrow> (string \<times> 'w route_function) list" where
  "table conf L lv os = map (\<lambda>e. (endpoint_key e, handler_of conf L lv os e)) endpoints"

lemma app_router_table: "app_router conf L lv os = fold (\<lambda>(k, f). route k f) (table conf L lv os) empty_router"
  by (simp add: app_router_def Let_def table_def endpoints_def redirect_key_def)

lemma ro_routes_fold: "ro_routes (fold (\<lambda>(k, f). route k f) kvs r) = fold (\<lambda>(k, f). sm_put k f) kvs (ro_routes r)"
  by (induction kvs arbitrary: r) (auto simp: route_def)

lemma distinct_keys: "distinct (map fst (table conf L lv os))"
proof -
  have "map fst (table conf L lv os) = map endpoint_key endpoints" by (simp add: table_def)
  moreover have "distinct (map endpoint_key endpoints)" by code_simp
  ultimately show ?thesis by simp
qed

lemma in_table: "(endpoint_key e, handler_of conf L lv os e) \<in> set (table conf L lv os)"
proof (cases e)
  case Redirect
  then show ?thesis by (simp add: table_def endpoints_def)
next
  case (User_Route op u)
  then show ?thesis by (cases op) (simp_all add: table_def endpoints_def)
next
  case (Domain_Route op u n)
  then show ?thesis by (cases op) (simp_all add: table_def endpoints_def)
qed

lemma find_app_route:
  "sm_find k (ro_routes (app_router conf L lv os)) = Some f \<longleftrightarrow>
     (\<exists>e. k = endpoint_key e \<and> f = handler_of conf L lv os e)"
proof -
  have "map_of (rev (table conf L lv os)) = map_of (table conf L lv os)"
    using distinct_keys [of conf L lv os] by (intro map_of_eqI) (auto simp: rev_map [symmetric] map_of_eq_Some_iff)
  then have "sm_find k (ro_routes (app_router conf L lv os)) = map_of (table conf L lv os) k"
    by (simp add: app_router_table ro_routes_fold smap.find_puts empty_router_def split: option.split)
  then have "sm_find k (ro_routes (app_router conf L lv os)) = Some f \<longleftrightarrow> (k, f) \<in> set (table conf L lv os)"
    using distinct_keys [of conf L lv os] by (simp add: map_of_eq_Some_iff)
  also have "\<dots> \<longleftrightarrow> (\<exists>e. k = endpoint_key e \<and> f = handler_of conf L lv os e)"
    using in_table by (auto simp: table_def)
  finally show ?thesis .
qed

lemma in_app_routes:
  "(k, f) \<in> set (ro_routes (app_router conf L lv os)) \<longleftrightarrow>
     (\<exists>e. k = endpoint_key e \<and> f = handler_of conf L lv os e)"
proof -
  have "(k, f) \<in> set (ro_routes (app_router conf L lv os)) \<longleftrightarrow> sm_find k (ro_routes (app_router conf L lv os)) = Some f"
    using router_ok_app [of conf L lv os] by (auto simp: router_ok_def intro: sm_find_ok dest: sm_find_Some_in)
  then show ?thesis by (simp add: find_app_route)
qed

section \<open>Dispatch\<close>

lemma user_op_of_Some: "user_op_of r = Some op \<longleftrightarrow> r = user_suffix op"
  by (cases op) (auto simp: user_op_of_def)

lemma domain_op_of_Some: "domain_op_of q = Some op \<longleftrightarrow> q = domain_suffix op"
  by (cases op) (auto simp: domain_op_of_def)

lemma last_after_user:
  assumes "r \<noteq> []" "drop (length u) (drop 7 t) = r"
  shows "last t = last r"
  using assms by (metis drop_drop last_drop drop_eq_Nil linorder_not_le)

text \<open>A target that ends in a slash is not redirected.\<close>

lemma user_suffix_last [simp]: "user_suffix op \<noteq> []" "last (user_suffix op) = CHR ''/''"
  by (cases op; simp)+

lemma domain_suffix_last [simp]: "domain_suffix op \<noteq> []" "last (domain_suffix op) = CHR ''/''"
  by (cases op; simp)+

lemma key_eq [simp]:
  "user_key op = user_key op' \<longleftrightarrow> op = op'" "domain_key dop = domain_key dop' \<longleftrightarrow> dop = dop'"
  by (cases op; cases op'; simp) (cases dop; cases dop'; simp)

lemma key_neq [simp]:
  "user_key op \<noteq> domain_key dop" "domain_key dop \<noteq> user_key op" "user_key op \<noteq> redirect_key"
  "redirect_key \<noteq> user_key op" "domain_key dop \<noteq> redirect_key" "redirect_key \<noteq> domain_key dop"
  by (cases op; cases dop; simp add: redirect_key_def)+

lemma user_match_not_redirects:
  assumes "drop (length u) (drop 7 t) = r" "r \<noteq> []" "last r = CHR ''/''"
  shows "\<not> redirects t"
  using last_after_user [OF assms(2,1)] assms(3) by (simp add: redirects_def)

lemma domain_match_last:
  assumes "drop (length n) (drop 9 r) = q" "q \<noteq> []"
  shows "r \<noteq> [] \<and> last r = last q"
  using assms by (metis drop_Nil drop_drop last_drop drop_eq_Nil linorder_not_le)

text \<open>A target matches the key of an endpoint exactly when it is read as an endpoint with that key.\<close>

lemma key_match:
  "regex_match (regex_of (endpoint_key e)) t =
     (case path_endpoint t of
        None \<Rightarrow> None
      | Some e' \<Rightarrow> if endpoint_key e' = endpoint_key e then Some (groups t e') else None)"
proof -
  define u r where "u = segment (drop 7 t)" and "r = drop (length u) (drop 7 t)"
  define n q where "n = segment (drop 9 r)" and "q = drop (length n) (drop 9 r)"
  have pe: "path_endpoint t = (if redirects t then Some Redirect
      else if take 7 t \<noteq> ''/users/'' \<or> u = [] then None
      else case user_op_of r of Some op \<Rightarrow> Some (User_Route op u) | None \<Rightarrow>
        if take 9 r \<noteq> ''/domains/'' \<or> n = [] then None else map_option (\<lambda>op. Domain_Route op u n) (domain_op_of q))"
    unfolding path_endpoint_def Let_def u_def r_def n_def q_def by (rule refl)
  show ?thesis
  proof (cases e)
    case Redirect
    then show ?thesis
      by (auto simp: redirect_key_match pe split: option.split if_splits)
  next
    case (User_Route op v)
    have m: "regex_match (regex_of (user_key op)) t =
        (if take 7 t = ''/users/'' \<and> u \<noteq> [] \<and> r = user_suffix op then Some [t, u] else None)"
      by (simp add: user_key_match Let_def u_def r_def)
    have "\<not> redirects t" if "r = user_suffix op"
      using user_match_not_redirects [OF r_def [symmetric]] that by simp
    then have "r \<noteq> user_suffix op" if "redirects t" using that by blast
    moreover have "r = user_suffix op \<longleftrightarrow> user_op_of r = Some op" by (simp add: user_op_of_Some)
    ultimately show ?thesis
      unfolding User_Route endpoint_key.simps m pe
      by (cases "redirects t"; cases "user_op_of r") (simp_all split: option.split)
  next
    case (Domain_Route op v w)
    have m: "regex_match (regex_of (domain_key op)) t = (if take 7 t = ''/users/'' \<and> u \<noteq> [] \<and>
        take 9 r = ''/domains/'' \<and> n \<noteq> [] \<and> q = domain_suffix op then Some [t, u, n] else None)"
      unfolding domain_key_match Let_def u_def r_def n_def q_def by (rule refl)
    have "\<not> redirects t" if "q = domain_suffix op"
      using domain_match_last [OF q_def [symmetric]] user_match_not_redirects [OF r_def [symmetric]] that by simp
    moreover have "n = []" if "r = user_suffix uop" "take 9 r = ''/domains/''" for uop
      using that by (cases uop) (simp_all add: n_def segment_def)
    moreover have "r = user_suffix uop" if "user_op_of r = Some uop" for uop
      using that by (simp add: user_op_of_Some)
    moreover have "q = domain_suffix op \<longleftrightarrow> domain_op_of q = Some op" by (simp add: domain_op_of_Some)
    ultimately show ?thesis
      unfolding Domain_Route endpoint_key.simps m pe
      by (cases "redirects t"; cases "user_op_of r"; cases "domain_op_of q") (simp_all split: option.split, blast+)
  qed
qed

lemma route_dispatch_fact:
  "find_route (ro_regex (app_router conf L lv os)) t (ro_routes (app_router conf L lv os)) =
     Ok (map_option (\<lambda>e. (handler_of conf L lv os e, groups t e)) (path_endpoint t))"
proof (cases "path_endpoint t")
  case None
  have "find_route (ro_regex (app_router conf L lv os)) t (ro_routes (app_router conf L lv os)) = Ok None"
    using router_regexes [OF router_ok_app [of conf L lv os]]
    by (intro find_route_None) (auto simp: matches_def in_app_routes key_match None)
  with None show ?thesis by simp
next
  case (Some e)
  have same: "handler_of conf L lv os e' = handler_of conf L lv os e" if "endpoint_key e' = endpoint_key e" for e'
    using that by (cases e'; cases e) auto
  have "find_route (ro_regex (app_router conf L lv os)) t (ro_routes (app_router conf L lv os)) =
      Ok (Some (handler_of conf L lv os e, groups t e))"
  proof (rule find_route_unique)
    show "\<forall>(k, f) \<in> set (ro_routes (app_router conf L lv os)).
        sm_find k (ro_regex (app_router conf L lv os)) = Some (regex_of k)"
      by (rule router_regexes [OF router_ok_app])
    show "(endpoint_key e, handler_of conf L lv os e) \<in> set (ro_routes (app_router conf L lv os))"
      by (auto simp: in_app_routes)
    show "regex_match (regex_of (endpoint_key e)) t = Some (groups t e)"
      by (simp add: key_match Some)
    fix k f assume "(k, f) \<in> set (ro_routes (app_router conf L lv os))" "matches k t"
    then obtain e' where "k = endpoint_key e'" "f = handler_of conf L lv os e'" "endpoint_key e = endpoint_key e'"
      by (auto simp: in_app_routes matches_def key_match Some split: if_splits)
    then show "k = endpoint_key e \<and> f = handler_of conf L lv os e" using same [of e'] by simp
  qed
  with Some show ?thesis by simp
qed

text \<open>C8: for every request target, the router's table of regular expressions gives the handler and the
  captured groups that reading the path directly gives, and no route where that fails: the patterns
  are unambiguous, the user and the domain a view is handed are the path's segments.\<close>

theorem route_dispatch:
  "find_route (ro_regex (app_router conf L lv os)) t (ro_routes (app_router conf L lv os)) =
     Ok (map_option (\<lambda>e. (handler_of conf L lv os e, groups t e)) (path_endpoint t))"
  by (rule route_dispatch_fact)

text \<open>What is read from a path is what was written into it.\<close>

lemma domains_not_user_suffix: "x \<noteq> [] \<Longrightarrow> user_op_of (''/domains/'' @ x) = None"
  by (auto simp: user_op_of_def)

lemma path_endpoint_domain:
  assumes "segment_ok u" "segment_ok n"
  shows "path_endpoint (''/users/'' @ u @ ''/domains/'' @ n @ domain_suffix op) = Some (Domain_Route op u n)"
proof -
  let ?q = "domain_suffix op" and ?t = "''/users/'' @ u @ ''/domains/'' @ n @ domain_suffix op"
  have u: "segment (u @ ''/domains/'' @ n @ ?q) = u"
    using segment_append [OF assms(1), of "''/domains/''" "n @ ?q"] by simp
  have n: "segment (n @ ?q) = n"
    using segment_append [OF assms(2), of ?q "[]"] by simp
  have t: "take 7 ?t = ''/users/''" "drop 7 ?t = u @ ''/domains/'' @ n @ ?q" by simp_all
  have r: "take 9 (''/domains/'' @ n @ ?q) = ''/domains/''" "drop 9 (''/domains/'' @ n @ ?q) = n @ ?q" by simp_all
  have "last ?t = last ?q" by (simp add: last_append)
  then have nr: "\<not> redirects ?t" by (simp add: redirects_def)
  have ne: "u \<noteq> []" "n \<noteq> []" using assms by (auto simp: segment_ok_def)
  then have "user_op_of (''/domains/'' @ n @ ?q) = None" by (intro domains_not_user_suffix) simp
  moreover have "drop (length u) (u @ ''/domains/'' @ n @ ?q) = ''/domains/'' @ n @ ?q"
    "drop (length n) (n @ ?q) = ?q" by simp_all
  moreover have "domain_op_of ?q = Some op" by (simp add: domain_op_of_Some)
  ultimately show ?thesis
    unfolding path_endpoint_def Let_def t u r n using nr ne by (simp only: r n) simp
qed

lemma domain_dispatch:
  assumes "segment_ok u" "segment_ok n" and "rq_target req = ''/users/'' @ u @ ''/domains/'' @ n @ domain_suffix op"
  shows "router_run L (app_router conf L lv os) hc req s =
    act_then (run_route L (with_methods (domain_methods op)
        (with_libvirt_domain L lv os (domain_view_of conf L lv os op))) [rq_target req, u, n] hc req)
      (log_access req) s"
proof -
  have "find_route (ro_regex (app_router conf L lv os)) (rq_target req) (ro_routes (app_router conf L lv os)) =
      Ok (Some (handler_of conf L lv os (Domain_Route op u n), groups (rq_target req) (Domain_Route op u n)))"
    unfolding route_dispatch_fact assms(3) path_endpoint_domain [OF assms(1,2)] by simp
  from router_run_found [OF this] show ?thesis by simp
qed

text \<open>C25: a request for one of the six operations on a domain, with a user and a domain name that are
  non-empty and free of slashes, runs exactly that operation's view behind its guards, with that user
  and that name as the groups.\<close>

theorem domain_request_dispatched:
  assumes "segment_ok u" "segment_ok n" and "rq_target req = ''/users/'' @ u @ ''/domains/'' @ n @ domain_suffix op"
  shows "router_run L (app_router conf L lv os) hc req s =
    act_then (run_route L (with_methods (domain_methods op)
        (with_libvirt_domain L lv os (domain_view_of conf L lv os op))) [rq_target req, u, n] hc req)
      (log_access req) s"
  using assms by (rule domain_dispatch)

theorem domain_request_dispatched_witness:
  "router_run lab_libs (app_router default_config lab_libs lab_libvirt counting_os) None
      (request_of Post ''/users/root/domains/vm/start/'') (server_with 0) =
    act_then (run_route lab_libs
        (with_methods [Post] (with_libvirt_domain lab_libs lab_libvirt counting_os (domains_start lab_libs lab_libvirt)))
        [''/users/root/domains/vm/start/'', ''root'', ''vm''] None (request_of Post ''/users/root/domains/vm/start/''))
      (log_access (request_of Post ''/users/root/domains/vm/start/'')) (server_with 0)"
  using domain_request_dispatched [of "''root''" "''vm''" "request_of Post ''/users/root/domains/vm/start/''" Start_Op
      lab_libs default_config lab_libvirt counting_os None "server_with 0"]
  by (simp add: segment_ok_def request_of_def)

text \<open>A target without a trailing slash is answered with a 307 to the target with one appended, and
  following it does not redirect again. The query string is taken for part of the path.\<close>

theorem redirect_once:
  assumes "redirects (rq_target req)"
  shows "\<exists>s'. router_run L (app_router conf L lv os) hc req s = (Ok (), s') \<and>
    rs_result (sv_response s') = Temporary_Redirect \<and>
    rs_fields (sv_response s') Location = Some (rq_target req @ ''/'') \<and> sv_world s' = sv_world s \<and>
    \<not> redirects (rq_target req @ ''/'')"
proof -
  have "find_route (ro_regex (app_router conf L lv os)) (rq_target req) (ro_routes (app_router conf L lv os)) =
      Ok (Some (append_trailing_slash, [rq_target req]))"
    unfolding route_dispatch_fact using assms by (simp add: path_endpoint_def Let_def)
  from router_run_found [OF this] have run: "router_run L (app_router conf L lv os) hc req s =
      act_then (run_route L append_trailing_slash [rq_target req] hc req) (log_access req) s" by simp
  have "route_attempt append_trailing_slash [rq_target req] req (hc, s) = (Ok (), (None, s\<lparr>sv_response :=
      set_result Temporary_Redirect (set_field Location (rq_target req @ ''/'') new_response)\<rparr>))"
    by (simp add: route_attempt_def append_trailing_slash_def Let_def act_simps sub_match_def)
  then have "run_route L append_trailing_slash [rq_target req] hc req s = (Ok (), s\<lparr>sv_response :=
      set_result Temporary_Redirect (set_field Location (rq_target req @ ''/'') new_response)\<rparr>)"
    using retry_call_stop [of "route_attempt append_trailing_slash [rq_target req] req" "(hc, s)"]
    by (simp add: run_route_def wants_retry_def)
  then show ?thesis
    by (simp add: run act_simps log_access_run redirects_def)
qed

theorem redirect_once_witness:
  "\<exists>s'. router_run lab_libs (app_router default_config lab_libs lab_libvirt counting_os) None
     (request_of Get ''/users/root/host/?x=1'') (server_with 0) = (Ok (), s') \<and>
     rs_fields (sv_response s') Location = Some ''/users/root/host/?x=1/''"
  using redirect_once [of "request_of Get ''/users/root/host/?x=1''" lab_libs default_config lab_libvirt counting_os
      None "server_with 0"]
  by (auto simp: request_of_def redirects_def)

lemma query_string_not_found:
  "path_endpoint ''/users/root/host/'' = Some (User_Route Host_Op ''root'')"
  "path_endpoint ''/users/root/host/?x=1'' = Some Redirect"
  "path_endpoint ''/users/root/host/?x=1/'' = None"
  by code_simp+

end
