(* ===== verification/Requests.thy ===== *)
theory Requests
  imports Routes
begin

text \<open>
  What a request can do to the state of the daemon. An invariant of the state that survives the
  elementary changes is kept by every route but the one for websockets; for that one, the effect is
  described exactly.
\<close>

section \<open>Invariants of a request\<close>

text \<open>
  A view's invariant that also survives a lookup in the table of connections, any response and a
  line of the log survives a whole request.
\<close>

locale request_invariant =
  fixes P :: "'w server \<Rightarrow> bool" and lv :: "'w libvirt_c" and os :: "'w os"
  assumes for_views: "view_invariant P ref"
    and keeps_pool: "P s \<Longrightarrow> pool_get lv os u (sv_pool s, sv_world s) = (r, (p, w)) \<Longrightarrow>
      P (s\<lparr>sv_pool := p, sv_world := w\<rparr>)"
    and keeps_response: "P s \<Longrightarrow> P (s\<lparr>sv_response := resp\<rparr>)"
    and keeps_log: "P s \<Longrightarrow> P (s\<lparr>sv_log := l\<rparr>)"
begin

lemma pool_call: "act_keeps P (on_sv_pool (pool_get lv os u))"
  by (rule act_keepsI) (auto simp: on_sv_pool_def Let_def intro: keeps_pool split: prod.split)

lemma world_call: "act_keeps P (on_sv_world m)"
  by (rule act_keepsI)
     (auto simp: on_sv_world_def Let_def intro: view_invariant.keeps_world [OF for_views] split: prod.split)

lemma response_call: "act_keeps P (modify_response f)"
  by (auto simp: modify_response_def intro: act_keeps_modify keeps_response)

lemma respond_call: "act_keeps P (respond L j st)"
  by (auto simp: respond_def intro: act_keeps_modify keeps_response)

lemma with_methods_keeps:
  "act_keeps P (f hc match req) \<Longrightarrow> act_keeps P (with_methods ms f hc match req)"
  by (auto simp: with_methods_def intro: response_call)

lemma with_user_keeps:
  "act_keeps P (f hc match req) \<Longrightarrow> act_keeps P (with_user L os f hc match req)"
  unfolding with_user_def Let_def by (rule act_keeps_bind [OF world_call]) (auto intro: respond_call)

lemma with_libvirt_keeps:
  assumes "\<And>ref. act_keeps P (f ref hc match req)"
  shows "act_keeps P (with_libvirt L lv os f hc match req)"
  unfolding with_libvirt_def Let_def
proof (rule with_user_keeps, rule act_keeps_bind)
  show "act_keeps P (act_catch is_runtime_error
      (act_bind (on_sv_pool (pool_get lv os (sub_match match 1))) (\<lambda>conn. act_return (Some conn)))
      (\<lambda>e. act_then (respond L (error ''Unable to connect to libvirt'') Internal_Server_Error) (act_return None)))"
    by (intro act_keeps_catch act_keeps_bind act_keeps_then pool_call respond_call act_keeps_return)
qed (auto intro: assms split: option.split)

lemma with_libvirt_domain_keeps:
  assumes "\<And>ref d. act_keeps P (f ref d hc match req)"
  shows "act_keeps P (with_libvirt_domain L lv os f hc match req)"
  unfolding with_libvirt_domain_def Let_def
proof (rule with_libvirt_keeps, rule act_keeps_bind)
  fix ref
  show "act_keeps P (act_catch is_domain_error
      (act_bind (on_conn ref (\<lambda>c. connection_domain lv c (sub_match match 2))) (\<lambda>d. act_return (Some d)))
      (\<lambda>e. act_then (respond L (error ''Domain not found'') Not_Found) (act_return None)))"
    by (intro act_keeps_catch act_keeps_bind act_keeps_then view_invariant.conn_call [OF for_views]
        respond_call act_keeps_return)
qed (auto intro: assms split: option.split)

lemma handler_keeps:
  assumes "\<And>u. e \<noteq> User_Route Ws_Op u"
  shows "act_keeps P (handler_of conf L lv os e hc match req)"
proof (cases e)
  case Redirect
  then show ?thesis by (auto simp: append_trailing_slash_def Let_def intro: response_call)
next
  case (User_Route op u)
  then show ?thesis
    using assms view_invariant.libvirt_views_keep [OF for_views]
    by (cases op) (auto intro!: with_methods_keeps with_libvirt_keeps)
next
  case (Domain_Route op u n)
  have "act_keeps P (domain_view_of conf L lv os op ref d hc match req)" for ref d
    using view_invariant.views_keep [OF for_views] by (cases op) auto
  with Domain_Route show ?thesis by (auto intro!: with_methods_keeps with_libvirt_domain_keeps)
qed

lemma log_call: "act_keeps P (log_access req)"
  by (auto simp: act_keeps_def log_access_run intro: keeps_log)

lemma router_keeps:
  assumes "\<And>u. path_endpoint (rq_target req) \<noteq> Some (User_Route Ws_Op u)"
  shows "act_keeps P (router_run L (app_router conf L lv os) hc req)"
proof (cases "path_endpoint (rq_target req)")
  case None
  then show ?thesis
    by (auto simp: router_run_def route_dispatch_fact not_found_def Let_def act_bind_def act_lift_def
        intro!: act_keeps_then response_call log_call)
next
  case (Some e)
  have "find_route (ro_regex (app_router conf L lv os)) (rq_target req) (ro_routes (app_router conf L lv os)) =
      Ok (Some (handler_of conf L lv os e, groups (rq_target req) e))"
    by (simp add: route_dispatch_fact Some)
  moreover have "act_keeps P (act_then (run_route L (handler_of conf L lv os e) (groups (rq_target req) e) hc req)
      (log_access req))"
    using assms Some by (intro act_keeps_then run_route_keeps log_call handler_keeps keeps_response) auto
  ultimately show ?thesis by (simp add: act_keeps_def router_run_found)
qed

end

section \<open>What requests leave alone\<close>

text \<open>
  The tables of websockets and events, and the HTTP connections, are the same, and no user's
  connection has left the pool.
\<close>

definition pool_grows :: "conn_pool \<Rightarrow> conn_pool \<Rightarrow> bool" where
  "pool_grows p q \<longleftrightarrow> (\<forall>u. sm_find u p \<noteq> None \<longrightarrow> sm_find u q \<noteq> None)"

definition ws_same :: "'w server \<Rightarrow> 'w server \<Rightarrow> bool" where
  "ws_same s t \<longleftrightarrow> sv_ws t = sv_ws s \<and> sv_next_ws t = sv_next_ws s \<and> sv_events t = sv_events s \<and>
     sv_websockets t = sv_websockets s \<and> sv_http t = sv_http s \<and> pool_grows (sv_pool s) (sv_pool t)"

lemma pool_grows_refl [simp]: "pool_grows p p"
  by (simp add: pool_grows_def)

lemma pool_grows_trans: "pool_grows p q \<Longrightarrow> pool_grows q r \<Longrightarrow> pool_grows p r"
  by (simp add: pool_grows_def)

lemma pool_grows_put: "pool_grows p q \<Longrightarrow> pool_grows p (sm_put u c q)"
  by (simp add: pool_grows_def sm_find_put)

lemma ws_same_refl [simp]: "ws_same s s"
  by (simp add: ws_same_def)

lemma ws_same_trans: "ws_same s t \<Longrightarrow> ws_same t r \<Longrightarrow> ws_same s r"
  by (auto simp: ws_same_def intro: pool_grows_trans)

lemma pool_get_grows:
  assumes "pool_get lv os u (pool, w) = (r, (p, w'))"
  shows "pool_grows pool p"
proof (cases "slot_open u pool")
  case True
  with assms show ?thesis by (auto simp: pool_get_open)
next
  case False
  with assms show ?thesis
    by (auto simp: pool_get_closed pool_grows_def sm_find_put split: prod.splits)
qed

lemma pool_get_found: "pool_ok pool \<Longrightarrow> pool_get lv os u (pool, w) = (Ok ref, (p, w')) \<Longrightarrow> sm_find ref p \<noteq> None"
  using pool_get_sound [of pool lv os u w "Ok ref" p w'] by (auto simp: slot_open_def)

interpretation ws_frame: request_invariant "\<lambda>s. pool_ok (sv_pool s) \<and> ws_same s0 s" lv os for s0 lv os
proof unfold_locales
  fix s :: "'a server" and u r p w
  assume "pool_ok (sv_pool s) \<and> ws_same s0 s" and get: "pool_get lv os u (sv_pool s, sv_world s) = (r, (p, w))"
  then show "pool_ok (sv_pool (s\<lparr>sv_pool := p, sv_world := w\<rparr>)) \<and> ws_same s0 (s\<lparr>sv_pool := p, sv_world := w\<rparr>)"
    using pool_get_sound [OF _ get] pool_get_grows [OF get] by (auto simp: ws_same_def intro: pool_grows_trans)
qed (auto simp: ws_same_def intro: pool_ok_put pool_grows_put)

end
