(* ===== verification/Ws_Route.thy ===== *)
theory Ws_Route
  imports Requests
begin

text \<open>
  The websocket route. What it does to the state is described exactly: either a guard ends the
  request, and the tables of websockets and events are untouched, or one websocket has been made,
  with the two callbacks of \<open>app::websocket\<close>, and filed under the user.
\<close>

section \<open>Users of the pooled connections\<close>

text \<open>
  The name in a slot is the user's, or the slot holds an object no connect has succeeded on.
\<close>

definition slot_named :: "string \<Rightarrow> connection \<Rightarrow> bool" where
  "slot_named u c \<longleftrightarrow> vc_user c = u \<or> vc_user c = [] \<and> vc_ptr c = None"

definition pool_named :: "conn_pool \<Rightarrow> bool" where
  "pool_named pool \<longleftrightarrow> pool_ok pool \<and> (\<forall>u c. sm_find u pool = Some c \<longrightarrow> slot_named u c)"

lemma pool_named_put: "pool_named pool \<Longrightarrow> slot_ok u c \<Longrightarrow> slot_named u c \<Longrightarrow> pool_named (sm_put u c pool)"
  by (auto simp: pool_named_def sm_find_put pool_ok_put)

lemma slot_named_closed: "slot_named u c \<Longrightarrow> slot_named u (snd (close_func c))"
  by (simp add: close_func_def act_simps slot_named_def)

lemma connect_named:
  assumes "connect lv os u (new_connection, w) = (q, (c, w'))"
  shows "slot_named u c"
proof -
  obtain r w1 where r: "virConnectOpen lv (c_str (uri u)) w = (r, w1)" by force
  have "vc_ptr new_connection = None" by (simp add: new_connection_def)
  from connect_fresh [OF this r, where os = os]
  have "slot_named u (fst (snd (connect lv os u (new_connection, w))))"
    by (auto simp: slot_named_def act_bind_fst_kept new_connection_def split: outcome.split option.split)
  then show ?thesis by (simp add: assms)
qed

lemma pool_get_named:
  assumes "pool_named pool" and get: "pool_get lv os u (pool, w) = (r, (p, w'))"
  shows "pool_named p"
proof (cases "slot_open u pool")
  case True
  with assms show ?thesis by (auto simp: pool_get_open)
next
  case False
  obtain q c w1 where q: "connect lv os u (new_connection, w) = (q, (c, w1))" by (metis prod_cases3)
  with False get have "p = sm_put u c pool" by (simp add: pool_get_closed)
  moreover have "pool_ok p" using pool_get_sound [OF _ get] assms(1) by (simp add: pool_named_def)
  ultimately show ?thesis
    using connect_named [OF q] assms(1) by (auto simp: pool_named_def sm_find_put)
qed

definition ws_frame_from :: "'w server \<Rightarrow> 'w server \<Rightarrow> bool" where
  "ws_frame_from s0 s \<longleftrightarrow> pool_named (sv_pool s) \<and> ws_same s0 s"

interpretation named_frame: request_invariant "ws_frame_from s0" lv os for s0 lv os
proof unfold_locales
  fix s :: "'a server" and u r p w
  assume "ws_frame_from s0 s" and get: "pool_get lv os u (sv_pool s, sv_world s) = (r, (p, w))"
  then show "ws_frame_from s0 (s\<lparr>sv_pool := p, sv_world := w\<rparr>)"
    using pool_get_named [OF _ get] pool_get_grows [OF get]
    by (auto simp: ws_frame_from_def ws_same_def intro: pool_grows_trans)
next
  fix s :: "'a server" and w c ref
  assume s: "ws_frame_from s0 s" and c: "sm_find ref (sv_pool s) = Some c"
  then have "pool_named (sm_put ref (snd (close_func c)) (sv_pool s))"
    by (intro pool_named_put slot_ok_closed slot_named_closed) (auto simp: ws_frame_from_def pool_named_def)
  with s show "ws_frame_from s0 (s\<lparr>sv_world := w, sv_pool := sm_put ref (snd (close_func c)) (sv_pool s)\<rparr>)"
    by (simp add: ws_frame_from_def ws_same_def pool_grows_put)
qed (auto simp: ws_frame_from_def ws_same_def)

section \<open>A new websocket\<close>

definition ws_added :: "string \<Rightarrow> http_id \<Rightarrow> 'w server \<Rightarrow> 'w server \<Rightarrow> bool" where
  "ws_added u h s t \<longleftrightarrow> (\<exists>hc. sm_find h (sv_http s) = Some hc \<and>
     sv_next_ws t = sv_next_ws s + 1 \<and> sv_events t = sv_events s \<and> sv_pool t = sv_pool s \<and>
     (\<forall>w. sm_find w (sv_ws t) = (if w = sv_next_ws s
        then Some \<lparr>ws_request = hc_request hc, ws_on_handshake = hc_on_handshake hc @ [Ws_Handshake u u],
          ws_on_close = hc_on_close hc @ [Ws_Close u u w]\<rparr>
        else sm_find w (sv_ws s))) \<and>
     (\<forall>v. ws_bucket v t = (if v = u then ws_bucket u s @ [sv_next_ws s] else ws_bucket v s)) \<and>
     sv_http t = sm_put h (hc\<lparr>hc_upgrade := True, hc_websock := Some (sv_next_ws s), hc_has_socket := False\<rparr>) (sv_http s))"

lemma ws_modify_run:
  "sm_find w (sv_ws s) = Some c \<Longrightarrow> ws_modify w f s = (Ok (), s\<lparr>sv_ws := sm_put w (f c) (sv_ws s)\<rparr>)"
  by (simp add: ws_modify_def)

lemma ws_bucket_cong: "sv_websockets t = sv_websockets s \<Longrightarrow> ws_bucket v t = ws_bucket v s"
  by (simp add: ws_bucket_def)

lemma app_websocket_run:
  assumes "slot_open u (sv_pool s)" "pool_ok (sv_pool s)" and hc: "sm_find h (sv_http s) = Some hc"
  shows "\<exists>t. app_websocket u (Some h) match req s = (Ok (), t) \<and> ws_added u h s t"
proof -
  let ?w = "sv_next_ws s"
  from assms(1,2) have user: "conn_user u s = (Ok u, s)"
    by (auto simp: slot_open_def conn_user_def on_conn_def act_return_def pool_ok_def slot_ok_def)
  define s1 where "s1 = snd (upgrade (Some h) s)"
  have up: "upgrade (Some h) s = (Ok ?w, s1)" using hc by (simp add: s1_def upgrade_def Let_def)
  define s2 where "s2 = s1\<lparr>sv_ws := sm_put ?w ((new_ws hc)\<lparr>ws_on_handshake := hc_on_handshake hc @ [Ws_Handshake u u]\<rparr>) (sv_ws s1)\<rparr>"
  define s3 where "s3 = s2\<lparr>sv_ws := sm_put ?w ((new_ws hc)\<lparr>ws_on_handshake := hc_on_handshake hc @ [Ws_Handshake u u],
      ws_on_close := hc_on_close hc @ [Ws_Close u u ?w]\<rparr>) (sv_ws s2)\<rparr>"
  have m1: "ws_modify ?w (\<lambda>c. c\<lparr>ws_on_handshake := ws_on_handshake c @ [Ws_Handshake u u]\<rparr>) s1 = (Ok (), s2)"
    using ws_modify_run [of ?w s1 "new_ws hc"] hc by (simp add: s1_def s2_def upgrade_def Let_def sm_find_put new_ws_def)
  have m2: "ws_modify ?w (\<lambda>c. c\<lparr>ws_on_close := ws_on_close c @ [Ws_Close u u ?w]\<rparr>) s2 = (Ok (), s3)"
    using ws_modify_run [of ?w s2] by (simp add: s2_def s3_def sm_find_put new_ws_def)
  obtain m where m: "ws_pool_add u ?w s3 = (Ok (), s3\<lparr>sv_websockets := m\<rparr>)"
    "\<And>v. ws_bucket v (s3\<lparr>sv_websockets := m\<rparr>) = (if v = u then ws_bucket u s3 @ [?w] else ws_bucket v s3)"
    using ws_pool_add_run by blast
  have s3: "sv_websockets s3 = sv_websockets s" "sv_pool s3 = sv_pool s" "sv_events s3 = sv_events s"
    "sv_next_ws s3 = ?w + 1"
    "sv_http s3 = sm_put h (hc\<lparr>hc_upgrade := True, hc_websock := Some ?w, hc_has_socket := False\<rparr>) (sv_http s)"
    "\<And>w. sm_find w (sv_ws s3) = (if w = ?w
        then Some \<lparr>ws_request = hc_request hc, ws_on_handshake = hc_on_handshake hc @ [Ws_Handshake u u],
          ws_on_close = hc_on_close hc @ [Ws_Close u u w]\<rparr>
        else sm_find w (sv_ws s))"
    using hc by (simp_all add: s3_def s2_def s1_def upgrade_def Let_def sm_find_put new_ws_def)
  let ?t = "s3\<lparr>sv_websockets := m, sv_response := set_result Switching_Protocols (sv_response s3)\<rparr>"
  have "app_websocket u (Some h) match req s = (Ok (), ?t)"
    by (simp add: app_websocket_def act_bind_Ok [where m = "conn_user u", OF user] act_bind_Ok [where m = "upgrade (Some h)", OF up]
        act_then_Ok [where m = "ws_modify w f" for w f, OF m1] act_then_Ok [where m = "ws_modify w f" for w f, OF m2]
        act_then_Ok [where m = "ws_pool_add u w" for w, OF m(1)] modify_response_run)
  moreover have "ws_bucket v ?t = (if v = u then ws_bucket u s @ [?w] else ws_bucket v s)" for v
    using m(2) [of v] s3(1) by (simp add: ws_bucket_def)
  ultimately show ?thesis using hc by (auto simp: ws_added_def s3)
qed

section \<open>The route behind its guards\<close>

text \<open>The two ways through the route, for a state \<open>s0\<close> it is measured against.\<close>

definition ws_outcome :: "string \<Rightarrow> http_id \<Rightarrow> 'w server \<Rightarrow> unit outcome \<times> 'w server \<Rightarrow> bool" where
  "ws_outcome u h s0 res \<longleftrightarrow> ws_frame_from s0 (snd res) \<or>
     (\<exists>s1. ws_frame_from s0 s1 \<and> slot_open u (sv_pool s1) \<and> ws_added u h s1 (snd res) \<and> fst res = Ok ())"

lemma check_libvirt_frame:
  assumes "ws_frame_from s0 s"
  shows "check_libvirt L lv os c s = Inl r \<Longrightarrow> ws_frame_from s0 (snd r)"
    and "check_libvirt L lv os c s = Inr ((ref, c'), s1) \<Longrightarrow> ws_frame_from s0 s1"
proof -
  obtain hc match req where c: "c = (hc, match, req)" by (cases c) auto
  let ?run = "with_libvirt L lv os (\<lambda>ref hc match req. act_return ()) hc match req s"
  have "act_keeps (ws_frame_from s0) (with_libvirt L lv os (\<lambda>ref hc match req. act_return ()) hc match req)"
    by (rule named_frame.with_libvirt_keeps) simp
  from act_keepsD [OF this assms] have run: "ws_frame_from s0 (snd ?run)" .
  show "check_libvirt L lv os c s = Inl r \<Longrightarrow> ws_frame_from s0 (snd r)"
    and "check_libvirt L lv os c s = Inr ((ref, c'), s1) \<Longrightarrow> ws_frame_from s0 s1"
    using run by (simp_all add: with_libvirt_check c act_simps)
qed

lemma check_libvirt_open:
  assumes "check_libvirt L lv os (conn, match, req) s = Inr ((ref, c), s1)" and "pool_ok (sv_pool s)"
  shows "slot_open (sub_match match 1) (sv_pool s1)"
proof -
  from assms(1) obtain w where
    "on_sv_pool (pool_get lv os (sub_match match 1)) (s\<lparr>sv_world := w\<rparr>) = (Ok ref, s1)"
    by (auto simp: check_libvirt_def check_user_def Let_def split: sum.splits prod.splits outcome.splits if_splits)
  then show ?thesis
    using pool_get_sound [OF assms(2), of lv os "sub_match match 1" w]
    by (auto simp: on_sv_pool_def Let_def split: prod.splits)
qed

lemma with_libvirt_websocket:
  assumes s: "ws_frame_from s0 s" and hc: "sm_find h (sv_http s) = Some hc" and "sub_match match 1 = u"
  shows "ws_outcome u h s0 (with_libvirt L lv os app_websocket (Some h) match req s)"
proof (cases "check_libvirt L lv os (Some h, match, req) s")
  case (Inl r)
  then show ?thesis
    using check_libvirt_frame(1) [OF s Inl] by (simp add: with_libvirt_check ws_outcome_def)
next
  case (Inr p)
  then obtain ref c s1 where c: "check_libvirt L lv os (Some h, match, req) s = Inr ((ref, c), s1)"
    by (cases p) auto
  have s1: "ws_frame_from s0 s1" using check_libvirt_frame(2) [OF s c] .
  have "ref = u" using check_libvirt_ref [OF c] assms(3) by simp
  moreover have op: "slot_open u (sv_pool s1)"
    using check_libvirt_open [OF c] s assms(3) by (simp add: ws_frame_from_def pool_named_def)
  moreover have "sm_find h (sv_http s1) = Some hc"
    using s s1 hc by (simp add: ws_frame_from_def ws_same_def)
  ultimately obtain t where "app_websocket ref (Some h) match req s1 = (Ok (), t)" "ws_added u h s1 t"
    using app_websocket_run [OF op _, of h hc match req] s1 by (auto simp: ws_frame_from_def pool_named_def)
  then show ?thesis
    using c s1 op by (auto simp: with_libvirt_check ws_outcome_def)
qed

lemma ws_handler_run:
  assumes s: "ws_frame_from s0 s" and hc: "sm_find h (sv_http s) = Some hc" and "sub_match match 1 = u"
  shows "ws_outcome u h s0 (with_methods [Get] (with_libvirt L lv os app_websocket) (Some h) match req s)"
proof -
  have resp: "ws_frame_from s0 (s\<lparr>sv_response := r\<rparr>)" for r
    using s by (simp add: ws_frame_from_def ws_same_def)
  show ?thesis
    using with_libvirt_websocket [OF resp, where h = h] hc assms(3) resp
    by (auto simp: with_methods_def act_simps ws_outcome_def)
qed

definition no_throw :: "('s, 'a) act \<Rightarrow> bool" where
  "no_throw m \<longleftrightarrow> (\<forall>s e. fst (m s) \<noteq> Throw e)"

lemma no_throw_bind: "no_throw m \<Longrightarrow> (\<And>a. no_throw (f a)) \<Longrightarrow> no_throw (act_bind m f)"
  by (auto simp: no_throw_def act_bind_def split: prod.split outcome.split) (metis fst_conv)

lemma no_throw_then: "no_throw m \<Longrightarrow> no_throw n \<Longrightarrow> no_throw (act_then m n)"
  by (simp add: act_then_def no_throw_bind)

lemma no_throw_websocket: "no_throw (app_websocket ref hc match req)"
  unfolding app_websocket_def
  by (intro no_throw_bind no_throw_then)
     (auto simp: no_throw_def conn_user_def on_conn_def act_return_def upgrade_def Let_def ws_modify_def
       ws_pool_add_def modify_response_def act_modify_def split: option.split prod.split)

lemma ws_handler_no_retry:
  "with_methods [Get] (with_libvirt L lv os app_websocket) hc match req s \<noteq> (Throw (Retry_Error msg), t)"
proof
  assume "with_methods [Get] (with_libvirt L lv os app_websocket) hc match req s = (Throw (Retry_Error msg), t)"
  then obtain s' where w: "with_libvirt L lv os app_websocket hc match req s' = (Throw (Retry_Error msg), t)"
    by (auto simp: with_methods_def act_simps split: if_splits)
  then obtain ref s1 where "app_websocket ref hc match req s1 = (Throw (Retry_Error msg), t)"
    using check_libvirt_no_retry [of L lv os "(hc, match, req)" s'] by (auto simp: with_libvirt_check split: sum.splits)
  with no_throw_websocket [of ref hc match req] show False
    by (metis fst_conv no_throw_def)
qed

section \<open>A whole request\<close>

lemma ws_frame_from_insensitive [simp]:
  "ws_frame_from s0 (s\<lparr>sv_response := r\<rparr>) = ws_frame_from s0 s" "ws_frame_from s0 (s\<lparr>sv_log := l\<rparr>) = ws_frame_from s0 s"
  by (simp_all add: ws_frame_from_def ws_same_def)

lemma ws_added_insensitive [simp]:
  "ws_added u h s (t\<lparr>sv_response := r\<rparr>) = ws_added u h s t" "ws_added u h s (t\<lparr>sv_log := l\<rparr>) = ws_added u h s t"
  by (simp_all add: ws_added_def ws_bucket_def)

lemma ws_outcome_then:
  assumes "ws_outcome u h s0 (m s)" and "\<And>t. \<exists>r l. n t = (Ok (), t\<lparr>sv_response := r, sv_log := l\<rparr>)"
  shows "ws_outcome u h s0 (act_then m n s)"
proof (cases "m s")
  case (Pair r t)
  obtain q l where "n t = (Ok (), t\<lparr>sv_response := q, sv_log := l\<rparr>)" using assms(2) by blast
  with assms(1) Pair show ?thesis
    by (cases r) (auto simp: ws_outcome_def act_then_def act_bind_def)
qed

lemma log_access_effect: "\<exists>r l. log_access req t = (Ok (), t\<lparr>sv_response := r, sv_log := l\<rparr>)"
  by (rule exI [of _ "sv_response t"]) (auto simp: log_access_def act_modify_def Let_def)

lemma modify_response_effect: "\<exists>r l. modify_response f t = (Ok (), t\<lparr>sv_response := r, sv_log := l\<rparr>)"
  by (rule exI [of _ "f (sv_response t)"], rule exI [of _ "sv_log t"]) (simp add: modify_response_run)

lemma ws_router_run:
  assumes s: "ws_frame_from s0 s" and hc: "sm_find h (sv_http s) = Some hc"
    and e: "path_endpoint (rq_target req) = Some (User_Route Ws_Op u)"
  shows "ws_outcome u h s0 (router_run L (app_router conf L lv os) (Some h) req s)"
proof -
  let ?f = "with_methods [Get] (with_libvirt L lv os app_websocket)" and ?m = "[rq_target req, u]"
  let ?s = "s\<lparr>sv_response := new_response\<rparr>"
  have "find_route (ro_regex (app_router conf L lv os)) (rq_target req) (ro_routes (app_router conf L lv os)) =
      Ok (Some (?f, ?m))"
    by (simp add: route_dispatch_fact e)
  from router_run_found [OF this]
  have run: "router_run L (app_router conf L lv os) (Some h) req s =
      act_then (run_route L ?f ?m (Some h) req) (log_access req) s" .
  obtain r t where f: "?f (Some h) ?m req ?s = (r, t)" by force
  have out: "ws_outcome u h s0 (r, t)"
    using ws_handler_run [of s0 ?s h hc ?m u L lv os req] s hc unfolding f by (simp add: sub_match_def)
  have "\<not> wants_retry (fst (route_attempt ?f ?m req (Some h, s)))"
    using ws_handler_no_retry [of L lv os "Some h" ?m req ?s] f
    by (auto simp: route_attempt_def wants_retry_def split: outcome.split elim!: is_retry_errorE)
  from retry_call_stop [where func = "route_attempt ?f ?m req", OF this] have "run_route L ?f ?m (Some h) req s = (case r of
      Throw e \<Rightarrow> respond L (error (what e)) Internal_Server_Error t | r \<Rightarrow> (r, t))"
    by (simp add: run_route_def route_attempt_def f split: outcome.split)
  then have "ws_outcome u h s0 (run_route L ?f ?m (Some h) req s)"
    using out by (cases r) (auto simp: ws_outcome_def act_simps)
  then show ?thesis unfolding run by (rule ws_outcome_then) (rule log_access_effect)
qed

lemma other_router_run:
  assumes "ws_frame_from s0 s" and "\<And>u. path_endpoint (rq_target req) \<noteq> Some (User_Route Ws_Op u)"
  shows "ws_frame_from s0 (snd (router_run L (app_router conf L lv os) hc req s))"
  using named_frame.router_keeps [OF assms(2)] assms(1) by (rule act_keepsD)

text \<open>
  What \<open>process_request\<close> does when the request callback is the router: the websocket it runs is the
  one the request has made.
\<close>

definition request_effect :: "http_id \<Rightarrow> request \<Rightarrow> 'w server \<Rightarrow> next_io \<Rightarrow> 'w server \<Rightarrow> bool" where
  "request_effect h req s io t \<longleftrightarrow>
     ws_frame_from s t \<and> io = Write_Response \<and> \<not> rq_upgrade req \<or>
     (\<exists>u s1. path_endpoint (rq_target req) = Some (User_Route Ws_Op u) \<and> ws_frame_from s s1 \<and>
        slot_open u (sv_pool s1) \<and> ws_added u h s1 t \<and>
        io = (if rq_upgrade req then Run_Websocket (sv_next_ws s) else Write_Response))"

lemma router_outcome:
  assumes "ws_frame_from s0 s" "sm_find h (sv_http s) = Some hc"
  shows "ws_frame_from s0 (snd (router_run L (app_router conf L lv os) (Some h) req s)) \<or>
    (\<exists>u. path_endpoint (rq_target req) = Some (User_Route Ws_Op u) \<and>
       ws_outcome u h s0 (router_run L (app_router conf L lv os) (Some h) req s))"
  using ws_router_run [OF assms, of req] other_router_run [OF assms(1), of req] by blast

text \<open>What \<open>process_request\<close> does after the request callback.\<close>

definition finish_request :: "http_id \<Rightarrow> request \<Rightarrow> ('w server, next_io) act" where
  "finish_request h req =
     act_then (modify_response (\<lambda>r. r\<lparr>rs_length := Some (length (rs_body r))\<rparr>))
       (if rq_upgrade req
        then act_bind (act_read (\<lambda>s. sm_find h (sv_http s))) (\<lambda>hc. case hc of
            None \<Rightarrow> act_undef
          | Some hc \<Rightarrow> (case hc_websock hc of None \<Rightarrow> act_undef | Some w \<Rightarrow> act_return (Run_Websocket w)))
        else act_return Write_Response)"

lemma process_request_router:
  assumes "sm_find h (sv_http s) = Some hc"
  shows "\<exists>r0. process_request sn (app_on_request conf L lv os) h s =
    act_then (router_run L (app_router conf L lv os) (Some h) (hc_request hc)) (finish_request h (hc_request hc))
      (s\<lparr>sv_response := r0\<rparr>)"
  unfolding process_request_def app_on_request_def finish_request_def using assms
  by (simp add: Let_def act_simps) blast

lemma process_request_effect:
  assumes named: "pool_named (sv_pool s)" and hc: "sm_find h (sv_http s) = Some hc" "hc_websock hc = None"
    and run: "process_request sn (app_on_request conf L lv os) h s = (Ok io, t)"
  shows "request_effect h (hc_request hc) s io t"
proof -
  let ?req = "hc_request hc" and ?router = "router_run L (app_router conf L lv os) (Some h) (hc_request hc)"
  obtain r0 where r0: "process_request sn (app_on_request conf L lv os) h s =
      act_then ?router (finish_request h ?req) (s\<lparr>sv_response := r0\<rparr>)"
    using process_request_router [OF hc(1)] by blast
  let ?s = "s\<lparr>sv_response := r0\<rparr>"
  have s: "ws_frame_from s ?s" using named by (simp add: ws_frame_from_def ws_same_def)
  obtain q t1 where q: "?router ?s = (q, t1)" by force
  with r0 run have "q = Ok ()" by (cases q) (auto simp: act_simps)
  with q r0 run obtain r1 where t: "t = t1\<lparr>sv_response := r1\<rparr>" and io:
    "io = (if rq_upgrade ?req then Run_Websocket (the (hc_websock (the (sm_find h (sv_http t1))))) else Write_Response)"
    "rq_upgrade ?req \<Longrightarrow> \<exists>hc w. sm_find h (sv_http t1) = Some hc \<and> hc_websock hc = Some w"
    by (auto simp: act_simps finish_request_def split: if_splits option.splits)
  from router_outcome [OF s, of h hc L conf lv os ?req] hc(1) q have
    "ws_frame_from s t1 \<or> (\<exists>u s1. path_endpoint (rq_target ?req) = Some (User_Route Ws_Op u) \<and>
       ws_frame_from s s1 \<and> slot_open u (sv_pool s1) \<and> ws_added u h s1 t1)"
    by (auto simp: ws_outcome_def)
  then show ?thesis
  proof (elim disjE exE conjE)
    assume frame: "ws_frame_from s t1"
    then have "sv_http t1 = sv_http s" by (simp add: ws_frame_from_def ws_same_def)
    with io(2) hc have "\<not> rq_upgrade ?req" by auto
    with frame io(1) show ?thesis by (simp add: request_effect_def t)
  next
    fix u s1 assume *: "path_endpoint (rq_target ?req) = Some (User_Route Ws_Op u)"
      "ws_frame_from s s1" "slot_open u (sv_pool s1)" "ws_added u h s1 t1"
    then have "rq_upgrade ?req \<Longrightarrow> the (hc_websock (the (sm_find h (sv_http t1)))) = sv_next_ws s"
      by (auto simp: ws_added_def sm_find_put ws_frame_from_def ws_same_def)
    with * io(1) show ?thesis by (auto simp: request_effect_def t)
  qed
qed

end
