(* ===== verification/Ws_Callbacks.thy ===== *)
theory Ws_Callbacks
  imports Ws_Route
begin

text \<open>
  The two callbacks of a websocket, in terms of lookups: the first handshake of a user registers the
  user's events, the close of the user's last websocket removes them again.
\<close>

section \<open>Registering and removing\<close>

text \<open>The registration of a user's events, as a table entry.\<close>

definition registered :: "event \<Rightarrow> events" where
  "registered ev = [(VIR_DOMAIN_EVENT_ID_LIFECYCLE, ev)]"

lemma sm_put_singleton: "sm_put k v [] = [(k, v)]"
  by simp

lemma sm_put_put: "sm_put k v (sm_put k v' m) = sm_put k v m"
  by (induction k v m rule: sm_put.induct) auto

lemma conn_user_run: "sm_find ref (sv_pool s) = Some c \<Longrightarrow> conn_user ref s = (Ok (vc_user c), s)"
  by (simp add: conn_user_def on_conn_def act_return_def)

lemma event_destroy_Ok:
  assumes "event_destroy lv ev s = (Ok (), t)"
  shows "\<exists>w. t = s\<lparr>sv_world := w\<rparr>"
  using assms
  by (auto simp: event_destroy_def act_catch_def act_bind_def on_conn_def act_undef_def act_return_def
      split: prod.splits outcome.splits option.splits if_splits)

lemma on_conn_Ok_world:
  assumes "on_conn ref m s = (Ok a, t)"
  shows "\<exists>c w. sm_find ref (sv_pool s) = Some c \<and> m c (sv_world s) = (Ok a, w) \<and> t = s\<lparr>sv_world := w\<rparr>"
  using assms by (auto simp: on_conn_def split: option.splits prod.splits outcome.splits)

lemma lifecycle_event_new_Ok:
  assumes "lifecycle_event_new lv ref user s = (Ok ev, t)"
  shows "\<exists>c w i. sm_find ref (sv_pool s) = Some c \<and> t = s\<lparr>sv_world := w\<rparr> \<and> i \<noteq> -1 \<and>
    virConnectDomainEventRegisterAny lv (vc_ptr c) VIR_DOMAIN_EVENT_ID_LIFECYCLE (sv_world s) = (Ok i, w) \<and>
    ev = \<lparr>ev_conn = ref, ev_callback_id = i, ev_user = user, ev_registered = vc_ptr c\<rparr>"
proof -
  have "register_event lv VIR_DOMAIN_EVENT_ID_LIFECYCLE (event_new ref user) s = (Ok ev, t)"
    using assms
    by (auto simp: lifecycle_event_new_def act_catch_def act_then_def act_bind_def act_throw_def
        split: prod.splits outcome.splits)
  from this [unfolded register_event_def] obtain i s1
    where reg: "on_conn (ev_conn (event_new ref user))
        (\<lambda>c. virConnectDomainEventRegisterAny lv (vc_ptr c) VIR_DOMAIN_EVENT_ID_LIFECYCLE) s = (Ok i, s1)"
      and rest: "act_bind (on_conn (ev_conn (event_new ref user)) (\<lambda>c. act_return (vc_ptr c))) (\<lambda>ptr.
     if i = -1 then act_throw (Runtime_Error ''Event registration failed'')
     else act_return ((event_new ref user)\<lparr>ev_callback_id := i, ev_registered := ptr\<rparr>)) s1 = (Ok ev, t)"
    by (rule act_bind_OkE)
  have conn: "ev_conn (event_new ref user) = ref" by (simp add: event_new_def)
  from on_conn_Ok_world [OF reg [unfolded conn]] obtain c w where c: "sm_find ref (sv_pool s) = Some c"
    "virConnectDomainEventRegisterAny lv (vc_ptr c) VIR_DOMAIN_EVENT_ID_LIFECYCLE (sv_world s) = (Ok i, w)"
    "s1 = s\<lparr>sv_world := w\<rparr>" by blast
  then have "on_conn ref (\<lambda>c. act_return (vc_ptr c)) s1 = (Ok (vc_ptr c), s1)"
    by (simp add: on_conn_def act_return_def)
  with rest [unfolded conn] c show ?thesis
    by (auto simp: act_bind_def act_throw_def act_return_def event_new_def split: if_splits)
qed

text \<open>The handshake callback: either the user's events are there, or they are registered now.\<close>

definition handshake_effect :: "'w libvirt_c \<Rightarrow> string \<Rightarrow> 'w server \<Rightarrow> 'w server \<Rightarrow> bool" where
  "handshake_effect lv u s t \<longleftrightarrow> (\<exists>c. sm_find u (sv_pool s) = Some c \<and>
     (sm_find (vc_user c) (sv_events s) \<noteq> None \<and> t = s \<or>
      sm_find (vc_user c) (sv_events s) = None \<and> (\<exists>w i. i \<noteq> -1 \<and>
        virConnectDomainEventRegisterAny lv (vc_ptr c) VIR_DOMAIN_EVENT_ID_LIFECYCLE (sv_world s) = (Ok i, w) \<and>
        t = s\<lparr>sv_world := w, sv_events := sm_put (vc_user c) (registered
          \<lparr>ev_conn = u, ev_callback_id = i, ev_user = vc_user c, ev_registered = vc_ptr c\<rparr>) (sv_events s)\<rparr>)))"

lemma add_events_Ok:
  assumes "add_events lv [] u s = (Ok (), t)" and c: "sm_find u (sv_pool s) = Some c"
    and none: "sm_find (vc_user c) (sv_events s) = None"
  shows "handshake_effect lv u s t"
proof -
  from assms(1) have "act_bind (lifecycle_event_new lv u (vc_user c)) (\<lambda>ev.
     act_bind (\<lambda>s. let (evs, m) = sm_index [] (vc_user c) (sv_events s) in (Ok evs, s\<lparr>sv_events := m\<rparr>)) (\<lambda>user_events.
     act_bind (events_set lv VIR_DOMAIN_EVENT_ID_LIFECYCLE ev user_events) (\<lambda>user_events.
     act_then (act_modify (\<lambda>s. s\<lparr>sv_events := sm_put (vc_user c) user_events (sv_events s)\<rparr>))
     (handler_call [] u)))) s = (Ok (), t)"
    by (simp add: add_events_def act_bind_Ok [where m = "conn_user u", OF conn_user_run [OF c]])
  then obtain ev s1 where ev: "lifecycle_event_new lv u (vc_user c) s = (Ok ev, s1)"
    and rest: "act_bind (\<lambda>s. let (evs, m) = sm_index [] (vc_user c) (sv_events s) in (Ok evs, s\<lparr>sv_events := m\<rparr>)) (\<lambda>user_events.
     act_bind (events_set lv VIR_DOMAIN_EVENT_ID_LIFECYCLE ev user_events) (\<lambda>user_events.
     act_then (act_modify (\<lambda>s. s\<lparr>sv_events := sm_put (vc_user c) user_events (sv_events s)\<rparr>))
     (handler_call [] u))) s1 = (Ok (), t)"
    by (rule act_bind_OkE)
  from lifecycle_event_new_Ok [OF ev] c obtain w i where w: "i \<noteq> -1" "s1 = s\<lparr>sv_world := w\<rparr>"
    "virConnectDomainEventRegisterAny lv (vc_ptr c) VIR_DOMAIN_EVENT_ID_LIFECYCLE (sv_world s) = (Ok i, w)"
    "ev = \<lparr>ev_conn = u, ev_callback_id = i, ev_user = vc_user c, ev_registered = vc_ptr c\<rparr>" by auto
  have "sm_index [] (vc_user c) (sv_events s1) = ([], sm_put (vc_user c) [] (sv_events s))"
    using none w(2) by (simp add: sm_index_def)
  with rest w(2) have "t = s\<lparr>sv_world := w, sv_events := sm_put (vc_user c) (registered ev) (sv_events s)\<rparr>"
    by (simp add: act_bind_def act_then_def act_modify_def act_return_def events_set_def handler_call_def
        sm_put_put registered_def)
  with w c none show ?thesis by (auto simp: handshake_effect_def)
qed

lemma handshake_Ok:
  assumes "ws_callback_run lv [] (Ws_Handshake u v) s = (Ok (), t)" and c: "sm_find u (sv_pool s) = Some c"
  shows "handshake_effect lv u s t"
proof (cases "sm_find (vc_user c) (sv_events s)")
  case None
  with assms(1) have "add_events lv [] u s = (Ok (), t)"
    by (simp add: ws_callback_run_def act_bind_Ok [where m = "conn_user u", OF conn_user_run [OF c]] act_simps)
  from add_events_Ok [OF this c None] show ?thesis .
next
  case (Some evs)
  with assms(1) have "t = s"
    by (simp add: ws_callback_run_def act_bind_Ok [where m = "conn_user u", OF conn_user_run [OF c]] act_simps)
  with c Some show ?thesis by (auto simp: handshake_effect_def)
qed

section \<open>Closing\<close>

text \<open>Every entry of the table of events is one registration, on the connection of the user it is filed under.\<close>

definition events_wf :: "(string, events) std_map \<Rightarrow> bool" where
  "events_wf m \<longleftrightarrow> sm_ok m \<and>
     (\<forall>k evs. sm_find k m = Some evs \<longrightarrow> k \<noteq> [] \<and> (\<exists>ev. evs = registered ev \<and> ev_conn ev = k \<and> ev_user ev = k))"

text \<open>libvirt answers a request to deregister a callback, whatever the answer.\<close>

definition deregister_answers :: "'w libvirt_c \<Rightarrow> bool" where
  "deregister_answers lv \<longleftrightarrow> (\<forall>p i w. \<exists>rc w'. virConnectDomainEventDeregisterAny lv p i w = (Ok rc, w'))"

lemma event_destroy_run:
  assumes "deregister_answers lv" "sm_find (ev_conn ev) (sv_pool s) = Some c"
  shows "\<exists>w. event_destroy lv ev s = (Ok (), s\<lparr>sv_world := w\<rparr>)"
proof -
  obtain rc w where "virConnectDomainEventDeregisterAny lv (vc_ptr c) (ev_callback_id ev) (sv_world s) = (Ok rc, w)"
    using assms(1) unfolding deregister_answers_def by blast
  with assms(2) show ?thesis
    by (auto simp: event_destroy_def act_catch_def act_bind_def on_conn_def act_return_def)
qed

lemma remove_events_run:
  assumes c: "sm_find u (sv_pool s) = Some c"
  shows "sm_find (vc_user c) (sv_events s) = None \<Longrightarrow> remove_events lv u s = (Ok (), s)"
    and "sm_find (vc_user c) (sv_events s) = Some (registered ev) \<Longrightarrow> remove_events lv u s =
      act_then (event_destroy lv ev) (act_modify (\<lambda>s. s\<lparr>sv_events := sm_delete (vc_user c) (sv_events s)\<rparr>)) s"
proof -
  assume "sm_find (vc_user c) (sv_events s) = None"
  then show "remove_events lv u s = (Ok (), s)"
    by (simp add: remove_events_def act_bind_Ok [where m = "conn_user u", OF conn_user_run [OF c]] act_simps)
next
  assume "sm_find (vc_user c) (sv_events s) = Some (registered ev)"
  moreover have "events_remove lv VIR_DOMAIN_EVENT_ID_LIFECYCLE (registered ev) =
      act_bind (event_destroy lv ev) (\<lambda>_. act_return [])"
    by (rule ext) (simp add: events_remove_def registered_def sm_erase_found_def act_simps act_then_def)
  ultimately show "remove_events lv u s =
      act_then (event_destroy lv ev) (act_modify (\<lambda>s. s\<lparr>sv_events := sm_delete (vc_user c) (sv_events s)\<rparr>)) s"
    by (simp add: remove_events_def act_bind_Ok [where m = "conn_user u", OF conn_user_run [OF c]] act_simps
        act_bind_assoc act_then_def events_size_def sm_size_def) (simp add: act_modify_def)
qed

definition close_effect :: "string \<Rightarrow> ws_id \<Rightarrow> 'w server \<Rightarrow> 'w server \<Rightarrow> bool" where
  "close_effect u w s t \<longleftrightarrow> (\<exists>c. sm_find u (sv_pool s) = Some c \<and>
     sv_pool t = sv_pool s \<and> sv_ws t = sv_ws s \<and> sv_next_ws t = sv_next_ws s \<and> sv_http t = sv_http s \<and>
     (\<forall>v. ws_bucket v t = (if v = u then remove1 w (ws_bucket u s) else ws_bucket v s)) \<and>
     sv_events t = (if remove1 w (ws_bucket u s) = [] \<and> sm_find (vc_user c) (sv_events s) \<noteq> None
        then sm_delete (vc_user c) (sv_events s) else sv_events s))"

lemma close_cases:
  assumes w: "w \<in> set (ws_bucket u s)" and c: "sm_find u (sv_pool s) = Some c"
  shows "\<exists>m. (\<forall>v. ws_bucket v (s\<lparr>sv_websockets := m\<rparr>) = (if v = u then remove1 w (ws_bucket u s) else ws_bucket v s)) \<and>
    ws_callback_run lv hook (Ws_Close u u w) s =
      (if remove1 w (ws_bucket u s) = [] then remove_events lv u else act_return ()) (s\<lparr>sv_websockets := m\<rparr>)"
proof -
  obtain m where m: "ws_pool_remove u w s = (Ok (), s\<lparr>sv_websockets := m\<rparr>)"
    "\<forall>v. ws_bucket v (s\<lparr>sv_websockets := m\<rparr>) = (if v = u then remove1 w (ws_bucket u s) else ws_bucket v s)"
    using ws_pool_remove_run [OF w] by blast
  let ?s = "s\<lparr>sv_websockets := m\<rparr>"
  obtain m' where m': "ws_pool_index u ?s = (Ok (remove1 w (ws_bucket u s)), ?s\<lparr>sv_websockets := m'\<rparr>)"
    "\<forall>v. ws_bucket v (?s\<lparr>sv_websockets := m'\<rparr>) = ws_bucket v ?s"
    using ws_pool_index_run [of u ?s] m(2) by auto
  show ?thesis
    using m m' by (intro exI [of _ m']) (auto simp: ws_callback_run_def act_then_def act_bind_def)
qed

lemma close_Ok:
  assumes "w \<in> set (ws_bucket u s)" and c: "sm_find u (sv_pool s) = Some c" and wf: "events_wf (sv_events s)"
    and run: "ws_callback_run lv hook (Ws_Close u u w) s = (Ok (), t)"
  shows "close_effect u w s t"
proof -
  obtain m where bucket: "\<forall>v. ws_bucket v (s\<lparr>sv_websockets := m\<rparr>) = (if v = u then remove1 w (ws_bucket u s) else ws_bucket v s)"
    and rest: "(if remove1 w (ws_bucket u s) = [] then remove_events lv u else act_return ()) (s\<lparr>sv_websockets := m\<rparr>) = (Ok (), t)"
    using close_cases [OF assms(1) c, of lv hook] run by auto
  show ?thesis
  proof (cases "remove1 w (ws_bucket u s) = [] \<and> sm_find (vc_user c) (sv_events s) \<noteq> None")
    case True
    then obtain ev where ev: "sm_find (vc_user c) (sv_events s) = Some (registered ev)"
      using wf by (auto simp: events_wf_def)
    from True rest have "remove_events lv u (s\<lparr>sv_websockets := m\<rparr>) = (Ok (), t)" by simp
    then have "act_then (event_destroy lv ev) (act_modify (\<lambda>s. s\<lparr>sv_events := sm_delete (vc_user c) (sv_events s)\<rparr>))
        (s\<lparr>sv_websockets := m\<rparr>) = (Ok (), t)"
      using remove_events_run(2) [of u "s\<lparr>sv_websockets := m\<rparr>" c ev lv] c ev by simp
    then obtain s1 where s1: "event_destroy lv ev (s\<lparr>sv_websockets := m\<rparr>) = (Ok (), s1)"
      "act_modify (\<lambda>s. s\<lparr>sv_events := sm_delete (vc_user c) (sv_events s)\<rparr>) s1 = (Ok (), t)"
      unfolding act_then_def by (auto elim!: act_bind_OkE)
    from event_destroy_Ok [OF s1(1)] s1(2) obtain w' where
      "t = s\<lparr>sv_websockets := m, sv_world := w', sv_events := sm_delete (vc_user c) (sv_events s)\<rparr>"
      by (auto simp: act_modify_run)
    with bucket c True show ?thesis by (simp add: close_effect_def ws_bucket_def)
  next
    case False
    with rest c have "t = s\<lparr>sv_websockets := m\<rparr>"
      using remove_events_run(1) [of u "s\<lparr>sv_websockets := m\<rparr>" c lv]
      by (auto simp: act_return_def split: if_splits)
    with bucket c False show ?thesis by (auto simp: close_effect_def)
  qed
qed

lemma close_safe:
  assumes "w \<in> set (ws_bucket u s)" and c: "sm_find u (sv_pool s) = Some c" and wf: "events_wf (sv_events s)"
    and "\<forall>k. sm_find k (sv_events s) \<noteq> None \<longrightarrow> sm_find k (sv_pool s) \<noteq> None" and "deregister_answers lv"
  shows "\<exists>t. ws_callback_run lv hook (Ws_Close u u w) s = (Ok (), t)"
proof -
  obtain m where run: "ws_callback_run lv hook (Ws_Close u u w) s =
      (if remove1 w (ws_bucket u s) = [] then remove_events lv u else act_return ()) (s\<lparr>sv_websockets := m\<rparr>)"
    using close_cases [OF assms(1) c, of lv hook] by auto
  let ?s = "s\<lparr>sv_websockets := m\<rparr>"
  show ?thesis
  proof (cases "sm_find (vc_user c) (sv_events s)")
    case None
    with run c show ?thesis using remove_events_run(1) [of u ?s c lv] by (auto simp: act_return_def)
  next
    case (Some evs)
    with wf obtain ev where ev: "evs = registered ev" "ev_conn ev = vc_user c" by (auto simp: events_wf_def)
    with Some assms(4) obtain d where "sm_find (ev_conn ev) (sv_pool s) = Some d" by auto
    then obtain w' where "event_destroy lv ev ?s = (Ok (), ?s\<lparr>sv_world := w'\<rparr>)"
      using event_destroy_run [OF assms(5), of ev ?s d] by auto
    then show ?thesis
      using run remove_events_run(2) [of u ?s c ev lv] c Some ev
      by (auto simp: act_return_def act_then_def act_bind_def act_modify_def)
  qed
qed

end
