(* ===== verification/Ws_System.thy ===== *)
theory Ws_System
  imports Ws_Callbacks "HOL-Library.Multiset"
begin

text \<open>
  The daemon as a transition system: connections arrive, requests are processed, websockets are
  accepted, read from, fail and close, and libvirt's events arrive, in any order. Each handler runs
  without interruption; a step is a handler that returns, as an exception in one ends the program.
\<close>

section \<open>States and steps\<close>

text \<open>
  The phase of a websocket is where its chain of asynchronous operations stands: \<open>Idle\<close> is a
  websocket \<open>run\<close> was never called on, \<open>Failed\<close> one whose chain ended with an error that is not a
  closed connection.
\<close>

datatype phase = Accepting | Open | Closed | Failed | Idle

type_synonym 'w system = "'w server \<times> (ws_id, phase) std_map"

definition new_http :: "request \<Rightarrow> http_conn" where
  "new_http req = \<lparr>hc_request = req, hc_upgrade = False, hc_websock = None, hc_has_socket = True,
     hc_on_handshake = [], hc_on_close = []\<rparr>"

definition phase_after_read :: "ws_error \<Rightarrow> phase" where
  "phase_after_read ec = (case ec of No_Error \<Rightarrow> Open | Closed_Error \<Rightarrow> Closed | Other_Error \<Rightarrow> Failed)"

inductive ws_step ::
    "string \<Rightarrow> virt_config \<Rightarrow> libs \<Rightarrow> 'w libvirt_c \<Rightarrow> 'w os \<Rightarrow> 'w system \<Rightarrow> 'w system \<Rightarrow> bool"
    for sn conf L lv os where
  connects: "sm_find h (sv_http s) = None \<Longrightarrow>
     ws_step sn conf L lv os (s, p) (s\<lparr>sv_http := sm_put h (new_http req) (sv_http s)\<rparr>, p)"
| requests: "sm_find h (sv_http s) = Some hc \<Longrightarrow> hc_websock hc = None \<Longrightarrow>
     process_request sn (app_on_request conf L lv os) h s = (Ok io, t) \<Longrightarrow>
     ws_step sn conf L lv os (s, p) (t, if sv_next_ws t = sv_next_ws s then p
       else sm_put (sv_next_ws s) (if io = Write_Response then Idle else Accepting) p)"
| accepts: "sm_find w p = Some Accepting \<Longrightarrow> ws_async_accept lv [] w ec s = (Ok (), t) \<Longrightarrow>
     ws_step sn conf L lv os (s, p) (t, sm_put w (if ec = No_Error then Open else Failed) p)"
| reads: "sm_find w p = Some Open \<Longrightarrow> ws_async_read lv [] w ec s = (Ok (), t) \<Longrightarrow>
     ws_step sn conf L lv os (s, p) (t, sm_put w (phase_after_read ec) p)"
| events: "sm_find u (sv_events s) = Some evs \<Longrightarrow> sm_find k evs = Some ev \<Longrightarrow>
     on_event_handler L lv ev dptr type s = (Ok (), t) \<Longrightarrow> ws_step sn conf L lv os (s, p) (t, p)"

inductive_cases ws_stepE: "ws_step sn conf L lv os (s, p) x"

definition started :: "'w system \<Rightarrow> bool" where
  "started x \<longleftrightarrow> (\<exists>w. x = (\<lparr>sv_world = w, sv_pool = [], sv_response = new_response, sv_http = [], sv_ws = [],
     sv_next_ws = 0, sv_websockets = [], sv_events = [], sv_written = [], sv_log = []\<rparr>, []))"

section \<open>The invariant\<close>

definition ws_of :: "ws_id \<Rightarrow> string \<Rightarrow> 'w server \<Rightarrow> bool" where
  "ws_of w u s \<longleftrightarrow> (\<exists>c. sm_find w (sv_ws s) = Some c \<and> ws_on_handshake c = [Ws_Handshake u u] \<and>
     ws_on_close c = [Ws_Close u u w])"

text \<open>
  A websocket belongs to one user, whose list has it once until it closes; while it is open the user
  has an event registration.
\<close>

definition ws_filed :: "ws_id \<Rightarrow> string \<Rightarrow> 'w system \<Rightarrow> bool" where
  "ws_filed w u x \<longleftrightarrow> ws_of w u (fst x) \<and> u \<noteq> [] \<and> sm_find u (sv_pool (fst x)) \<noteq> None \<and>
     (\<forall>v. count (mset (ws_bucket v (fst x))) w = (if v = u \<and> sm_find w (snd x) \<noteq> Some Closed then 1 else 0)) \<and>
     (sm_find w (snd x) = Some Open \<longrightarrow> sm_find u (sv_events (fst x)) \<noteq> None)"

definition tables_ok :: "'w server \<Rightarrow> bool" where
  "tables_ok s \<longleftrightarrow> pool_named (sv_pool s) \<and> events_wf (sv_events s) \<and>
     (\<forall>k. sm_find k (sv_events s) \<noteq> None \<longrightarrow> sm_find k (sv_pool s) \<noteq> None) \<and>
     (\<forall>h hc. sm_find h (sv_http s) = Some hc \<longrightarrow> hc_on_handshake hc = [] \<and> hc_on_close hc = [])"

definition system_ok :: "'w system \<Rightarrow> bool" where
  "system_ok x \<longleftrightarrow> tables_ok (fst x) \<and>
     (\<forall>w. sm_find w (snd x) \<noteq> None \<longleftrightarrow> w < sv_next_ws (fst x)) \<and>
     (\<forall>w < sv_next_ws (fst x). \<exists>u. ws_filed w u x) \<and>
     (\<forall>v. \<forall>w \<in> set (ws_bucket v (fst x)). w < sv_next_ws (fst x))"

lemma system_okI:
  assumes "tables_ok s" "\<And>w. sm_find w p \<noteq> None \<longleftrightarrow> w < sv_next_ws s"
    and "\<And>w. w < sv_next_ws s \<Longrightarrow> \<exists>u. ws_filed w u (s, p)" "\<And>v w. w \<in> set (ws_bucket v s) \<Longrightarrow> w < sv_next_ws s"
  shows "system_ok (s, p)"
  using assms by (simp add: system_ok_def)

lemma system_okD:
  assumes "system_ok (s, p)"
  shows "tables_ok s" "sm_find w p \<noteq> None \<longleftrightarrow> w < sv_next_ws s" "w < sv_next_ws s \<Longrightarrow> \<exists>u. ws_filed w u (s, p)"
    "w \<in> set (ws_bucket v s) \<Longrightarrow> w < sv_next_ws s"
  using assms by (simp_all add: system_ok_def)

text \<open>A connection handle that is null is refused, as libvirt documents it.\<close>

definition null_refused :: "'w libvirt_c \<Rightarrow> bool" where
  "null_refused lv \<longleftrightarrow> (\<forall>e w. fst (virConnectDomainEventRegisterAny lv None e w) = Ok (-1))"

section \<open>Steps that leave the websockets alone\<close>

definition quiet :: "'w server \<Rightarrow> 'w server \<Rightarrow> bool" where
  "quiet s t \<longleftrightarrow> pool_named (sv_pool t) \<and> pool_grows (sv_pool s) (sv_pool t) \<and> sv_ws t = sv_ws s \<and>
     sv_next_ws t = sv_next_ws s \<and> sv_events t = sv_events s \<and> sv_http t = sv_http s \<and>
     (\<forall>v. ws_bucket v t = ws_bucket v s)"

lemma quiet_refl: "pool_named (sv_pool s) \<Longrightarrow> quiet s s"
  by (simp add: quiet_def)

lemma frame_quiet: "ws_frame_from s t \<Longrightarrow> quiet s t"
  by (simp add: ws_frame_from_def quiet_def ws_same_def ws_bucket_def)

lemma quiet_filed: "quiet s t \<Longrightarrow> ws_filed w u (s, p) \<Longrightarrow> ws_filed w u (t, p)"
  by (auto simp: quiet_def ws_filed_def ws_of_def pool_grows_def)

lemma quiet_tables: "quiet s t \<Longrightarrow> tables_ok s \<Longrightarrow> tables_ok t"
  by (auto simp: quiet_def tables_ok_def pool_grows_def)

lemma quiet_ok: "quiet s t \<Longrightarrow> system_ok (s, p) \<Longrightarrow> system_ok (t, p)"
  using quiet_filed [of s t] quiet_tables [of s t] by (fastforce simp: system_ok_def quiet_def)

lemma quiet_on_domain: "act_keeps (quiet s0) (on_domain ref m)"
  unfolding on_domain_def
proof (rule keeps_on_conn)
  fix s :: "'a server" and w c
  assume s: "quiet s0 s" and c: "sm_find ref (sv_pool s) = Some c"
  then have "pool_named (sm_put ref (snd (close_func c)) (sv_pool s))"
    by (intro pool_named_put slot_ok_closed slot_named_closed) (auto simp: quiet_def pool_named_def)
  with s show "quiet s0 (s\<lparr>sv_world := w, sv_pool := sm_put ref (snd (close_func c)) (sv_pool s)\<rparr>)"
    by (simp add: quiet_def pool_grows_put ws_bucket_def)
qed (simp add: quiet_def ws_bucket_def)

lemma quiet_broadcast: "act_keeps (quiet s0) (ws_pool_broadcast L user data)"
proof -
  have index: "act_keeps (quiet s0) (ws_pool_index user)"
  proof (rule act_keepsI)
    fix s :: "'a server" assume "quiet s0 s"
    then show "quiet s0 (snd (ws_pool_index user s))"
      using ws_pool_index_run [of user s] by (auto simp: quiet_def)
  qed
  have "act_keeps (quiet s0) (ws_write str w)" for str w
    by (auto simp: ws_write_def quiet_def ws_bucket_def intro: act_keeps_modify)
  with index show ?thesis unfolding ws_pool_broadcast_def by (intro act_keeps_bind act_keeps_for)
qed

lemma quiet_event: "act_keeps (quiet s0) (on_event_handler L lv ev dptr type)"
  unfolding on_event_handler_def on_lifecycle_def
  by (intro act_keeps_bind quiet_on_domain) (auto intro!: act_keeps_bind quiet_on_domain quiet_broadcast)

section \<open>Steps that change them\<close>

lemma request_event_free:
  assumes "request_effect h req s io t"
  shows "sv_events t = sv_events s"
  using assms by (auto simp: request_effect_def ws_added_def ws_frame_from_def ws_same_def)

lemma quiet_trans: "quiet s t \<Longrightarrow> quiet t r \<Longrightarrow> quiet s r"
  by (auto simp: quiet_def intro: pool_grows_trans)

text \<open>A new websocket.\<close>

lemma added_ok:
  assumes ok: "system_ok (s, p)" and add: "ws_added u h s t" and u: "u \<noteq> []" "slot_open u (sv_pool s)"
    and f: "f \<noteq> Open" "f \<noteq> Closed"
  shows "system_ok (t, sm_put (sv_next_ws s) f p)"
proof -
  let ?w = "sv_next_ws s"
  obtain hc where hc: "sm_find h (sv_http s) = Some hc"
    and t: "sv_next_ws t = ?w + 1" "sv_events t = sv_events s" "sv_pool t = sv_pool s"
    "\<And>w. sm_find w (sv_ws t) = (if w = ?w
        then Some \<lparr>ws_request = hc_request hc, ws_on_handshake = hc_on_handshake hc @ [Ws_Handshake u u],
          ws_on_close = hc_on_close hc @ [Ws_Close u u w]\<rparr>
        else sm_find w (sv_ws s))"
    "\<And>v. ws_bucket v t = (if v = u then ws_bucket u s @ [?w] else ws_bucket v s)"
    "sv_http t = sm_put h (hc\<lparr>hc_upgrade := True, hc_websock := Some ?w, hc_has_socket := False\<rparr>) (sv_http s)"
    using add by (auto simp: ws_added_def)
  have empty: "hc_on_handshake hc = []" "hc_on_close hc = []"
    using ok hc by (auto simp: system_ok_def tables_ok_def)
  have below: "w \<in> set (ws_bucket v s) \<Longrightarrow> w < ?w" for w v using ok by (simp add: system_ok_def)
  have "count (mset (ws_bucket v s)) ?w = 0" for v using below [of ?w v] by (auto simp: count_eq_zero_iff)
  then have new: "ws_filed ?w u (t, sm_put ?w f p)"
    using u f empty by (auto simp: ws_filed_def ws_of_def t slot_open_def sm_find_put)
  have old: "ws_filed w v (t, sm_put ?w f p)" if "ws_filed w v (s, p)" "w < ?w" for w v
  proof -
    have "count (mset (ws_bucket x t)) w = count (mset (ws_bucket x s)) w" for x
      using that(2) by (simp add: t)
    with that show ?thesis by (simp add: ws_filed_def ws_of_def t(2-4) sm_find_put)
  qed
  show ?thesis
  proof (rule system_okI)
    show "tables_ok t" using ok by (auto simp: system_ok_def tables_ok_def t sm_find_put empty)
    fix w v
    show "sm_find w (sm_put ?w f p) \<noteq> None \<longleftrightarrow> w < sv_next_ws t"
      using system_okD(2) [OF ok, of w] by (simp add: t(1) sm_find_put less_Suc_eq)
    show "\<exists>v. ws_filed w v (t, sm_put ?w f p)" if "w < sv_next_ws t"
    proof (cases "w = ?w")
      case False
      with that have w: "w < ?w" by (simp add: t)
      from system_okD(3) [OF ok this] old [OF _ w] show ?thesis by blast
    qed (use new in blast)
    show "w < sv_next_ws t" if "w \<in> set (ws_bucket v t)"
      using that below [of w] by (auto simp: t less_Suc_eq split: if_splits)
  qed
qed

text \<open>A handshake.\<close>

lemma accept_callbacks:
  assumes "ws_of w u s" "ws_async_accept lv [] w No_Error s = (Ok (), t)"
  shows "ws_callback_run lv [] (Ws_Handshake u u) s = (Ok (), t)"
  using assms
  by (auto simp: ws_of_def ws_async_accept_def act_simps act_then_def act_return_def act_bind_def
      split: prod.splits outcome.splits)

lemma read_callbacks:
  assumes "ws_of w u s" 
  shows "ws_async_read lv [] w Closed_Error s = ws_callback_run lv [] (Ws_Close u u w) s"
  using assms by (auto simp: ws_of_def ws_async_read_def act_simps) (simp add: act_then_def)

lemma handshake_registers:
  assumes h: "handshake_effect lv u s t" and u: "u \<noteq> []" and null: "null_refused lv" and ok: "tables_ok s"
  shows "tables_ok t \<and> quiet s (t\<lparr>sv_events := sv_events s\<rparr>) \<and>
    (\<forall>k. sm_find k (sv_events t) \<noteq> None \<longleftrightarrow> sm_find k (sv_events s) \<noteq> None \<or> k = u)"
proof -
  obtain c where c: "sm_find u (sv_pool s) = Some c" and cases:
    "sm_find (vc_user c) (sv_events s) \<noteq> None \<and> t = s \<or>
     sm_find (vc_user c) (sv_events s) = None \<and> (\<exists>w i. i \<noteq> -1 \<and>
        virConnectDomainEventRegisterAny lv (vc_ptr c) VIR_DOMAIN_EVENT_ID_LIFECYCLE (sv_world s) = (Ok i, w) \<and>
        t = s\<lparr>sv_world := w, sv_events := sm_put (vc_user c) (registered
          \<lparr>ev_conn = u, ev_callback_id = i, ev_user = vc_user c, ev_registered = vc_ptr c\<rparr>) (sv_events s)\<rparr>)"
    using h by (auto simp: handshake_effect_def)
  have named: "vc_user c = u \<or> vc_user c = [] \<and> vc_ptr c = None"
    using ok c by (auto simp: tables_ok_def pool_named_def slot_named_def)
  have pool: "pool_named (sv_pool s)" using ok by (simp add: tables_ok_def)
  from cases show ?thesis
  proof (elim disjE conjE exE)
    assume some: "sm_find (vc_user c) (sv_events s) \<noteq> None" and t: "t = s"
    with ok have "vc_user c \<noteq> []" by (auto simp: tables_ok_def events_wf_def)
    with named some t ok pool show ?thesis by (auto simp: quiet_refl)
  next
    fix w i assume i: "i \<noteq> -1"
      "virConnectDomainEventRegisterAny lv (vc_ptr c) VIR_DOMAIN_EVENT_ID_LIFECYCLE (sv_world s) = (Ok i, w)"
      and none: "sm_find (vc_user c) (sv_events s) = None"
      and t: "t = s\<lparr>sv_world := w, sv_events := sm_put (vc_user c) (registered
          \<lparr>ev_conn = u, ev_callback_id = i, ev_user = vc_user c, ev_registered = vc_ptr c\<rparr>) (sv_events s)\<rparr>"
    have "vc_ptr c \<noteq> None"
      using i null unfolding null_refused_def by (metis fst_conv outcome.inject)
    with named have user: "vc_user c = u" by simp
    have "tables_ok t" using ok u c by (auto simp: tables_ok_def events_wf_def t user sm_find_put)
    moreover have "quiet s (t\<lparr>sv_events := sv_events s\<rparr>)" using pool by (simp add: t quiet_def ws_bucket_def)
    ultimately show ?thesis by (simp add: t user sm_find_put)
  qed
qed

lemma filed_events:
  assumes "ws_filed w u (s, p)" "quiet s (t\<lparr>sv_events := sv_events s\<rparr>)"
    and "\<forall>k. sm_find k (sv_events s) \<noteq> None \<longrightarrow> sm_find k (sv_events t) \<noteq> None"
  shows "ws_filed w u (t, p)"
  using quiet_filed [OF assms(2,1)] assms(1,3) by (auto simp: ws_filed_def ws_of_def ws_bucket_def)

lemma accepted_ok:
  assumes ok: "system_ok (s, p)" and w: "sm_find w p = Some Accepting" and null: "null_refused lv"
    and run: "ws_async_accept lv [] w No_Error s = (Ok (), t)"
  shows "system_ok (t, sm_put w Open p)"
proof -
  from ok w have "w < sv_next_ws s" by (metis fst_conv snd_conv option.distinct(1) system_ok_def)
  with ok obtain u where u: "ws_filed w u (s, p)" by (auto simp: system_ok_def)
  then have c: "ws_of w u s" "u \<noteq> []" "\<exists>c. sm_find u (sv_pool s) = Some c" by (auto simp: ws_filed_def)
  then have "handshake_effect lv u s t" using accept_callbacks [OF c(1) run] handshake_Ok by blast
  from handshake_registers [OF this c(2) null] ok have eff: "tables_ok t" "quiet s (t\<lparr>sv_events := sv_events s\<rparr>)"
    "sm_find u (sv_events t) \<noteq> None" "\<forall>k. sm_find k (sv_events s) \<noteq> None \<longrightarrow> sm_find k (sv_events t) \<noteq> None"
    by (auto simp: system_ok_def)
  have "ws_filed w u (t, sm_put w Open p)"
    using filed_events [OF u eff(2,4)] eff(3) w by (auto simp: ws_filed_def sm_find_put)
  moreover have "ws_filed w' v (t, sm_put w Open p)" if "ws_filed w' v (s, p)" "w' \<noteq> w" for w' v
    using filed_events [OF that(1) eff(2,4)] that(2) by (auto simp: ws_filed_def sm_find_put)
  moreover have same: "sv_next_ws t = sv_next_ws s" "\<And>v. ws_bucket v t = ws_bucket v s"
    using eff(2) by (auto simp: quiet_def ws_bucket_def)
  ultimately have "\<exists>v. ws_filed w' v (t, sm_put w Open p)" if "w' < sv_next_ws s" for w'
    using system_okD(3) [OF ok that] by blast
  then show ?thesis
    using system_okD(2,4) [OF ok] eff(1) w by (intro system_okI) (auto simp: same sm_find_put)
qed

text \<open>A close.\<close>

lemma remove1_count: "count (mset (remove1 w xs)) w' = count (mset xs) w' - (if w' = w then 1 else 0)"
  by simp

lemma filed_in: "ws_filed w u (s, p) \<Longrightarrow> sm_find w p \<noteq> Some Closed \<Longrightarrow> w \<in> set (ws_bucket u s)"
  by (auto simp: ws_filed_def simp flip: count_greater_zero_iff set_mset_mset)

lemma close_events:
  assumes eff: "close_effect u w s t" and ok: "tables_ok s"
  shows "tables_ok t \<and> quiet s (t\<lparr>sv_websockets := sv_websockets s, sv_events := sv_events s\<rparr>) \<and>
    (\<forall>k. sm_find k (sv_events s) \<noteq> None \<longrightarrow> sm_find k (sv_events t) \<noteq> None \<or> k = u \<and> remove1 w (ws_bucket u s) = []) \<and>
    (\<forall>k. sm_find k (sv_events t) \<noteq> None \<longrightarrow> sm_find k (sv_events s) \<noteq> None) \<and>
    (\<forall>v. ws_bucket v t = (if v = u then remove1 w (ws_bucket u s) else ws_bucket v s))"
proof -
  obtain c where c: "sm_find u (sv_pool s) = Some c"
    and t: "sv_pool t = sv_pool s" "sv_ws t = sv_ws s" "sv_next_ws t = sv_next_ws s" "sv_http t = sv_http s"
      "\<forall>v. ws_bucket v t = (if v = u then remove1 w (ws_bucket u s) else ws_bucket v s)"
      "sv_events t = (if remove1 w (ws_bucket u s) = [] \<and> sm_find (vc_user c) (sv_events s) \<noteq> None
        then sm_delete (vc_user c) (sv_events s) else sv_events s)"
    using eff by (auto simp: close_effect_def)
  have wf: "sm_ok (sv_events s)" using ok by (simp add: tables_ok_def events_wf_def)
  have user: "vc_user c = u" if "sm_find (vc_user c) (sv_events s) \<noteq> None"
    using ok c that by (auto simp: tables_ok_def pool_named_def slot_named_def events_wf_def)
  have find: "sm_find k (sv_events t) = (if k = u \<and> sm_find (vc_user c) (sv_events s) \<noteq> None \<and>
      remove1 w (ws_bucket u s) = [] then None else sm_find k (sv_events s))" for k
    using user by (auto simp: t(6) sm_find_delete [OF wf])
  have sub: "sm_find k (sv_events t) = Some e \<Longrightarrow> sm_find k (sv_events s) = Some e" for k e
    by (simp add: find split: if_splits)
  moreover have "sm_ok (sv_events t)" using wf by (simp add: t(6))
  ultimately have "tables_ok t"
    using ok by (auto simp: tables_ok_def t(1,4) events_wf_def dest!: sub)
  moreover have "quiet s (t\<lparr>sv_websockets := sv_websockets s, sv_events := sv_events s\<rparr>)"
    using ok by (simp add: quiet_def t(1-4) tables_ok_def ws_bucket_def)
  ultimately show ?thesis using t(5) by (auto simp: find)
qed

lemma closed_ok:
  assumes ok: "system_ok (s, p)" and w: "sm_find w p = Some Open"
    and run: "ws_async_read lv [] w Closed_Error s = (Ok (), t)"
  shows "system_ok (t, sm_put w Closed p)"
proof -
  have "w < sv_next_ws s" using system_okD(2) [OF ok, of w] w by simp
  then obtain u where u: "ws_filed w u (s, p)" using system_okD(3) [OF ok] by blast
  then have c: "ws_of w u s" "\<exists>c. sm_find u (sv_pool s) = Some c" by (auto simp: ws_filed_def)
  have wf: "events_wf (sv_events s)" using system_okD(1) [OF ok] by (simp add: tables_ok_def)
  have "close_effect u w s t"
    using run close_Ok [OF filed_in [OF u] _ wf] c w unfolding read_callbacks [OF c(1)] by fastforce
  from close_events [OF this system_okD(1) [OF ok]] have eff: "tables_ok t"
    "quiet s (t\<lparr>sv_websockets := sv_websockets s, sv_events := sv_events s\<rparr>)"
    "\<And>k. sm_find k (sv_events s) \<noteq> None \<Longrightarrow> sm_find k (sv_events t) \<noteq> None \<or> k = u \<and> remove1 w (ws_bucket u s) = []"
    "\<And>v. ws_bucket v t = (if v = u then remove1 w (ws_bucket u s) else ws_bucket v s)"
    by blast+
  have frame: "sv_next_ws t = sv_next_ws s" "ws_of w' v t = ws_of w' v s" "sv_pool t = sv_pool s \<or> True" for w' v
    using eff(2) by (auto simp: quiet_def ws_of_def)
  have grows: "sm_find v (sv_pool s) \<noteq> None \<Longrightarrow> sm_find v (sv_pool t) \<noteq> None" for v
    using eff(2) by (simp add: quiet_def pool_grows_def)
  have counts: "count (mset (ws_bucket v t)) w' = count (mset (ws_bucket v s)) w' - (if v = u \<and> w' = w then 1 else 0)" for v w'
    by (simp add: eff(4) remove1_count del: mset_remove1)
  have self: "ws_filed w u (t, sm_put w Closed p)"
    using u grows [of u] w by (simp add: ws_filed_def frame(2) sm_find_put counts)
  have other: "ws_filed w' v (t, sm_put w Closed p)" if f: "ws_filed w' v (s, p)" and ne: "w' \<noteq> w" for w' v
  proof -
    have "sm_find v (sv_events t) \<noteq> None" if o: "sm_find w' p = Some Open"
    proof -
      have "w' \<in> set (ws_bucket v s)" using filed_in [OF f] o by simp
      then have "v = u \<Longrightarrow> w' \<in> set (remove1 w (ws_bucket u s))" using ne by simp
      then show ?thesis using eff(3) [of v] f o by (auto simp: ws_filed_def)
    qed
    then show ?thesis using f ne grows [of v] by (simp add: ws_filed_def frame(2) sm_find_put counts)
  qed
  show ?thesis
  proof (rule system_okI)
    show "tables_ok t" by (rule eff(1))
    fix w' v
    show "sm_find w' (sm_put w Closed p) \<noteq> None \<longleftrightarrow> w' < sv_next_ws t"
      using system_okD(2) [OF ok, of w'] w by (auto simp: sm_find_put frame(1))
    show "\<exists>v. ws_filed w' v (t, sm_put w Closed p)" if "w' < sv_next_ws t"
      using system_okD(3) [OF ok, of w'] that self other [of w'] by (cases "w' = w") (auto simp: frame(1))
    show "w' < sv_next_ws t" if "w' \<in> set (ws_bucket v t)"
      using that system_okD(4) [OF ok, of w' v] by (auto simp: eff(4) frame(1) split: if_splits dest: set_remove1_subset [THEN subsetD])
  qed
qed

section \<open>Every reachable state\<close>

lemma endpoint_user: "path_endpoint t = Some (User_Route op u) \<Longrightarrow> u \<noteq> []"
  by (auto simp: path_endpoint_def Let_def split: if_splits option.splits)

lemma phase_ok:
  assumes ok: "system_ok (s, p)" and w: "sm_find w p = Some g" "g \<noteq> Closed" and f: "f \<noteq> Closed" "f = Open \<Longrightarrow> g = Open"
  shows "system_ok (s, sm_put w f p)"
proof -
  have "ws_filed w' u (s, sm_put w f p)" if "ws_filed w' u (s, p)" for w' u
    using that w f by (auto simp: ws_filed_def sm_find_put)
  then show ?thesis
    using system_okD [OF ok] w by (intro system_okI) (auto simp: sm_find_put, metis option.distinct(1))
qed

lemma request_ok:
  assumes ok: "system_ok (s, p)" and hc: "sm_find h (sv_http s) = Some hc" "hc_websock hc = None"
    and run: "process_request sn (app_on_request conf L lv os) h s = (Ok io, t)"
  shows "system_ok (t, if sv_next_ws t = sv_next_ws s then p
    else sm_put (sv_next_ws s) (if io = Write_Response then Idle else Accepting) p)"
proof -
  have "pool_named (sv_pool s)" using system_okD(1) [OF ok] by (simp add: tables_ok_def)
  from process_request_effect [OF this hc run] show ?thesis
    unfolding request_effect_def
  proof (elim disjE conjE exE)
    assume "ws_frame_from s t"
    then have "quiet s t" by (rule frame_quiet)
    with quiet_ok [OF this ok] show ?thesis by (simp add: quiet_def)
  next
    fix u s1 assume e: "path_endpoint (rq_target (hc_request hc)) = Some (User_Route Ws_Op u)"
      and s1: "ws_frame_from s s1" "slot_open u (sv_pool s1)" "ws_added u h s1 t"
    have q: "quiet s s1" using s1(1) by (rule frame_quiet)
    from added_ok [OF quiet_ok [OF q ok] s1(3) endpoint_user [OF e] s1(2),
        of "if io = Write_Response then Idle else Accepting"]
    show ?thesis using q s1(3) by (auto simp: quiet_def ws_added_def)
  qed
qed

lemma connect_ok:
  assumes "system_ok (s, p)"
  shows "system_ok (s\<lparr>sv_http := sm_put h (new_http req) (sv_http s)\<rparr>, p)"
  using assms
  by (auto simp: system_ok_def tables_ok_def ws_filed_def ws_of_def ws_bucket_def sm_find_put new_http_def)

lemma step_ok:
  assumes "ws_step sn conf L lv os x y" "null_refused lv" "system_ok x"
  shows "system_ok y"
  using assms
proof (induction rule: ws_step.induct)
  case (accepts w p ec s t)
  then show ?case
    using accepted_ok [OF accepts(4,1,3)] phase_ok [OF accepts(4,1), of Failed]
    by (cases "ec = No_Error") (auto simp: ws_async_accept_def act_return_def)
next
  case (reads w p ec s t)
  then have "t = s" if "ec \<noteq> Closed_Error" using that by (simp add: ws_async_read_def act_return_def)
  with reads show ?case
    using closed_ok [OF reads(4,1)] phase_ok [OF reads(4,1)] by (cases ec) (auto simp: phase_after_read_def)
next
  case (events u s evs k ev dptr type t p)
  have "quiet s s" using system_okD(1) [OF events(5)] by (simp add: quiet_refl tables_ok_def)
  from act_keepsD [OF quiet_event this, of L lv ev dptr type] events(3) have "quiet s t" by simp
  from quiet_ok [OF this events(5)] show ?case .
qed (blast intro: request_ok connect_ok)+

lemma started_ok: "started x \<Longrightarrow> system_ok x"
  by (auto simp: started_def system_ok_def tables_ok_def pool_named_def pool_ok_def events_wf_def ws_bucket_def sm_ok_def)

interpretation daemon: transition_system started "ws_step sn conf L lv os" "\<lambda>x. null_refused lv \<longrightarrow> system_ok x"
  for sn conf L lv os
  by unfold_locales (auto intro: started_ok step_ok)

text \<open>The states the daemon can reach.\<close>

definition reaches :: "string \<Rightarrow> virt_config \<Rightarrow> libs \<Rightarrow> 'w libvirt_c \<Rightarrow> 'w os \<Rightarrow> 'w system \<Rightarrow> bool" where
  "reaches sn conf L lv os x \<longleftrightarrow> (\<exists>x0. started x0 \<and> (ws_step sn conf L lv os)\<^sup>*\<^sup>* x0 x)"

lemma reaches_ok: "reaches sn conf L lv os x \<Longrightarrow> null_refused lv \<Longrightarrow> system_ok x"
  unfolding reaches_def using daemon.reachable_inv by blast

end
