(* ===== verification/Registry.thy ===== *)
theory Registry
  imports Ws_System
begin

text \<open>
  The abstract specification of the websockets of the daemon: a registry of the members of each user
  and of the users that are subscribed to events. Every step of the daemon is a step of the registry,
  or leaves it as it is.
\<close>

section \<open>The registry\<close>

record registry =
  rg_members :: "string \<Rightarrow> ws_id set"
  rg_subscribed :: "string set"

text \<open>
  A websocket joins one user and never two; a user is subscribed only while somebody is there to
  listen; the last to leave may end the subscription, nobody else can.
\<close>

inductive registry_step :: "registry \<Rightarrow> registry \<Rightarrow> bool" where
  join: "(\<And>v. w \<notin> rg_members r v) \<Longrightarrow>
     registry_step r (r\<lparr>rg_members := (rg_members r)(u := insert w (rg_members r u))\<rparr>)"
| subscribe: "rg_members r u \<noteq> {} \<Longrightarrow> registry_step r (r\<lparr>rg_subscribed := insert u (rg_subscribed r)\<rparr>)"
| leave: "w \<in> rg_members r u \<Longrightarrow> subs = rg_subscribed r \<or> rg_members r u = {w} \<and> subs = rg_subscribed r - {u} \<Longrightarrow>
     registry_step r (r\<lparr>rg_members := (rg_members r)(u := rg_members r u - {w}), rg_subscribed := subs\<rparr>)"

definition registry_of :: "'w system \<Rightarrow> registry" where
  "registry_of x = \<lparr>rg_members = (\<lambda>u. set (ws_bucket u (fst x))),
     rg_subscribed = {u. sm_find u (sv_events (fst x)) \<noteq> None}\<rparr>"

section \<open>The steps of the daemon\<close>

lemma quiet_registry: "quiet s t \<Longrightarrow> registry_of (t, q) = registry_of (s, p)"
  by (simp add: registry_of_def quiet_def)

lemma added_registry:
  assumes "system_ok (s, p)" "ws_added u h s t"
  shows "registry_step (registry_of (s, p)) (registry_of (t, q))"
proof -
  let ?r = "registry_of (s, p)"
  have fresh: "sv_next_ws s \<notin> rg_members ?r v" for v
    using system_okD(4) [OF assms(1), of "sv_next_ws s" v] by (auto simp: registry_of_def)
  have "registry_of (t, q) = ?r\<lparr>rg_members := (rg_members ?r)(u := insert (sv_next_ws s) (rg_members ?r u))\<rparr>"
    using assms(2) by (auto simp: registry_of_def ws_added_def fun_eq_iff)
  with registry_step.join [OF fresh] show ?thesis by simp
qed

lemma handshake_registry:
  assumes ok: "system_ok (s, p)" and w: "ws_filed w u (s, p)" "sm_find w p \<noteq> Some Closed"
    and "null_refused lv" "handshake_effect lv u s t"
  shows "registry_step (registry_of (s, p)) (registry_of (t, q))"
proof -
  let ?r = "registry_of (s, p)"
  have "u \<noteq> []" using w(1) by (simp add: ws_filed_def)
  from handshake_registers [OF assms(5) this assms(4) system_okD(1) [OF ok]] have
    "quiet s (t\<lparr>sv_events := sv_events s\<rparr>)" "{k. sm_find k (sv_events t) \<noteq> None} = insert u {k. sm_find k (sv_events s) \<noteq> None}"
    by auto
  then have "registry_of (t, q) = ?r\<lparr>rg_subscribed := insert u (rg_subscribed ?r)\<rparr>"
    by (simp add: registry_of_def quiet_def ws_bucket_def)
  moreover have "rg_members ?r u \<noteq> {}" using filed_in [OF w] by (auto simp: registry_of_def)
  ultimately show ?thesis using registry_step.subscribe by simp
qed

lemma close_registry:
  assumes ok: "system_ok (s, p)" and w: "ws_filed w u (s, p)" "sm_find w p \<noteq> Some Closed" and "close_effect u w s t"
  shows "registry_step (registry_of (s, p)) (registry_of (t, q))"
proof -
  let ?r = "registry_of (s, p)" and ?subs = "{k. sm_find k (sv_events t) \<noteq> None}"
  have in_list: "w \<in> set (ws_bucket u s)" using filed_in [OF w] .
  have "count (mset (ws_bucket u s)) w = 1" using w by (simp add: ws_filed_def del: count_mset_0_iff)
  then have gone: "w \<notin> set (remove1 w (ws_bucket u s))"
    using remove1_count [of w "ws_bucket u s" w] by (metis count_mset_0_iff diff_self_eq_0)
  have set: "set (remove1 w (ws_bucket u s)) = set (ws_bucket u s) - {w}"
  proof (rule set_eqI)
    fix x show "x \<in> set (remove1 w (ws_bucket u s)) \<longleftrightarrow> x \<in> set (ws_bucket u s) - {w}"
      using gone by (cases "x = w") simp_all
  qed
  from close_events [OF assms(4) system_okD(1) [OF ok]] have ev:
    "\<And>k. sm_find k (sv_events s) \<noteq> None \<Longrightarrow> sm_find k (sv_events t) \<noteq> None \<or> k = u \<and> remove1 w (ws_bucket u s) = []"
    "\<And>k. sm_find k (sv_events t) \<noteq> None \<Longrightarrow> sm_find k (sv_events s) \<noteq> None"
    and bucket: "\<And>v. ws_bucket v t = (if v = u then remove1 w (ws_bucket u s) else ws_bucket v s)" by blast+
  have "?subs = rg_subscribed ?r \<or> rg_members ?r u = {w} \<and> ?subs = rg_subscribed ?r - {u}"
  proof (cases "remove1 w (ws_bucket u s) = []")
    case True
    with set in_list have "rg_members ?r u = {w}" by (auto simp: registry_of_def)
    moreover have "?subs = rg_subscribed ?r \<or> ?subs = rg_subscribed ?r - {u}"
      using ev by (auto simp: registry_of_def)
    ultimately show ?thesis by blast
  next
    case False
    with ev have "?subs = rg_subscribed ?r" by (auto simp: registry_of_def)
    then show ?thesis by blast
  qed
  moreover have "w \<in> rg_members ?r u" using in_list by (simp add: registry_of_def)
  ultimately have "registry_step ?r
      (?r\<lparr>rg_members := (rg_members ?r)(u := rg_members ?r u - {w}), rg_subscribed := ?subs\<rparr>)"
    by (intro registry_step.leave) auto
  also have "?r\<lparr>rg_members := (rg_members ?r)(u := rg_members ?r u - {w}), rg_subscribed := ?subs\<rparr> = registry_of (t, q)"
    by (auto simp: registry_of_def bucket set fun_eq_iff)
  finally show ?thesis .
qed

lemma accepts_registry:
  assumes ok: "system_ok (s, p)" and w: "sm_find w p = Some Accepting" and "null_refused lv"
    and run: "ws_async_accept lv [] w ec s = (Ok (), t)"
  shows "registry_step (registry_of (s, p)) (registry_of (t, q)) \<or> registry_of (t, q) = registry_of (s, p)"
proof (cases "ec = No_Error")
  case False
  with run have "t = s" by (simp add: ws_async_accept_def act_return_def)
  then show ?thesis by (simp add: registry_of_def)
next
  case True
  obtain u where u: "ws_filed w u (s, p)" using system_okD(2,3) [OF ok, of w] w by auto
  then have c: "ws_of w u s" "\<exists>c. sm_find u (sv_pool s) = Some c" by (auto simp: ws_filed_def)
  with run True have "handshake_effect lv u s t" using accept_callbacks [OF c(1)] handshake_Ok by blast
  with handshake_registry [OF ok u _ assms(3)] w show ?thesis by simp
qed

lemma reads_registry:
  assumes ok: "system_ok (s, p)" and w: "sm_find w p = Some Open"
    and run: "ws_async_read lv [] w ec s = (Ok (), t)"
  shows "registry_step (registry_of (s, p)) (registry_of (t, q)) \<or> registry_of (t, q) = registry_of (s, p)"
proof (cases "ec = Closed_Error")
  case False
  with run have "t = s" by (simp add: ws_async_read_def act_return_def)
  then show ?thesis by (simp add: registry_of_def)
next
  case True
  obtain u where u: "ws_filed w u (s, p)" using system_okD(2,3) [OF ok, of w] w by auto
  then obtain c where c: "ws_of w u s" "sm_find u (sv_pool s) = Some c" by (auto simp: ws_filed_def)
  have "events_wf (sv_events s)" using system_okD(1) [OF ok] by (simp add: tables_ok_def)
  moreover have "ws_callback_run lv [] (Ws_Close u u w) s = (Ok (), t)"
    using run True read_callbacks [OF c(1)] by simp
  ultimately have "close_effect u w s t" using close_Ok [OF filed_in [OF u] c(2)] w by simp
  with close_registry [OF ok u] w show ?thesis by simp
qed

lemma requests_registry:
  assumes ok: "system_ok (s, p)" and "sm_find h (sv_http s) = Some hc" "hc_websock hc = None"
    and "process_request sn (app_on_request conf L lv os) h s = (Ok io, t)"
  shows "registry_step (registry_of (s, p)) (registry_of (t, q)) \<or> registry_of (t, q) = registry_of (s, p)"
proof -
  have "pool_named (sv_pool s)" using system_okD(1) [OF ok] by (simp add: tables_ok_def)
  from process_request_effect [OF this assms(2-4)] show ?thesis
    unfolding request_effect_def
  proof (elim disjE conjE exE)
    assume "ws_frame_from s t"
    from quiet_registry [OF frame_quiet [OF this]] show ?thesis by simp
  next
    fix u s1 assume s1: "ws_frame_from s s1" "ws_added u h s1 t"
    have q: "quiet s s1" using s1(1) by (rule frame_quiet)
    from added_registry [OF quiet_ok [OF q ok] s1(2)] quiet_registry [OF q, of p p] show ?thesis by simp
  qed
qed

text \<open>Every step simulates a step of the registry or none.\<close>

lemma step_registry:
  assumes "ws_step sn conf L lv os x y" "null_refused lv" "system_ok x"
  shows "registry_step (registry_of x) (registry_of y) \<or> registry_of y = registry_of x"
  using assms
proof (induction rule: ws_step.induct)
  case (connects h s req p)
  then show ?case by (simp add: registry_of_def ws_bucket_def)
next
  case (requests h s hc io t p)
  then show ?case by (intro requests_registry)
next
  case (accepts w p ec s t)
  then show ?case by (intro accepts_registry)
next
  case (reads w p ec s t)
  then show ?case by (intro reads_registry)
next
  case (events u s evs k ev dptr type t p)
  have "quiet s s" using system_okD(1) [OF events(5)] by (simp add: quiet_refl tables_ok_def)
  from act_keepsD [OF quiet_event this, of L lv ev dptr type] events(3) have "quiet s t" by simp
  from quiet_registry [OF this] show ?case by simp
qed

end
