(* ===== verification/Daemon.thy ===== *)
theory Daemon
  imports Registry
begin

text \<open>
  What holds of the daemon in every state it can reach, and what a request on a connection can and
  cannot do.
\<close>

section \<open>A daemon to run\<close>

text \<open>A libvirt that refuses null handles, and a daemon one client has opened a websocket with.\<close>

definition careful_libvirt :: "nat libvirt_c" where
  "careful_libvirt = lab_libvirt\<lparr>c_virConnectDomainEventRegisterAny :=
     (\<lambda>conn ev. act_return (if conn = None then -1 else 5))\<rparr>"

definition empty_daemon :: "nat server" where
  "empty_daemon = \<lparr>sv_world = 0, sv_pool = [], sv_response = new_response, sv_http = [], sv_ws = [],
     sv_next_ws = 0, sv_websockets = [], sv_events = [], sv_written = [], sv_log = []\<rparr>"

definition ws_request_of :: "string \<Rightarrow> request" where
  "ws_request_of target = (request_of Get target)\<lparr>rq_upgrade := True\<rparr>"

definition with_client :: "request \<Rightarrow> nat server \<Rightarrow> nat server" where
  "with_client req s = s\<lparr>sv_http := sm_put 0 (new_http req) (sv_http s)\<rparr>"

lemma careful: "null_refused careful_libvirt" "deregister_answers careful_libvirt"
  by (simp_all add: null_refused_def deregister_answers_def careful_libvirt_def lab_libvirt_def stub_libvirt_def
      stub_with_def virConnectDomainEventRegisterAny_def virConnectDomainEventDeregisterAny_def act_simps)

lemma lab_run:
  "case process_request ''beast'' (app_on_request default_config lab_libs careful_libvirt counting_os) 0
       (with_client (ws_request_of ''/users/root/websocket/'') empty_daemon) of
     (Ok io, s) \<Rightarrow> io = Run_Websocket 0 \<and> sv_next_ws s = 1 \<and>
       (case ws_async_accept careful_libvirt [] 0 No_Error s of
          (Ok x, t) \<Rightarrow> (case sm_find ''root'' (sv_pool t) of Some c \<Rightarrow> vc_user c = ''root'' | None \<Rightarrow> False) \<and>
            ws_bucket ''root'' t = [0]
        | _ \<Rightarrow> False)
   | _ \<Rightarrow> False"
  by code_simp

lemma lab_phase: "sm_find (0 :: ws_id) [(0, Open)] = Some Open"
  by simp

lemma lab_trace:
  "\<exists>s t c. reaches ''beast'' default_config lab_libs careful_libvirt counting_os (s, [(0, Accepting)]) \<and>
     ws_step ''beast'' default_config lab_libs careful_libvirt counting_os (s, [(0, Accepting)]) (t, [(0, Open)]) \<and>
     ws_bucket ''root'' t = [0] \<and> sm_find ''root'' (sv_pool t) = Some c \<and> vc_user c = ''root''"
proof -
  let ?req = "ws_request_of ''/users/root/websocket/''"
  let ?s0 = "empty_daemon" and ?s1 = "with_client ?req empty_daemon"
  let ?step = "ws_step ''beast'' default_config lab_libs careful_libvirt counting_os"
  obtain io s where io: "process_request ''beast''
      (app_on_request default_config lab_libs careful_libvirt counting_os) 0 ?s1 = (Ok io, s)" "io = Run_Websocket 0"
    and s: "sv_next_ws s = 1" and accepted: "case ws_async_accept careful_libvirt [] 0 No_Error s of
          (Ok x, t) \<Rightarrow> (case sm_find ''root'' (sv_pool t) of Some c \<Rightarrow> vc_user c = ''root'' | None \<Rightarrow> False) \<and>
            ws_bucket ''root'' t = [0]
        | _ \<Rightarrow> False"
    using ok_case [OF lab_run] by (elim exE conjE) (rule that)
  obtain x t where run: "ws_async_accept careful_libvirt [] 0 No_Error s = (Ok x, t)"
    and "case sm_find ''root'' (sv_pool t) of Some c \<Rightarrow> vc_user c = ''root'' | None \<Rightarrow> False"
    and bucket: "ws_bucket ''root'' t = [0]"
    using ok_case [OF accepted] by (elim exE conjE) (rule that)
  then obtain c where c: "sm_find ''root'' (sv_pool t) = Some c" "vc_user c = ''root''"
    by (cases "sm_find ''root'' (sv_pool t)") simp_all
  have request: "process_request ''beast''
      (app_on_request default_config lab_libs careful_libvirt counting_os) 0 ?s1 = (Ok (Run_Websocket 0), s)"
    using io by (simp only:)
  have accept: "ws_async_accept careful_libvirt [] 0 No_Error s = (Ok (), t)" using run by (cases x) blast
  note t = bucket c
  have h: "sm_find 0 (sv_http ?s1) = Some (new_http ?req)" "hc_websock (new_http ?req) = None"
    and next0: "sv_next_ws ?s1 = 0"
    by (simp_all add: with_client_def empty_daemon_def new_http_def)
  have "?step (?s0, []) (?s1, [])"
    unfolding with_client_def by (rule ws_step.connects) (simp add: empty_daemon_def)
  moreover have "?step (?s1, []) (s, [(0, Accepting)])"
    using ws_step.requests [OF _ _ request, of "new_http ?req" "[]"] s h by (simp add: next0)
  ultimately have "?step\<^sup>*\<^sup>* (?s0, []) (s, [(0, Accepting)])" by simp
  moreover have "started (?s0, [])" by (simp add: started_def empty_daemon_def)
  ultimately have "reaches ''beast'' default_config lab_libs careful_libvirt counting_os (s, [(0, Accepting)])"
    unfolding reaches_def by blast
  moreover have "?step (s, [(0, Accepting)]) (t, [(0, Open)])"
    using ws_step.accepts [of 0 "[(0, Accepting)]", OF _ accept] by simp
  ultimately show ?thesis using t by blast
qed

lemma reaches_step: "reaches sn conf L lv os x \<Longrightarrow> ws_step sn conf L lv os x y \<Longrightarrow> reaches sn conf L lv os y"
  unfolding reaches_def by (meson rtranclp.rtrancl_into_rtrancl)

lemma lab_reaches:
  "\<exists>t c. reaches ''beast'' default_config lab_libs careful_libvirt counting_os (t, [(0, Open)]) \<and>
     ws_bucket ''root'' t = [0] \<and> sm_find ''root'' (sv_pool t) = Some c \<and> vc_user c = ''root''"
  using lab_trace by (blast intro: reaches_step)

text \<open>C22: every state the daemon can reach is well formed: connections are filed under their users, a table
  of events has the one registration of its user and a user with one has a connection, exactly the
  websockets made so far have a phase and are of a user, whose list has each of them once until it
  closes, and the lists hold no others.\<close>

theorem daemon_state_ok:
  assumes "reaches sn conf L lv os (s, p)" "null_refused lv"
  shows "tables_ok s \<and> (\<forall>w. sm_find w p \<noteq> None \<longleftrightarrow> w < sv_next_ws s) \<and>
    (\<forall>w < sv_next_ws s. \<exists>u. ws_filed w u (s, p)) \<and> (\<forall>v. \<forall>w \<in> set (ws_bucket v s). w < sv_next_ws s)"
  using reaches_ok [OF assms] by (simp add: system_ok_def)

theorem daemon_state_ok_witness:
  "\<exists>t :: nat server. tables_ok t \<and> ws_bucket ''root'' t = [0] \<and> sv_next_ws t = 1 \<and> (\<exists>u. ws_filed 0 u (t, [(0, Open)]))"
proof -
  obtain t where t: "reaches ''beast'' default_config lab_libs careful_libvirt counting_os (t, [(0, Open)])"
    "ws_bucket ''root'' t = [0]" using lab_reaches by blast
  note ok = daemon_state_ok [OF t(1) careful(1)]
  then have "w < sv_next_ws t \<longleftrightarrow> w = 0" for w by (metis option.distinct(1) sm_find.simps)
  then have "sv_next_ws t = 1" by (metis less_one nat_neq_iff less_irrefl)
  with ok t(2) show ?thesis by (intro exI [of _ t]) auto
qed

text \<open>C2: the daemon refines the registry: whatever happens to it, from any state it can reach, either is one
  step of the registry (a new websocket joins one user, a user with a websocket is subscribed, a
  websocket leaves and with the last one possibly the subscription) or changes nothing of it.\<close>

theorem daemon_refines_registry:
  assumes "reaches sn conf L lv os x" "null_refused lv" "ws_step sn conf L lv os x y"
  shows "registry_step (registry_of x) (registry_of y) \<or> registry_of y = registry_of x"
  using step_registry [OF assms(3,2) reaches_ok [OF assms(1,2)]] .

theorem daemon_refines_registry_witness:
  "\<exists>(x :: nat system) (y :: nat system). (registry_step (registry_of x) (registry_of y) \<or> registry_of y = registry_of x) \<and>
     rg_members (registry_of y) ''root'' = {0}"
proof -
  obtain s t where s: "reaches ''beast'' default_config lab_libs careful_libvirt counting_os (s, [(0, Accepting)])"
    and step: "ws_step ''beast'' default_config lab_libs careful_libvirt counting_os (s, [(0, Accepting)]) (t, [(0, Open)])"
    and t: "ws_bucket ''root'' t = [0]"
    using lab_trace by (elim exE conjE) (rule that)
  let ?x = "(s, [(0, Accepting)])" and ?y = "(t, [(0, Open)])"
  have "rg_members (registry_of ?y) ''root'' = {0}" using t by (simp add: registry_of_def)
  with daemon_refines_registry [OF s careful(1) step]
  have "(registry_step (registry_of ?x) (registry_of ?y) \<or> registry_of ?y = registry_of ?x) \<and>
     rg_members (registry_of ?y) ''root'' = {0}" by (rule conjI)
  show ?thesis by (intro exI) fact
qed

section \<open>Websockets\<close>

lemma open_filed:
  assumes "reaches sn conf L lv os (s, p)" "null_refused lv" "sm_find w p = Some Open"
  shows "\<exists>u. ws_filed w u (s, p)"
proof -
  have "system_ok (s, p)" using reaches_ok [OF assms(1,2)] .
  with assms(3) show ?thesis using system_okD(2,3) [of s p w] by auto
qed

lemma filed_user:
  assumes "ws_filed w v (s, p)" "w \<in> set (ws_bucket u s)"
  shows "v = u"
proof -
  have "count (mset (ws_bucket u s)) w = (if u = v \<and> sm_find w p \<noteq> Some Closed then 1 else 0)"
    using assms(1) unfolding ws_filed_def fst_conv snd_conv by blast
  moreover have "count (mset (ws_bucket u s)) w \<noteq> 0" using assms(2) by simp
  ultimately show ?thesis by presburger
qed



text \<open>C5: the close of an open websocket, in every state the daemon can reach, runs into no undefined
  behaviour and no exception when libvirt answers the deregistration: the iterator that is erased is
  never the end iterator. The websocket leaves its user's list, and all other lists and websockets
  stay.\<close>

theorem websocket_close_safe:
  assumes "reaches sn conf L lv os (s, p)" "null_refused lv" "sm_find w p = Some Open" "deregister_answers lv"
  shows "\<exists>u t. ws_async_read lv hook w Closed_Error s = (Ok (), t) \<and> w \<in> set (ws_bucket u s) \<and>
    (\<forall>v. ws_bucket v t = (if v = u then remove1 w (ws_bucket u s) else ws_bucket v s)) \<and>
    (\<forall>v. w \<notin> set (ws_bucket v t)) \<and> sv_ws t = sv_ws s"
proof -
  obtain u where u: "ws_filed w u (s, p)" using open_filed [OF assms(1-3)] by blast
  then obtain c where c: "ws_of w u s" "sm_find u (sv_pool s) = Some c" by (auto simp: ws_filed_def)
  have tables: "tables_ok s" using system_okD(1) [OF reaches_ok [OF assms(1,2)]] .
  then have wf: "events_wf (sv_events s)"
    and pool: "\<forall>k. sm_find k (sv_events s) \<noteq> None \<longrightarrow> sm_find k (sv_pool s) \<noteq> None" by (simp_all add: tables_ok_def)
  have w: "w \<in> set (ws_bucket u s)" using filed_in [OF u] assms(3) by simp
  obtain t where run: "ws_callback_run lv hook (Ws_Close u u w) s = (Ok (), t)"
    using close_safe [OF w c(2) wf pool assms(4)] by blast
  then have "ws_async_read lv hook w Closed_Error s = (Ok (), t)"
    using c(1) by (auto simp: ws_of_def ws_async_read_def act_simps act_then_def act_return_def)
  moreover have eff: "close_effect u w s t" using close_Ok [OF w c(2) wf run] .
  moreover have "count (mset (ws_bucket v t)) w = 0" for v
    using u assms(3) close_events [OF eff tables] by (auto simp: ws_filed_def simp del: count_mset_0_iff)
  then have "w \<notin> set (ws_bucket v t)" for v by (simp add: count_mset_0_iff)
  ultimately show ?thesis
    using w close_events [OF eff tables] by (intro exI [of _ u] exI [of _ t]) (auto simp: close_effect_def)
qed

theorem websocket_close_safe_witness:
  "\<exists>s u t. ws_async_read careful_libvirt [] 0 Closed_Error s = (Ok (), t) \<and> 0 \<in> set (ws_bucket u s) \<and>
     0 \<notin> set (ws_bucket u t)"
proof -
  obtain s where "reaches ''beast'' default_config lab_libs careful_libvirt counting_os (s, [(0, Open)])"
    using lab_reaches by blast
  from websocket_close_safe [OF this careful(1) lab_phase careful(2), of "[]"] show ?thesis by blast
qed



end
