(* ===== verification/Failures.thy ===== *)
theory Failures
  imports Daemon
begin

text \<open>
  Where the handling of websockets fails: an upgrade request for another target, a registration
  libvirt refuses, a registration that outlives the connection it was made on, and a websocket that
  ends without a close.
\<close>

section \<open>Upgrade requests\<close>

lemma router_run_app_no_throw: "fst (router_run L (app_router conf L lv os) hc req s) \<noteq> Throw e"
proof (cases "path_endpoint (rq_target req)")
  case None
  then show ?thesis
    by (simp add: router_run_def route_dispatch_fact act_simps not_found_def Let_def log_access_run)
next
  case (Some e')
  then have found: "find_route (ro_regex (app_router conf L lv os)) (rq_target req) (ro_routes (app_router conf L lv os)) =
      Ok (Some (handler_of conf L lv os e', groups (rq_target req) e'))"
    by (simp add: route_dispatch_fact)
  have "fst (run_route L (handler_of conf L lv os e') (groups (rq_target req) e') hc req s) \<noteq> Throw e"
    by (rule run_route_no_throw)
  then show ?thesis
    by (auto simp: router_run_found [OF found] act_then_def act_bind_def log_access_run split: prod.split outcome.split)
qed

lemma redirect_Ok:
  assumes "path_endpoint (rq_target req) = Some Redirect"
  shows "\<exists>s'. router_run L (app_router conf L lv os) hc req s = (Ok (), s')"
proof -
  have found: "find_route (ro_regex (app_router conf L lv os)) (rq_target req) (ro_routes (app_router conf L lv os)) =
      Ok (Some (append_trailing_slash, [rq_target req]))"
    using assms by (simp add: route_dispatch_fact)
  have "fst (append_trailing_slash hc [rq_target req] req s) = Ok ()" for hc and s :: "'a server"
    by (simp add: append_trailing_slash_def Let_def act_simps)
  then obtain s' where "run_route L append_trailing_slash [rq_target req] hc req s = (Ok (), s')"
    using run_route_defined [of append_trailing_slash "[rq_target req]" req L hc s] by auto
  then show ?thesis by (simp add: router_run_found [OF found] act_simps log_access_run)
qed

lemma no_route_Ok:
  assumes "path_endpoint (rq_target req) = None"
  shows "\<exists>s'. router_run L (app_router conf L lv os) hc req s = (Ok (), s')"
  using assms by (simp add: router_run_def route_dispatch_fact act_simps not_found_def Let_def log_access_run)

text \<open>C38: a request that asks for an upgrade, to any target but a user's websocket, never gets past
  \<open>process_request\<close>: the websocket it follows does not exist. For targets that are redirected or not
  found at all this is certain, and needs no more than the request.\<close>

theorem upgrade_elsewhere_undefined:
  assumes hc: "sm_find h (sv_http s) = Some hc" "hc_websock hc = None" "rq_upgrade (hc_request hc)"
    and named: "pool_named (sv_pool s)"
    and e: "\<And>u. path_endpoint (rq_target (hc_request hc)) \<noteq> Some (User_Route Ws_Op u)"
  shows "fst (process_request sn (app_on_request conf L lv os) h s) \<in> {Undef, Hang} \<and>
    (path_endpoint (rq_target (hc_request hc)) \<in> {None, Some Redirect} \<longrightarrow>
      fst (process_request sn (app_on_request conf L lv os) h s) = Undef)"
proof -
  let ?router = "router_run L (app_router conf L lv os) (Some h) (hc_request hc)"
  obtain r0 where r0: "process_request sn (app_on_request conf L lv os) h s =
      act_then ?router (finish_request h (hc_request hc)) (s\<lparr>sv_response := r0\<rparr>)"
    using process_request_router [OF hc(1)] by blast
  let ?s = "s\<lparr>sv_response := r0\<rparr>"
  obtain q t where q: "?router ?s = (q, t)" by force
  have "ws_frame_from s ?s" using named by (simp add: ws_frame_from_def ws_same_def)
  from other_router_run [OF this e, where L = L and conf = conf and lv = lv and os = os and hc = "Some h"]
  have "sv_http t = sv_http s" unfolding q by (simp add: ws_frame_from_def ws_same_def)
  with hc have fin: "fst (finish_request h (hc_request hc) t) = Undef"
    by (simp add: finish_request_def act_simps)
  have run: "process_request sn (app_on_request conf L lv os) h s = (case q of
      Ok _ \<Rightarrow> finish_request h (hc_request hc) t | Throw e \<Rightarrow> (Throw e, t) | Undef \<Rightarrow> (Undef, t) | Hang \<Rightarrow> (Hang, t))"
    unfolding r0 using q by (simp add: act_then_def act_bind_def split: outcome.split)
  have "fst (process_request sn (app_on_request conf L lv os) h s) \<in> {Undef, Hang}"
  proof (cases q)
    case (Throw x)
    with router_run_app_no_throw [of L conf lv os "Some h" "hc_request hc" ?s x] q show ?thesis by simp
  qed (simp_all add: run fin)
  moreover have "q = Ok ()" if "path_endpoint (rq_target (hc_request hc)) \<in> {None, Some Redirect}"
    using that redirect_Ok [of "hc_request hc" L conf lv os "Some h" ?s]
      no_route_Ok [of "hc_request hc" L conf lv os "Some h" ?s] q by auto
  ultimately show ?thesis using fin by (auto simp: run)
qed

theorem upgrade_elsewhere_undefined_witness:
  "fst (process_request ''beast'' (app_on_request default_config lab_libs lab_libvirt counting_os) 0
     (with_client (ws_request_of ''/'') empty_daemon)) = Undef"
proof -
  have e: "path_endpoint ''/'' = None" by code_simp
  show ?thesis
    using upgrade_elsewhere_undefined [of 0 "with_client (ws_request_of ''/'') empty_daemon" "new_http (ws_request_of ''/'')"
        "''beast''" default_config lab_libs lab_libvirt counting_os]
    by (simp add: with_client_def new_http_def empty_daemon_def ws_request_of_def request_of_def e pool_named_def
        pool_ok_def sm_ok_def)
qed

section \<open>Registrations\<close>

lemma accept_run:
  assumes "ws_of w u s"
  shows "ws_async_accept lv hook w No_Error s = act_then (ws_callback_run lv hook (Ws_Handshake u u)) (act_return ()) s"
  using assms by (auto simp: ws_of_def ws_async_accept_def act_simps)

text \<open>C39: when libvirt refuses to register the events of a user, the exception leaves the handler of the
  handshake, where nothing catches it: it ends the thread that runs the handlers, and the program. The
  websocket is still in its user's list then.\<close>

theorem refused_registration_escapes:
  assumes w: "ws_of w u s" and c: "sm_find u (sv_pool s) = Some c" "sm_find (vc_user c) (sv_events s) = None"
    and "virConnectDomainEventRegisterAny lv (vc_ptr c) VIR_DOMAIN_EVENT_ID_LIFECYCLE (sv_world s) = (Ok (-1), w1)"
    and "deregister_answers lv"
  shows "\<exists>t. ws_async_accept lv hook w No_Error s = (Throw (Runtime_Error ''Event registration failed''), t) \<and>
    sv_events t = sv_events s \<and> sv_websockets t = sv_websockets s"
proof -
  let ?s = "s\<lparr>sv_world := w1\<rparr>"
  have reg: "on_conn u (\<lambda>c. virConnectDomainEventRegisterAny lv (vc_ptr c) VIR_DOMAIN_EVENT_ID_LIFECYCLE) s = (Ok (-1), ?s)"
    using on_conn_Ok [where m = "\<lambda>c. virConnectDomainEventRegisterAny lv (vc_ptr c) VIR_DOMAIN_EVENT_ID_LIFECYCLE", OF c(1) assms(4)] .
  have "register_event lv VIR_DOMAIN_EVENT_ID_LIFECYCLE (event_new u v) s =
      (Throw (Runtime_Error ''Event registration failed''), ?s)" for v
    using reg c(1) by (simp add: register_event_def event_new_def act_bind_def on_conn_def act_return_def act_throw_def)
  moreover obtain w2 where "event_destroy lv (event_new u (vc_user c)) ?s = (Ok (), ?s\<lparr>sv_world := w2\<rparr>)"
    using event_destroy_run [OF assms(5), of "event_new u (vc_user c)" ?s c] c(1) by (auto simp: event_new_def)
  ultimately have "lifecycle_event_new lv u (vc_user c) s =
      (Throw (Runtime_Error ''Event registration failed''), ?s\<lparr>sv_world := w2\<rparr>)"
    by (simp add: lifecycle_event_new_def act_catch_def act_then_def act_bind_def act_throw_def)
  then have "add_events lv hook u s = (Throw (Runtime_Error ''Event registration failed''), ?s\<lparr>sv_world := w2\<rparr>)"
    by (simp add: add_events_def act_bind_Ok [where m = "conn_user u", OF conn_user_run [OF c(1)]] act_simps)
  then have "ws_callback_run lv hook (Ws_Handshake u u) s =
      (Throw (Runtime_Error ''Event registration failed''), ?s\<lparr>sv_world := w2\<rparr>)"
    using c(2) by (simp add: ws_callback_run_def act_bind_Ok [where m = "conn_user u", OF conn_user_run [OF c(1)]] act_simps)
  then show ?thesis by (simp add: accept_run [OF w] act_simps)
qed

definition refusing_libvirt :: "nat libvirt_c" where
  "refusing_libvirt = lab_libvirt\<lparr>c_virConnectDomainEventRegisterAny := (\<lambda>conn ev. act_return (-1))\<rparr>"

definition one_websocket :: "connection \<Rightarrow> (string, events) std_map \<Rightarrow> nat server" where
  "one_websocket c evs = empty_daemon\<lparr>sv_world := 9, sv_pool := [(''root'', c)], sv_next_ws := 1,
     sv_ws := [(0, \<lparr>ws_request = request_of Get ''/users/root/websocket/'',
       ws_on_handshake = [Ws_Handshake ''root'' ''root''], ws_on_close = [Ws_Close ''root'' ''root'' 0]\<rparr>)],
     sv_websockets := [(''root'', [0])], sv_events := evs\<rparr>"

lemma one_websocket_of: "ws_of 0 ''root'' (one_websocket c evs)"
  by (simp add: ws_of_def one_websocket_def)

theorem refused_registration_escapes_witness:
  "\<exists>t. ws_async_accept refusing_libvirt [] 0 No_Error
     (one_websocket \<lparr>vc_ptr = Some 1, vc_errno = 0, vc_closed = False, vc_user = ''root''\<rparr> []) =
     (Throw (Runtime_Error ''Event registration failed''), t)"
proof -
  have "deregister_answers refusing_libvirt"
    by (simp add: deregister_answers_def refusing_libvirt_def lab_libvirt_def stub_libvirt_def stub_with_def
        virConnectDomainEventDeregisterAny_def act_simps)
  then show ?thesis
    using refused_registration_escapes [OF one_websocket_of, of
        "\<lparr>vc_ptr = Some 1, vc_errno = 0, vc_closed = False, vc_user = ''root''\<rparr>" "[]"
        "\<lparr>vc_ptr = Some 1, vc_errno = 0, vc_closed = False, vc_user = ''root''\<rparr>" refusing_libvirt 9 "[]"]
    by (auto simp: one_websocket_def refusing_libvirt_def virConnectDomainEventRegisterAny_def act_simps)
qed

text \<open>C40: a registration outlives the connection it was made on. When the connection of a user was closed
  and a request has opened a new one, the next websocket finds the old registration in the table and
  makes none: the user's only registration is on a connection other than the open one, and no event
  of the new connection will reach the user.\<close>

theorem reconnect_keeps_old_registration:
  assumes pool: "pool_ok (sv_pool s)" "\<not> slot_open u (sv_pool s)"
    and ev: "sm_find u (sv_events s) = Some (registered ev)" "ev_registered ev = Some p1"
    and get: "on_sv_pool (pool_get lv os u) s = (Ok u, s1)" and p2: "sm_find u (sv_pool s1) = Some c" "vc_ptr c \<noteq> Some p1"
    and w: "ws_of w u s"
  shows "ws_async_accept lv hook w No_Error s1 = (Ok (), s1) \<and> connection_is_open c \<and>
    sm_find u (sv_events s1) = Some (registered ev) \<and> ev_registered ev \<noteq> vc_ptr c"
proof -
  obtain p wd where run: "pool_get lv os u (sv_pool s, sv_world s) = (Ok u, (p, wd))"
    and s1: "s1 = s\<lparr>sv_pool := p, sv_world := wd\<rparr>"
    using get by (auto simp: on_sv_pool_def Let_def split: prod.splits)
  from pool_get_sound [OF pool(1) run] have "slot_open u p" "pool_ok p" by auto
  with p2(1) have c: "connection_is_open c" "vc_user c = u"
    by (auto simp: s1 slot_open_def pool_ok_def slot_ok_def)
  have c1: "sm_find u (sv_pool s1) = Some c" by (rule p2(1))
  have evs: "sm_find u (sv_events s1) = Some (registered ev)" using ev(1) by (simp add: s1)
  have w1: "ws_of w u s1" using w by (simp add: ws_of_def s1)
  have "ws_callback_run lv hook (Ws_Handshake u u) s1 = (Ok (), s1)"
    using evs c(2)
    by (simp add: ws_callback_run_def act_bind_Ok [where m = "conn_user u", OF conn_user_run [OF c1]] act_simps)
  then have "ws_async_accept lv hook w No_Error s1 = (Ok (), s1)" by (simp add: accept_run [OF w1] act_simps)
  with c evs ev(2) p2(2) show ?thesis by auto
qed

theorem reconnect_keeps_old_registration_witness:
  "\<exists>s1 c ev. sm_find ''root'' (sv_pool s1) = Some c \<and>
     ws_async_accept lab_libvirt [] 0 No_Error s1 = (Ok (), s1) \<and> connection_is_open c \<and>
     sm_find ''root'' (sv_events s1) = Some (registered ev) \<and> ev_registered ev \<noteq> vc_ptr c"
proof -
  let ?old = "\<lparr>vc_ptr = Some 1, vc_errno = 0, vc_closed = True, vc_user = ''root''\<rparr>"
  let ?ev = "\<lparr>ev_conn = ''root'', ev_callback_id = 5, ev_user = ''root'', ev_registered = Some 1\<rparr>"
  let ?s = "one_websocket ?old [(''root'', registered ?ev)]"
  let ?new = "\<lparr>vc_ptr = Some 9, vc_errno = 0, vc_closed = False, vc_user = ''root''\<rparr>"
  have "pool_get lab_libvirt counting_os ''root'' ([(''root'', ?old)], 9) = (Ok ''root'', ([(''root'', ?new)], 10))"
    by code_simp
  then have get: "on_sv_pool (pool_get lab_libvirt counting_os ''root'') ?s =
      (Ok ''root'', ?s\<lparr>sv_pool := [(''root'', ?new)], sv_world := 10\<rparr>)"
    by (simp add: on_sv_pool_def one_websocket_def)
  have "pool_ok (sv_pool ?s)" "\<not> slot_open ''root'' (sv_pool ?s)"
    by (auto simp: one_websocket_def pool_ok_def sm_ok_def slot_ok_def slot_open_def connection_is_open_def)
  from reconnect_keeps_old_registration [OF this _ _ get _ _ one_websocket_of, of ?ev 1 ?new "[]"]
  show ?thesis by (intro exI [of _ "?s\<lparr>sv_pool := [(''root'', ?new)], sv_world := 10\<rparr>"] exI [of _ ?new] exI [of _ ?ev])
      (simp add: one_websocket_def)
qed

text \<open>
  A reconnect that fails leaves an object without a name in the slot of the user, and the close callback
  asks the object for the name: the last websocket of the user is gone and the registration stays.
\<close>

lemma nameless_keeps_registration:
  assumes slot: "\<not> slot_open u (sv_pool s)" and fails: "virConnectOpen lv (c_str (uri u)) (sv_world s) = (Ok None, w1)"
    and wf: "events_wf (sv_events s)" and w: "ws_of w u s" "ws_bucket u s = [w]"
    and get: "on_sv_pool (pool_get lv os u) s = (r, s1)" and close: "ws_async_read lv [] w Closed_Error s1 = (Ok (), t)"
  shows "(\<exists>e. r = Throw e) \<and> ws_bucket u t = [] \<and> sv_events t = sv_events s"
proof -
  let ?c = "new_connection\<lparr>vc_errno := os_errno os w1\<rparr>"
  have run: "r = Throw (Runtime_Error (''error: '' @ os_strerror os (os_errno os w1) @ [CHR 0x0A]))"
    "s1 = s\<lparr>sv_pool := sm_put u ?c (sv_pool s), sv_world := w1\<rparr>"
    using get pool_get_fail_run [OF slot fails, of os] by (simp_all add: on_sv_pool_def)
  have "ws_of w u s1" "ws_bucket u s1 = [w]" "sm_find u (sv_pool s1) = Some ?c" "events_wf (sv_events s1)"
    using w wf by (simp_all add: run ws_of_def ws_bucket_def sm_find_put)
  with close have "close_effect u w s1 t" using close_Ok [of w u s1 ?c lv "[]" t] read_callbacks [of w u s1 lv] by simp
  moreover have "sm_find [] (sv_events s) = None" using wf unfolding events_wf_def by (metis not_None_eq)
  ultimately show ?thesis
    using w(2) by (auto simp: close_effect_def run sm_find_put new_connection_def ws_bucket_def)
qed

section \<open>Websockets that do not close\<close>

text \<open>C37: in every state the daemon can reach, a websocket is in its user's list, once, exactly if it has not
  seen a close: a websocket whose read or handshake failed, or which no upgrade followed, stays there
  for good, and is written to by every broadcast.\<close>

theorem failed_websocket_stays:
  assumes "reaches sn conf L lv os (s, p)" "null_refused lv" "sm_find w p = Some f"
  shows "\<exists>u. (\<forall>v. count (mset (ws_bucket v s)) w = (if v = u \<and> f \<noteq> Closed then 1 else 0)) \<and>
    (f \<noteq> Closed \<longrightarrow> (\<exists>t. ws_pool_broadcast L u data s = (Ok (), t) \<and> (w, stringify L data) \<in> set (sv_written t)))"
proof -
  have ok: "system_ok (s, p)" using reaches_ok [OF assms(1,2)] .
  with assms(3) obtain u where u: "ws_filed w u (s, p)" using system_okD(2,3) [of s p w] by auto
  have "\<exists>t. ws_pool_broadcast L u data s = (Ok (), t) \<and> (w, stringify L data) \<in> set (sv_written t)" if "f \<noteq> Closed"
  proof -
    have "w \<in> set (ws_bucket u s)" using filed_in [OF u] assms(3) that by simp
    moreover obtain m where "ws_pool_index u s = (Ok (ws_bucket u s), s\<lparr>sv_websockets := m\<rparr>)"
      using ws_pool_index_run by blast
    ultimately show ?thesis by (simp add: ws_pool_broadcast_def act_simps act_for_ws_write)
  qed
  with u assms(3) show ?thesis by (auto simp: ws_filed_def simp del: count_mset_0_iff)
qed

theorem failed_websocket_stays_witness:
  "\<exists>s u. (\<forall>v. count (mset (ws_bucket v (s :: nat server))) 0 = (if v = u then 1 else 0))"
proof -
  obtain t where t: "reaches ''beast'' default_config lab_libs careful_libvirt counting_os (t, [(0, Open)])"
    using lab_reaches by blast
  have "(ws_step ''beast'' default_config lab_libs careful_libvirt counting_os) (t, [(0, Open)]) (t, [(0, Failed)])"
    using ws_step.reads [of 0 "[(0, Open)]" careful_libvirt Other_Error t t]
    by (simp add: ws_async_read_def act_return_def phase_after_read_def)
  with t have "reaches ''beast'' default_config lab_libs careful_libvirt counting_os (t, [(0, Failed)])"
    by (rule reaches_step)
  moreover have failed: "sm_find (0 :: ws_id) [(0, Failed)] = Some Failed" by simp
  ultimately obtain u where "\<forall>v. count (mset (ws_bucket v t)) 0 = (if v = u \<and> Failed \<noteq> Closed then 1 else 0)"
    using failed_websocket_stays [OF _ careful(1) failed, of _ _ lab_libs _ t JNull] by blast
  then show ?thesis by (intro exI [of _ t] exI [of _ u]) (simp del: count_mset_0_iff)
qed

end
