(* ===== verification/Settings.thy ===== *)
theory Settings
  imports Std_Map
begin

text \<open>
  \<open>util/config.cpp\<close>: the options of the daemon and where their values come from. The option parser is
  \<open>boost::program_options\<close>: a parameter, with what its documentation says of \<open>store\<close> as a hypothesis.
\<close>

section \<open>Options\<close>

text \<open>A value of an option, an entry of the map of values, and the description of an option.\<close>

datatype any = Any_Empty | Any_String string | Any_Unsigned nat | Any_Double real

record variable =
  vr_value :: any
  vr_defaulted :: bool

type_synonym variables_map = "(string, variable) std_map"

record option_desc =
  od_name :: string
  od_default :: "any option"
  od_desc :: string

definition long_name :: "option_desc \<Rightarrow> string" where
  "long_name od = takeWhile (\<lambda>c. c \<noteq> CHR '','') (od_name od)"

definition default_of :: "option_desc list \<Rightarrow> string \<Rightarrow> any option" where
  "default_of ds n = (case find (\<lambda>od. long_name od = n) ds of None \<Rightarrow> None | Some od \<Rightarrow> od_default od)"

text \<open>What a parse gives, and the library.\<close>

record parsed =
  pa_desc :: "option_desc list"
  pa_values :: "(string \<times> any) list"

record program_options =
  po_command_line :: "option_desc list \<Rightarrow> string list \<Rightarrow> parsed outcome"
  po_config_file :: "option_desc list \<Rightarrow> string \<Rightarrow> parsed outcome"
  po_store :: "parsed \<Rightarrow> variables_map \<Rightarrow> variables_map outcome"
  po_print :: "option_desc list \<Rightarrow> string"

text \<open>
  The documentation of \<open>store\<close>: it stores the options that are given and the defaults of those that are
  not, and does not change a value the map already has unless it is a default.
\<close>

definition stored :: "parsed \<Rightarrow> variables_map \<Rightarrow> string \<Rightarrow> variable option" where
  "stored ps m n = (case sm_find n m of
      Some v \<Rightarrow> (if vr_defaulted v then
          (case map_of (pa_values ps) n of
             Some x \<Rightarrow> Some \<lparr>vr_value = x, vr_defaulted = False\<rparr> | None \<Rightarrow> Some v)
        else Some v)
    | None \<Rightarrow> (case map_of (pa_values ps) n of
          Some x \<Rightarrow> Some \<lparr>vr_value = x, vr_defaulted = False\<rparr>
        | None \<Rightarrow> map_option (\<lambda>x. \<lparr>vr_value = x, vr_defaulted = True\<rparr>) (default_of (pa_desc ps) n)))"

definition stores :: "program_options \<Rightarrow> bool" where
  "stores po \<longleftrightarrow> (\<forall>ps m m' n. po_store po ps m = Ok m' \<longrightarrow> sm_find n m' = stored ps m n)"

definition parses_for :: "program_options \<Rightarrow> bool" where
  "parses_for po \<longleftrightarrow> (\<forall>ds args ps. po_command_line po ds args = Ok ps \<longrightarrow> pa_desc ps = ds) \<and>
     (\<forall>ds text ps. po_config_file po ds text = Ok ps \<longrightarrow> pa_desc ps = ds)"

section \<open>The configuration\<close>

record config =
  cf_cmdline_desc :: "option_desc list"
  cf_desc :: "option_desc list"
  cf_vm :: variables_map

text \<open>\<open>init\<close>, with \<open>/=\<close> of a path and a relative name: the home directory is taken as it is; a null pointer is undefined.\<close>

definition path_append :: "string \<Rightarrow> string \<Rightarrow> string" where
  "path_append dir name = (if dir = [] \<or> last dir = CHR ''/'' then dir @ name else dir @ ''/'' @ name)"

definition config_init :: "string option \<Rightarrow> config outcome" where
  "config_init home = (case home of
      None \<Rightarrow> Undef
    | Some h \<Rightarrow> Ok \<lparr>cf_cmdline_desc =
        [\<lparr>od_name = ''help,h'', od_default = None, od_desc = ''print this help message''\<rparr>,
         \<lparr>od_name = ''config,c'', od_default = Some (Any_String (path_append h ''.webvirtd.conf'')),
          od_desc = ''path to configuration file''\<rparr>],
        cf_desc = [], cf_vm = []\<rparr>)"

text \<open>The copy and move constructors leave the options of the command line behind.\<close>

definition config_copy :: "config \<Rightarrow> config" where
  "config_copy other = \<lparr>cf_cmdline_desc = [], cf_desc = cf_desc other, cf_vm = cf_vm other\<rparr>"

definition config_move :: "config \<Rightarrow> config" where
  "config_move other = \<lparr>cf_cmdline_desc = [], cf_desc = cf_desc other, cf_vm = cf_vm other\<rparr>"

definition add_option :: "string \<Rightarrow> string \<Rightarrow> config \<Rightarrow> config" where
  "add_option name desc cf = cf\<lparr>cf_desc := cf_desc cf @ [\<lparr>od_name = name, od_default = None, od_desc = desc\<rparr>]\<rparr>"

definition add_option_value :: "string \<Rightarrow> any \<Rightarrow> string \<Rightarrow> config \<Rightarrow> config" where
  "add_option_value name value desc cf =
     cf\<lparr>cf_desc := cf_desc cf @ [\<lparr>od_name = name, od_default = Some value, od_desc = desc\<rparr>]\<rparr>"

definition config_has :: "string \<Rightarrow> config \<Rightarrow> bool" where
  "config_has name cf \<longleftrightarrow> sm_find name (cf_vm cf) \<noteq> None"

text \<open>\<open>get\<close> at the two types \<open>main\<close> uses it at.\<close>

definition config_value :: "string \<Rightarrow> config \<Rightarrow> any outcome" where
  "config_value name cf = outcome_bind (sm_at name (cf_vm cf)) (\<lambda>v. Ok (vr_value v))"

definition get_string :: "string \<Rightarrow> config \<Rightarrow> string outcome" where
  "get_string name cf = outcome_bind (config_value name cf) (\<lambda>v. case v of
      Any_String s \<Rightarrow> Ok s | _ \<Rightarrow> Throw (Other_Error ''bad any_cast''))"

definition get_unsigned :: "string \<Rightarrow> config \<Rightarrow> nat outcome" where
  "get_unsigned name cf = outcome_bind (config_value name cf) (\<lambda>v. case v of
      Any_Unsigned n \<Rightarrow> Ok n | _ \<Rightarrow> Throw (Other_Error ''bad any_cast''))"

definition parse_arguments :: "program_options \<Rightarrow> string list \<Rightarrow> config \<Rightarrow> config outcome" where
  "parse_arguments po args cf =
     outcome_bind (po_command_line po (cf_cmdline_desc cf @ cf_desc cf) args) (\<lambda>ps.
     outcome_bind (po_store po ps (cf_vm cf)) (\<lambda>vm. Ok (cf\<lparr>cf_vm := vm\<rparr>)))"

text \<open>The text of the file, if it exists.\<close>

definition parse_file :: "program_options \<Rightarrow> string option \<Rightarrow> config \<Rightarrow> config outcome" where
  "parse_file po file cf = (case file of
      None \<Rightarrow> Ok cf
    | Some text \<Rightarrow>
        outcome_bind (po_config_file po (cf_desc cf) text) (\<lambda>ps.
        outcome_bind (po_store po ps (cf_vm cf)) (\<lambda>vm. Ok (cf\<lparr>cf_vm := vm\<rparr>))))"

definition nl :: string where
  "nl = [CHR 0x0A]"

definition usage :: "program_options \<Rightarrow> config \<Rightarrow> string" where
  "usage po cf =
     ''usage: webvirtd [options]'' @ nl @ nl @ po_print po (cf_cmdline_desc cf) @ nl @ po_print po (cf_desc cf) @ nl @
     ''configuration'' @ nl @
     ''  Options found in the 'program options' section can be set both in'' @ nl @
     ''  configuration files and with command-line usage.'' @ nl @ nl @
     ''  Default configuration is located at ~/.webvirtd.conf and can be'' @ nl @
     ''  overridden using the command-line '--config' option.'' @ nl @ nl"

text \<open>So a copy has every value its original has, and parses only what a file may hold.\<close>

lemma config_copy_file: "parse_file po file (config_copy cf) = outcome_bind (parse_file po file cf) (\<lambda>cf'. Ok (config_copy cf'))"
proof (cases "file")
  case (Some t)
  show ?thesis
  proof (cases "po_config_file po (cf_desc cf) t")
    case (Ok ps)
    with Some show ?thesis by (cases "po_store po ps (cf_vm cf)") (simp_all add: parse_file_def config_copy_def)
  qed (simp_all add: Some parse_file_def config_copy_def)
qed (simp add: parse_file_def)

lemma config_copy_parses:
  "config_value name (config_copy cf) = config_value name cf"
  "parse_arguments po args (config_copy cf) =
     outcome_bind (po_command_line po (cf_desc cf) args) (\<lambda>ps.
     outcome_bind (po_store po ps (cf_vm cf)) (\<lambda>vm. Ok ((config_copy cf)\<lparr>cf_vm := vm\<rparr>)))"
  by (simp_all add: config_value_def config_copy_def parse_arguments_def)

section \<open>Where a value comes from\<close>

lemma outcome_bind_Ok_iff: "outcome_bind r f = Ok b \<longleftrightarrow> (\<exists>a. r = Ok a \<and> f a = Ok b)"
  by (cases r) simp_all

lemma parse_arguments_Ok:
  assumes "parse_arguments po args cf = Ok cf'" "stores po" "parses_for po"
  obtains ps where "po_command_line po (cf_cmdline_desc cf @ cf_desc cf) args = Ok ps"
    "pa_desc ps = cf_cmdline_desc cf @ cf_desc cf" "\<And>n. sm_find n (cf_vm cf') = stored ps (cf_vm cf) n"
    "cf_cmdline_desc cf' = cf_cmdline_desc cf" "cf_desc cf' = cf_desc cf"
proof -
  from assms(1) obtain ps vm where ps: "po_command_line po (cf_cmdline_desc cf @ cf_desc cf) args = Ok ps"
    and vm: "po_store po ps (cf_vm cf) = Ok vm" "cf' = cf\<lparr>cf_vm := vm\<rparr>"
    by (auto simp: parse_arguments_def outcome_bind_Ok_iff)
  moreover have "\<And>n. sm_find n vm = stored ps (cf_vm cf) n" using vm(1) assms(2) by (simp add: stores_def)
  moreover have "pa_desc ps = cf_cmdline_desc cf @ cf_desc cf" using ps assms(3) by (simp add: parses_for_def)
  ultimately show thesis by (intro that [of ps]) auto
qed

text \<open>The values \<open>main\<close> works with: the command line is parsed, then the file, then the command line again.\<close>

definition load_config :: "program_options \<Rightarrow> string list \<Rightarrow> string option \<Rightarrow> config \<Rightarrow> config outcome" where
  "load_config po args file cf =
     outcome_bind (parse_arguments po args cf) (\<lambda>cf.
     outcome_bind (parse_file po file cf) (\<lambda>cf. parse_arguments po args cf))"

definition file_values :: "program_options \<Rightarrow> option_desc list \<Rightarrow> string option \<Rightarrow> (string \<times> any) list" where
  "file_values po ds file = (case file of None \<Rightarrow> [] | Some text \<Rightarrow>
     (case po_config_file po ds text of Ok ps \<Rightarrow> pa_values ps | _ \<Rightarrow> []))"

lemma stored_value:
  "map_option vr_value (stored ps m n) = (case sm_find n m of
      Some v \<Rightarrow> (if vr_defaulted v then (case map_of (pa_values ps) n of Some x \<Rightarrow> Some x | None \<Rightarrow> Some (vr_value v))
        else Some (vr_value v))
    | None \<Rightarrow> (case map_of (pa_values ps) n of Some x \<Rightarrow> Some x | None \<Rightarrow> default_of (pa_desc ps) n))"
  by (auto simp: stored_def option.map_comp comp_def option.map_ident split: option.split)

lemma default_of_suffix:
  assumes "distinct (map long_name (ds @ es))" "default_of (ds @ es) n = None"
  shows "default_of es n = None"
  using assms
proof (induction ds)
  case (Cons d ds)
  show ?case
  proof (cases "long_name d = n")
    case True
    with Cons.prems(1) have "find (\<lambda>od. long_name od = n) es = None"
      by (auto simp: find_None_iff) (metis image_eqI)
    then show ?thesis by (simp add: default_of_def)
  next
    case False
    with Cons show ?thesis by (simp add: default_of_def)
  qed
qed simp

text \<open>C34: an option has the value the command line gives it; failing that, the one the configuration file
  gives it; failing that, its default; and no value if it has none.\<close>

theorem option_precedence:
  assumes "stores po" "parses_for po" and "cf_vm cf = []" "distinct (map long_name (cf_cmdline_desc cf @ cf_desc cf))"
    and "load_config po args file cf = Ok cf'" "po_command_line po (cf_cmdline_desc cf @ cf_desc cf) args = Ok cmd"
  shows "map_option vr_value (sm_find n (cf_vm cf')) =
    (case map_of (pa_values cmd) n of Some x \<Rightarrow> Some x
     | None \<Rightarrow> (case map_of (file_values po (cf_desc cf) file) n of Some x \<Rightarrow> Some x
     | None \<Rightarrow> default_of (cf_cmdline_desc cf @ cf_desc cf) n))"
proof -
  let ?ds = "cf_cmdline_desc cf @ cf_desc cf"
  obtain cf1 cf2 where cf1: "parse_arguments po args cf = Ok cf1" and cf2: "parse_file po file cf1 = Ok cf2"
    and cf3: "parse_arguments po args cf2 = Ok cf'"
    using assms(5) by (auto simp: load_config_def outcome_bind_Ok_iff)
  from parse_arguments_Ok [OF cf1 assms(1,2)] assms(6) have 1: "pa_desc cmd = ?ds"
    "\<And>n. sm_find n (cf_vm cf1) = stored cmd (cf_vm cf) n"
    "cf_cmdline_desc cf1 = cf_cmdline_desc cf" "cf_desc cf1 = cf_desc cf" by (metis outcome.inject)+
  have 2: "cf_cmdline_desc cf2 = cf_cmdline_desc cf \<and> cf_desc cf2 = cf_desc cf \<and>
      (case file of None \<Rightarrow> cf2 = cf1 | Some text \<Rightarrow> (\<exists>ps. po_config_file po (cf_desc cf) text = Ok ps \<and> pa_desc ps = cf_desc cf \<and>
        (\<forall>n. sm_find n (cf_vm cf2) = stored ps (cf_vm cf1) n)))"
    using cf2 assms(1,2) 1(3,4)
    by (cases "file") (auto simp: parse_file_def outcome_bind_Ok_iff stores_def parses_for_def)
  from parse_arguments_Ok [OF cf3 assms(1,2)] assms(6) 2 have 3:
    "\<And>n. sm_find n (cf_vm cf') = stored cmd (cf_vm cf2) n" by (metis outcome.inject)
  have s1: "sm_find n (cf_vm cf1) = (case map_of (pa_values cmd) n of
      Some x \<Rightarrow> Some \<lparr>vr_value = x, vr_defaulted = False\<rparr>
    | None \<Rightarrow> map_option (\<lambda>x. \<lparr>vr_value = x, vr_defaulted = True\<rparr>) (default_of ?ds n))"
    by (cases "map_of (pa_values cmd) n") (simp_all add: 1(1,2) stored_def assms(3))
  have none: "default_of ?ds n = None \<Longrightarrow> default_of (cf_desc cf) n = None" using default_of_suffix [OF assms(4)] .
  show ?thesis
  proof (cases "file")
    case None
    with 2 s1 show ?thesis
      by (cases "map_of (pa_values cmd) n", cases "default_of ?ds n")
        (simp_all add: 3 1(1) stored_def file_values_def)
  next
    case (Some t)
    with 2 obtain ps where ps: "po_config_file po (cf_desc cf) t = Ok ps" "pa_desc ps = cf_desc cf"
      "sm_find n (cf_vm cf2) = stored ps (cf_vm cf1) n" by auto
    with Some s1 none show ?thesis
      by ((cases "map_of (pa_values cmd) n"; cases "default_of ?ds n"; cases "map_of (pa_values ps) n"),
        simp_all add: 3 1(1) stored_def file_values_def)
  qed
qed

text \<open>A parser for the witnesses: one value on the command line, one in the file.\<close>

definition lab_store :: "parsed \<Rightarrow> variables_map \<Rightarrow> variables_map outcome" where
  "lab_store ps m = Ok (fold (\<lambda>n m'. case stored ps m n of Some v \<Rightarrow> sm_put n v m' | None \<Rightarrow> m')
     (map fst (pa_values ps) @ map long_name (pa_desc ps)) m)"

definition lab_options :: program_options where
  "lab_options = \<lparr>
     po_command_line = (\<lambda>ds args. Ok \<lparr>pa_desc = ds, pa_values = map (\<lambda>a. (a, Any_String ''argument'')) args\<rparr>),
     po_config_file = (\<lambda>ds t. Ok \<lparr>pa_desc = ds, pa_values = [(t, Any_String ''file'')]\<rparr>),
     po_store = lab_store, po_print = (\<lambda>ds. [])\<rparr>"

lemma lab_store_fold:
  "sm_find k (fold (\<lambda>n m'. case stored ps m n of Some v \<Rightarrow> sm_put n v m' | None \<Rightarrow> m') ns m') =
     (if k \<in> set ns \<and> stored ps m k \<noteq> None then stored ps m k else sm_find k m')"
  by (induction ns arbitrary: m') (auto simp: sm_find_put split: option.split)

lemma stored_keeps: "stored ps m n = None \<Longrightarrow> sm_find n m = None"
  by (auto simp: stored_def split: option.splits if_splits)

lemma stored_unknown: "n \<notin> fst ` set (pa_values ps) \<Longrightarrow> n \<notin> long_name ` set (pa_desc ps) \<Longrightarrow> stored ps m n = sm_find n m"
proof -
  assume a: "n \<notin> fst ` set (pa_values ps)" "n \<notin> long_name ` set (pa_desc ps)"
  then have "map_of (pa_values ps) n = None" by (simp add: map_of_eq_None_iff)
  moreover have "find (\<lambda>od. long_name od = n) (pa_desc ps) = None" using a(2) by (auto simp: find_None_iff)
  ultimately show ?thesis by (auto simp: stored_def default_of_def split: option.split)
qed

lemma lab_stores: "stores lab_options" "parses_for lab_options"
proof -
  show "stores lab_options"
    unfolding stores_def lab_options_def lab_store_def
    using stored_keeps stored_unknown by (auto simp: lab_store_fold)
qed (auto simp: parses_for_def lab_options_def)

theorem option_precedence_witness:
  "\<exists>cf. load_config lab_options [''socket''] (Some ''threads'')
       \<lparr>cf_cmdline_desc = [], cf_desc = [\<lparr>od_name = ''socket,s'', od_default = Some (Any_String ''default''), od_desc = []\<rparr>,
          \<lparr>od_name = ''threads,t'', od_default = Some (Any_Unsigned 4), od_desc = []\<rparr>], cf_vm = []\<rparr> = Ok cf \<and>
     map_option vr_value (sm_find ''socket'' (cf_vm cf)) = Some (Any_String ''argument'')"
proof -
  let ?cf = "\<lparr>cf_cmdline_desc = [], cf_desc = [\<lparr>od_name = ''socket,s'', od_default = Some (Any_String ''default''), od_desc = []\<rparr>,
          \<lparr>od_name = ''threads,t'', od_default = Some (Any_Unsigned 4), od_desc = []\<rparr>], cf_vm = []\<rparr>"
  obtain cf where cf: "load_config lab_options [''socket''] (Some ''threads'') ?cf = Ok cf"
    by (simp add: load_config_def parse_arguments_def parse_file_def lab_options_def lab_store_def)
  have "distinct (map long_name (cf_cmdline_desc ?cf @ cf_desc ?cf))" by (simp add: long_name_def)
  from option_precedence [OF lab_stores _ this cf, of "\<lparr>pa_desc = cf_desc ?cf, pa_values = [(''socket'', Any_String ''argument'')]\<rparr>" "''socket''"]
  have "map_option vr_value (sm_find ''socket'' (cf_vm cf)) = Some (Any_String ''argument'')"
    by (simp add: lab_options_def)
  with cf show ?thesis by blast
qed

end
