(* ===== verification/Http_Server.thy ===== *)
theory Http_Server
  imports Requests Settings
begin

text \<open>
  \<open>http/server.cpp\<close> and the life of a connection in \<open>http/connection.cpp\<close>: the accept loop, the read
  of the one request of a connection, the write of its response, and the deadline that runs beside
  them. Asynchronous operations are those of \<open>boost::asio\<close>: an operation is started, completes with a
  result, and its handler runs later; handlers of a connection run one at a time on its strand.
\<close>

section \<open>A connection's operations\<close>

text \<open>
  The socket; the chain of read and write, each of which is pending or completed with success or an
  error before its handler runs; and the timer: \<open>Armed\<close> until it expires or is cancelled, after which
  its handler is queued with the code for the one or the other. Cancelling a timer whose handler is
  queued has no effect.
\<close>

datatype socket = Sock_Open | Sock_Shut | Sock_Closed | Sock_Moved

datatype chain = Reading | Read_Done bool | Writing | Write_Done bool | Chain_Over

datatype timer = Armed | Expired | Aborted | Timer_Over

record conn_life =
  cl_socket :: socket
  cl_chain :: chain
  cl_timer :: timer
  cl_upgraded :: bool
  cl_on_error :: nat
  cl_on_close :: nat

definition cancel_deadline :: "conn_life \<Rightarrow> conn_life" where
  "cancel_deadline c = (if cl_timer c = Armed then c\<lparr>cl_timer := Aborted\<rparr> else c)"

text \<open>\<open>start\<close>: the read is started and the deadline is waited for.\<close>

definition read_request :: "conn_life \<Rightarrow> conn_life" where
  "read_request c = c\<lparr>cl_chain := Reading\<rparr>"

definition check_deadline :: "conn_life \<Rightarrow> conn_life" where
  "check_deadline c = c\<lparr>cl_timer := Armed\<rparr>"

definition conn_start :: "conn_life \<Rightarrow> conn_life" where
  "conn_start c = check_deadline (read_request c)"

definition conn_close :: "conn_life \<Rightarrow> conn_life" where
  "conn_close c = c\<lparr>cl_socket := Sock_Closed\<rparr>"

definition new_conn_life :: conn_life where
  "new_conn_life = \<lparr>cl_socket = Sock_Open, cl_chain = Chain_Over, cl_timer = Timer_Over, cl_upgraded = False,
     cl_on_error = 0, cl_on_close = 0\<rparr>"

text \<open>The handlers. What \<open>process_request\<close> decided is the argument of the first.\<close>

definition after_request :: "next_io \<Rightarrow> conn_life \<Rightarrow> conn_life" where
  "after_request io c = (case io of
      Run_Websocket w \<Rightarrow> (cancel_deadline c)\<lparr>cl_chain := Chain_Over, cl_socket := Sock_Moved, cl_upgraded := True\<rparr>
    | Write_Response \<Rightarrow> c\<lparr>cl_chain := Writing\<rparr>)"

definition conn_async_read :: "bool \<Rightarrow> next_io \<Rightarrow> conn_life \<Rightarrow> conn_life" where
  "conn_async_read ok io c =
     (if \<not> ok then c\<lparr>cl_chain := Chain_Over, cl_on_error := cl_on_error c + 1\<rparr> else after_request io c)"

definition conn_async_write :: "bool \<Rightarrow> conn_life \<Rightarrow> conn_life" where
  "conn_async_write ok c =
     (if \<not> ok then c\<lparr>cl_chain := Chain_Over, cl_on_error := cl_on_error c + 1\<rparr>
      else (cancel_deadline c)\<lparr>cl_chain := Chain_Over,
        cl_socket := (if cl_socket c = Sock_Open then Sock_Shut else cl_socket c), cl_on_close := cl_on_close c + 1\<rparr>)"

definition conn_async_deadline :: "bool \<Rightarrow> conn_life \<Rightarrow> conn_life" where
  "conn_async_deadline aborted c =
     (if aborted then c\<lparr>cl_timer := Timer_Over\<rparr>
      else (conn_close c)\<lparr>cl_timer := Timer_Over, cl_on_close := cl_on_close c + 1\<rparr>)"

text \<open>
  What can happen next. An operation on a socket that is not open cannot succeed.
\<close>

inductive conn_step :: "conn_life \<Rightarrow> conn_life \<Rightarrow> bool" where
  read_completes: "cl_chain c = Reading \<Longrightarrow> ok \<longrightarrow> cl_socket c = Sock_Open \<Longrightarrow> conn_step c (c\<lparr>cl_chain := Read_Done ok\<rparr>)"
| read_handler: "cl_chain c = Read_Done ok \<Longrightarrow> conn_step c (conn_async_read ok io c)"
| write_completes: "cl_chain c = Writing \<Longrightarrow> ok \<longrightarrow> cl_socket c = Sock_Open \<Longrightarrow> conn_step c (c\<lparr>cl_chain := Write_Done ok\<rparr>)"
| write_handler: "cl_chain c = Write_Done ok \<Longrightarrow> conn_step c (conn_async_write ok c)"
| expires: "cl_timer c = Armed \<Longrightarrow> conn_step c (c\<lparr>cl_timer := Expired\<rparr>)"
| deadline_handler: "cl_timer c = Expired \<Longrightarrow> conn_step c (conn_async_deadline False c)"
| aborted_handler: "cl_timer c = Aborted \<Longrightarrow> conn_step c (conn_async_deadline True c)"

lemmas conn_defs = conn_start_def read_request_def check_deadline_def new_conn_life_def conn_async_read_def after_request_def
  conn_async_write_def conn_async_deadline_def cancel_deadline_def conn_close_def

section \<open>Every connection ends\<close>

fun chain_left :: "chain \<Rightarrow> nat" where
  "chain_left Reading = 4"
| "chain_left (Read_Done _) = 3"
| "chain_left Writing = 2"
| "chain_left (Write_Done _) = 1"
| "chain_left Chain_Over = 0"

fun timer_left :: "timer \<Rightarrow> nat" where
  "timer_left Armed = 2"
| "timer_left Expired = 1"
| "timer_left Aborted = 1"
| "timer_left Timer_Over = 0"

definition steps_left :: "conn_life \<Rightarrow> nat" where
  "steps_left c = chain_left (cl_chain c) + timer_left (cl_timer c)"

lemma conn_step_progress: "conn_step c d \<Longrightarrow> steps_left d < steps_left c"
  by (induction rule: conn_step.induct) (auto simp: steps_left_def conn_defs split: next_io.split)

lemma conn_steps_bound: "(conn_step ^^ n) c d \<Longrightarrow> n + steps_left d \<le> steps_left c"
proof (induction n arbitrary: d)
  case (Suc n)
  then obtain e where "(conn_step ^^ n) c e" "conn_step e d" by auto
  with Suc.IH [of e] conn_step_progress [of e d] show ?case by linarith
qed simp

lemma conn_stuck: "(\<nexists>d. conn_step c d) \<longleftrightarrow> cl_chain c = Chain_Over \<and> cl_timer c = Timer_Over"
proof
  assume stuck: "\<nexists>d. conn_step c d"
  have "cl_chain c = Chain_Over"
    using stuck conn_step.intros(1) [of c False] conn_step.intros(2) [of c] conn_step.intros(3) [of c False]
      conn_step.intros(4) [of c] by (cases "cl_chain c") blast+
  moreover have "cl_timer c = Timer_Over"
    using stuck conn_step.intros(5-7) [of c] by (cases "cl_timer c") blast+
  ultimately show "cl_chain c = Chain_Over \<and> cl_timer c = Timer_Over" ..
qed (auto elim: conn_step.cases)

text \<open>
  What the counters say: an end of the chain is an error, a close or an upgrade; the timer that has
  run out without an abort is a close; an abort has a close or an upgrade for its reason.
\<close>

definition life_ok :: "conn_life \<Rightarrow> bool" where
  "life_ok c \<longleftrightarrow> cl_on_error c \<le> 1 \<and> cl_on_close c \<le> 2 \<and>
     (cl_chain c \<noteq> Chain_Over \<longrightarrow> cl_on_error c = 0 \<and> \<not> cl_upgraded c \<and> cl_timer c \<noteq> Aborted \<and>
        cl_on_close c = (if cl_timer c = Timer_Over then 1 else 0)) \<and>
     (cl_chain c = Chain_Over \<longrightarrow>
        cl_on_error c = 1 \<and> \<not> cl_upgraded c \<and> cl_on_close c = (if cl_timer c = Timer_Over then 1 else 0) \<and> cl_timer c \<noteq> Aborted \<or>
        cl_on_error c = 0 \<and> cl_upgraded c \<and> cl_on_close c \<le> (if cl_timer c = Timer_Over then 1 else 0) \<and> cl_timer c \<noteq> Armed \<or>
        cl_on_error c = 0 \<and> \<not> cl_upgraded c \<and> 1 \<le> cl_on_close c \<and> cl_on_close c \<le> (if cl_timer c = Timer_Over then 2 else 1) \<and> cl_timer c \<noteq> Armed)"

lemma life_ok_start: "life_ok (conn_start new_conn_life)"
  by (simp add: life_ok_def conn_defs)

lemma life_ok_step: "conn_step c d \<Longrightarrow> life_ok c \<Longrightarrow> life_ok d"
  by (induction rule: conn_step.induct) (auto simp: life_ok_def conn_defs split: next_io.splits if_splits)

interpretation conn: transition_system "\<lambda>c. c = conn_start new_conn_life" conn_step life_ok
  by unfold_locales (auto intro: life_ok_start life_ok_step)

lemma relpowp_reaches: "(conn_step ^^ n) c d \<Longrightarrow> conn_step\<^sup>*\<^sup>* c d"
  by (rule relpowp_imp_rtranclp)

text \<open>C20: every connection comes to an end: after at most six completions and handlers nothing is pending,
  and then it has become a websocket or its close callbacks have run, whatever failed and however
  completions, handlers and the deadline interleave. They never run more than twice, and an error is
  reported at most once.\<close>

theorem connection_ends:
  assumes "(conn_step ^^ n) (conn_start new_conn_life) c"
  shows "n \<le> 6 \<and> cl_on_close c \<le> 2 \<and> cl_on_error c \<le> 1 \<and>
    ((\<nexists>d. conn_step c d) \<longrightarrow> cl_upgraded c \<or> 1 \<le> cl_on_close c)"
proof -
  have "life_ok c" using conn.reachable_inv relpowp_reaches [OF assms] by blast
  moreover have "n \<le> 6" using conn_steps_bound [OF assms] by (simp add: steps_left_def conn_defs)
  ultimately show ?thesis unfolding conn_stuck by (auto simp: life_ok_def)
qed

lemma conn_steps_Suc: "conn_step c d \<Longrightarrow> (conn_step ^^ n) d e \<Longrightarrow> (conn_step ^^ Suc n) c e"
  by (rule relpowp_Suc_I2)

text \<open>A response that is written while the deadline passes.\<close>

definition late_end :: conn_life where
  "late_end = \<lparr>cl_socket = Sock_Closed, cl_chain = Chain_Over, cl_timer = Timer_Over, cl_upgraded = False,
     cl_on_error = 0, cl_on_close = 2\<rparr>"

lemma late_run: "(conn_step ^^ 6) (conn_start new_conn_life) late_end"
proof -
  let ?c = "\<lambda>ch t sk n. \<lparr>cl_socket = sk, cl_chain = ch, cl_timer = t, cl_upgraded = False, cl_on_error = 0, cl_on_close = n\<rparr>"
  have start: "conn_start new_conn_life = ?c Reading Armed Sock_Open 0" by (simp add: conn_defs)
  have 1: "conn_step (?c Reading Armed Sock_Open 0) (?c (Read_Done True) Armed Sock_Open 0)"
    using read_completes [of "?c Reading Armed Sock_Open 0" True] by simp
  have 2: "conn_step (?c (Read_Done True) Armed Sock_Open 0) (?c Writing Armed Sock_Open 0)"
    using read_handler [of "?c (Read_Done True) Armed Sock_Open 0" True Write_Response] by (simp add: conn_defs)
  have 3: "conn_step (?c Writing Armed Sock_Open 0) (?c (Write_Done True) Armed Sock_Open 0)"
    using write_completes [of "?c Writing Armed Sock_Open 0" True] by simp
  have 4: "conn_step (?c (Write_Done True) Armed Sock_Open 0) (?c (Write_Done True) Expired Sock_Open 0)"
    using expires [of "?c (Write_Done True) Armed Sock_Open 0"] by simp
  have 5: "conn_step (?c (Write_Done True) Expired Sock_Open 0) (?c Chain_Over Expired Sock_Shut 1)"
    using write_handler [of "?c (Write_Done True) Expired Sock_Open 0" True] by (simp add: conn_defs)
  have 6: "conn_step (?c Chain_Over Expired Sock_Shut 1) late_end"
    using deadline_handler [of "?c Chain_Over Expired Sock_Shut 1"] by (simp add: conn_defs late_end_def numeral_2_eq_2)
  have "(conn_step ^^ Suc (Suc (Suc (Suc (Suc (Suc 0)))))) (conn_start new_conn_life) late_end"
    unfolding start
    by (rule conn_steps_Suc [OF 1 conn_steps_Suc [OF 2 conn_steps_Suc [OF 3 conn_steps_Suc [OF 4
          conn_steps_Suc [OF 5 conn_steps_Suc [OF 6 relpowp_0_I]]]]]])
  then show ?thesis by (simp add: eval_nat_numeral)
qed

theorem connection_ends_witness:
  "cl_on_close late_end \<le> 2 \<and> cl_on_error late_end \<le> 1 \<and> (\<nexists>d. conn_step late_end d)"
  using connection_ends [OF late_run] conn_stuck [of late_end] by (simp add: late_end_def)

text \<open>The close callbacks can run twice for one connection that had no error: the response has been
  written, and the deadline passes before the handler of the write cancels it.\<close>

theorem close_runs_twice:
  "\<exists>c. (conn_step ^^ 6) (conn_start new_conn_life) c \<and> cl_on_error c = 0 \<and> cl_on_close c = 2 \<and> (\<nexists>d. conn_step c d)"
  using late_run conn_stuck [of late_end] by (intro exI [of _ late_end]) (simp add: late_end_def)

section \<open>The server\<close>

text \<open>
  The server's part of the state: how long a connection may take, the callbacks it hands to its
  connections, whether an accept is pending, its connections and its worker threads. The callbacks of
  a connection it does not act on itself (accept, request, read and error) are the same lists on both
  sides and are left out; the request callback is the argument of \<open>process_request\<close>.
\<close>

record http_server =
  hs_timeout :: nat
  hs_io_owned :: bool
  hs_on_handshake :: "ws_callback list"
  hs_on_close :: "ws_callback list"
  hs_accepting :: bool
  hs_accepted :: "http_conn list"
  hs_workers :: "nat list"
  hs_joined :: "nat list"

definition new_server :: "bool \<Rightarrow> http_server" where
  "new_server owned = \<lparr>hs_timeout = 60 * 1000, hs_io_owned = owned, hs_on_handshake = [], hs_on_close = [],
     hs_accepting = False, hs_accepted = [], hs_workers = [], hs_joined = []\<rparr>"

definition server_timeout :: "nat \<Rightarrow> http_server \<Rightarrow> http_server" where
  "server_timeout ms sv = sv\<lparr>hs_timeout := ms\<rparr>"

text \<open>\<open>worker_pool::start\<close>: threads are named by the number of their start; \<open>join\<close> waits for every one.\<close>

fun pool_start :: "nat \<Rightarrow> http_server \<Rightarrow> http_server" where
  "pool_start 0 sv = sv"
| "pool_start (Suc n) sv = pool_start n (sv\<lparr>hs_workers := hs_workers sv @ [length (hs_workers sv)]\<rparr>)"

definition pool_join :: "http_server \<Rightarrow> http_server" where
  "pool_join sv = sv\<lparr>hs_joined := hs_workers sv\<rparr>"

definition server_get_timeout :: "http_server \<Rightarrow> nat" where
  "server_get_timeout sv = hs_timeout sv"

text \<open>The destructor: whether the event loop is deleted with the server.\<close>

definition server_destroy :: "http_server \<Rightarrow> bool \<times> http_server" where
  "server_destroy sv = (let sv' = pool_join sv in (hs_io_owned sv', sv'))"

definition server_async_accept :: "http_server \<Rightarrow> http_server" where
  "server_async_accept sv = sv\<lparr>hs_accepting := True\<rparr>"

text \<open>
  The handler of an accept: the error code is not looked at, a connection is made of whatever socket
  there is, given the server's callbacks and started, and the next accept is begun.
\<close>

definition server_on_accept :: "bool \<Rightarrow> request \<Rightarrow> http_server \<Rightarrow> http_server" where
  "server_on_accept ec req sv =
     (let conn = \<lparr>hc_request = req, hc_upgrade = False, hc_websock = None, hc_has_socket = \<not> ec,
            hc_on_handshake = hs_on_handshake sv, hc_on_close = hs_on_close sv\<rparr>
      in server_async_accept (sv\<lparr>hs_accepting := False, hs_accepted := hs_accepted sv @ [conn]\<rparr>))"

text \<open>
  \<open>run\<close> up to the point where this thread and the workers run handlers. The line it logs first is left
  out; the accept is begun before the configuration is read.
\<close>

definition server_run :: "config \<Rightarrow> (http_server, unit) act" where
  "server_run conf =
     act_then (act_modify server_async_accept)
     (act_bind (act_lift (get_unsigned ''threads'' conf)) (\<lambda>threads. act_modify (pool_start threads)))"

definition accepts_all :: "(bool \<times> request) list \<Rightarrow> http_server \<Rightarrow> http_server" where
  "accepts_all = fold (\<lambda>(ec, req). server_on_accept ec req)"

lemma pool_start_workers:
  "hs_workers (pool_start n sv) = hs_workers sv @ [length (hs_workers sv)..<length (hs_workers sv) + n] \<and>
   hs_accepting (pool_start n sv) = hs_accepting sv \<and> hs_accepted (pool_start n sv) = hs_accepted sv \<and>
   hs_on_handshake (pool_start n sv) = hs_on_handshake sv \<and> hs_on_close (pool_start n sv) = hs_on_close sv"
proof (induction n arbitrary: sv)
  case (Suc n)
  have "[length ws..<length ws + Suc n] = length ws # [Suc (length ws)..<Suc (length ws) + n]" for ws :: "nat list"
    by (simp add: upt_conv_Cons)
  with Suc [of "sv\<lparr>hs_workers := hs_workers sv @ [length (hs_workers sv)]\<rparr>"] show ?case by simp
qed simp

lemma accepts_all_run:
  "hs_accepting sv \<Longrightarrow> hs_accepting (accepts_all cs sv) \<and>
     hs_accepted (accepts_all cs sv) = hs_accepted sv @ map (\<lambda>(ec, req). \<lparr>hc_request = req, hc_upgrade = False,
       hc_websock = None, hc_has_socket = \<not> ec, hc_on_handshake = hs_on_handshake sv, hc_on_close = hs_on_close sv\<rparr>) cs \<and>
     hs_on_handshake (accepts_all cs sv) = hs_on_handshake sv \<and> hs_on_close (accepts_all cs sv) = hs_on_close sv"
  unfolding accepts_all_def
proof (induction cs arbitrary: sv)
  case (Cons c cs)
  obtain ec req where c: "c = (ec, req)" by force
  have "hs_accepting (server_on_accept ec req sv)" by (simp add: server_on_accept_def Let_def server_async_accept_def)
  from Cons.IH [OF this] show ?case by (simp add: c server_on_accept_def Let_def server_async_accept_def)
qed simp



end
