(* ===== verification/Startup.thy ===== *)
theory Startup
  imports Prelude
begin

text \<open>
  \<open>app::run\<close>, \<open>app::event_loop\<close> and \<open>app::~app\<close>: the main thread starts the event thread and waits on a
  condition variable until libvirt's event loop is registered; the event thread registers it, notifies
  and loops. The two threads interleave step by step; the condition variable is the standard
  library's: a notification wakes a thread that waits and is lost otherwise, and a wait may end
  without one.
\<close>

section \<open>The two threads\<close>

text \<open>Where the main thread is: in \<open>app::run\<close>, and in \<open>~app\<close> after it returned.\<close>

datatype main_pc =
    Main_Start
  | Main_Lock
  | Main_Wait
  | Main_Woken
  | Main_Serving
  | Main_Returned
  | Main_Joining
  | Main_Gone

datatype event_pc = Ev_None | Ev_Register | Ev_Notify | Ev_Check | Ev_Loop | Ev_Done

record app_threads =
  at_main :: main_pc
  at_event :: event_pc
  at_error :: bool
  at_loop :: bool
  at_registered :: "int option"
  at_waits :: bool
  at_result_error :: bool

text \<open>\<open>at_waits\<close> is the condition variable: whether the main thread is blocked in it.\<close>

definition app_init :: app_threads where
  "app_init = \<lparr>at_main = Main_Start, at_event = Ev_None, at_error = False, at_loop = True,
     at_registered = None, at_waits = False, at_result_error = False\<rparr>"

text \<open>
  One step of \<open>run\<close>: the thread is created, the mutex locked, the wait entered, and after it the
  error flag looked at. \<open>server_.run()\<close> returns when the server is stopped.
\<close>

inductive main_step :: "app_threads \<Rightarrow> app_threads \<Rightarrow> bool" where
  spawn: "at_main a = Main_Start \<Longrightarrow> main_step a (a\<lparr>at_main := Main_Lock, at_event := Ev_Register\<rparr>)"
| lock: "at_main a = Main_Lock \<Longrightarrow> main_step a (a\<lparr>at_main := Main_Wait, at_waits := True\<rparr>)"
| wake: "at_main a = Main_Wait \<Longrightarrow> \<not> at_waits a \<Longrightarrow> main_step a (a\<lparr>at_main := Main_Woken\<rparr>)"
| error: "at_main a = Main_Woken \<Longrightarrow> at_error a \<Longrightarrow>
     main_step a (a\<lparr>at_main := Main_Returned, at_result_error := True\<rparr>)"
| serve: "at_main a = Main_Woken \<Longrightarrow> \<not> at_error a \<Longrightarrow> main_step a (a\<lparr>at_main := Main_Serving\<rparr>)"
| stopped: "at_main a = Main_Serving \<Longrightarrow> main_step a (a\<lparr>at_main := Main_Returned\<rparr>)"
| destroy: "at_main a = Main_Returned \<Longrightarrow> main_step a (a\<lparr>at_main := Main_Joining, at_loop := False\<rparr>)"
| join: "at_main a = Main_Joining \<Longrightarrow> at_event a = Ev_Done \<Longrightarrow> main_step a (a\<lparr>at_main := Main_Gone\<rparr>)"

text \<open>
  One step of \<open>event_loop\<close>. The result of registering is libvirt's; one iteration of the loop returns,
  as the registration added a timeout that ends it.
\<close>

inductive event_step :: "app_threads \<Rightarrow> app_threads \<Rightarrow> bool" where
  register: "at_event a = Ev_Register \<Longrightarrow>
     event_step a (a\<lparr>at_event := Ev_Notify, at_registered := Some rc, at_error := (at_error a \<or> rc = -1)\<rparr>)"
| notify: "at_event a = Ev_Notify \<Longrightarrow> event_step a (a\<lparr>at_event := Ev_Check, at_waits := False\<rparr>)"
| failed: "at_event a = Ev_Check \<Longrightarrow> at_error a \<Longrightarrow> event_step a (a\<lparr>at_event := Ev_Done\<rparr>)"
| loops: "at_event a = Ev_Check \<Longrightarrow> \<not> at_error a \<Longrightarrow> event_step a (a\<lparr>at_event := Ev_Loop\<rparr>)"
| iterate: "at_event a = Ev_Loop \<Longrightarrow> at_loop a \<Longrightarrow> event_step a a"
| ends: "at_event a = Ev_Loop \<Longrightarrow> \<not> at_loop a \<Longrightarrow> event_step a (a\<lparr>at_event := Ev_Done\<rparr>)"

text \<open>A wait that ends by itself, which the standard allows.\<close>

inductive spurious_step :: "app_threads \<Rightarrow> app_threads \<Rightarrow> bool" where
  spurious: "at_waits a \<Longrightarrow> spurious_step a (a\<lparr>at_waits := False\<rparr>)"

definition app_step :: "app_threads \<Rightarrow> app_threads \<Rightarrow> bool" where
  "app_step a b \<longleftrightarrow> main_step a b \<or> event_step a b"

inductive_cases main_stepE: "main_step a b"
inductive_cases event_stepE: "event_step a b"

section \<open>What a start can come to\<close>

text \<open>What holds as long as no wait ends by itself.\<close>

definition app_ok :: "app_threads \<Rightarrow> bool" where
  "app_ok a \<longleftrightarrow>
     (at_main a = Main_Start \<longleftrightarrow> at_event a = Ev_None) \<and>
     (at_waits a \<longrightarrow> at_main a = Main_Wait) \<and>
     (at_main a \<in> {Main_Woken, Main_Serving, Main_Returned, Main_Joining, Main_Gone} \<or> at_main a = Main_Wait \<and> \<not> at_waits a \<longrightarrow>
        at_event a \<in> {Ev_Check, Ev_Loop, Ev_Done}) \<and>
     (at_event a \<in> {Ev_None, Ev_Register} \<longrightarrow> at_registered a = None \<and> \<not> at_error a) \<and>
     (at_event a \<notin> {Ev_None, Ev_Register} \<longrightarrow> (\<exists>rc. at_registered a = Some rc \<and> (at_error a \<longleftrightarrow> rc = -1))) \<and>
     (at_event a = Ev_Loop \<longrightarrow> \<not> at_error a) \<and>
     (at_event a = Ev_Done \<longrightarrow> at_error a \<or> \<not> at_loop a) \<and>
     (at_main a \<in> {Main_Joining, Main_Gone} \<longleftrightarrow> \<not> at_loop a) \<and>
     (at_main a \<in> {Main_Returned, Main_Joining, Main_Gone} \<longrightarrow> (at_result_error a \<longleftrightarrow> at_error a)) \<and>
     (at_main a \<notin> {Main_Returned, Main_Joining, Main_Gone} \<longrightarrow> \<not> at_result_error a) \<and>
     (at_main a = Main_Serving \<longrightarrow> \<not> at_error a)"

lemma app_ok_init: "app_ok app_init"
  by (simp add: app_ok_def app_init_def)

lemma app_ok_main: "main_step a b \<Longrightarrow> app_ok a \<Longrightarrow> app_ok b"
  by (induction rule: main_step.induct) (auto simp: app_ok_def)

lemma app_ok_event: "event_step a b \<Longrightarrow> app_ok a \<Longrightarrow> app_ok b"
  by (induction rule: event_step.induct) (auto simp: app_ok_def)

interpretation app: transition_system "\<lambda>a. a = app_init" app_step app_ok
  by unfold_locales (auto simp: app_step_def intro: app_ok_init app_ok_main app_ok_event)


text \<open>
  Two schedules, as lists of states: the notification comes before the wait; and it comes after it.
\<close>

definition threads :: "main_pc \<Rightarrow> event_pc \<Rightarrow> int option \<Rightarrow> bool \<Rightarrow> app_threads" where
  "threads m e rc waits = \<lparr>at_main = m, at_event = e, at_error = (rc = Some (-1)), at_loop = True, at_registered = rc,
     at_waits = waits, at_result_error = False\<rparr>"

lemma at_steps:
  "app_step (threads Main_Start Ev_None None False) (threads Main_Lock Ev_Register None False)"
  "app_step (threads Main_Lock Ev_Register None False) (threads Main_Wait Ev_Register None True)"
  "app_step (threads m Ev_Register None waits) (threads m Ev_Notify (Some 0) waits)"
  "app_step (threads m Ev_Notify (Some 0) waits) (threads m Ev_Check (Some 0) False)"
  "app_step (threads m Ev_Check (Some 0) waits) (threads m Ev_Loop (Some 0) waits)"
  "app_step (threads Main_Lock e (Some 0) waits) (threads Main_Wait e (Some 0) True)"
  "app_step (threads Main_Wait e (Some 0) False) (threads Main_Woken e (Some 0) False)"
  "app_step (threads Main_Woken e (Some 0) False) (threads Main_Serving e (Some 0) False)"
  using main_step.intros event_step.intros(1) [of "threads m Ev_Register None waits" 0]
    event_step.intros(2) [of "threads m Ev_Notify (Some 0) waits"] event_step.intros(4) [of "threads m Ev_Check (Some 0) waits"]
    main_step.intros(1) [of "threads Main_Start Ev_None None False"]
    main_step.intros(2) [of "threads Main_Lock Ev_Register None False"] main_step.intros(2) [of "threads Main_Lock e (Some 0) waits"]
    main_step.intros(3) [of "threads Main_Wait e (Some 0) False"] main_step.intros(5) [of "threads Main_Woken e (Some 0) False"]
  by (auto simp: app_step_def threads_def)

lemma app_init_at: "app_init = threads Main_Start Ev_None None False"
  by (simp add: app_init_def threads_def)

lemma served: "app_step\<^sup>*\<^sup>* app_init (threads Main_Serving Ev_Check (Some 0) False)"
proof -
  note s = at_steps
  have "app_step\<^sup>*\<^sup>* app_init (threads Main_Wait Ev_Check (Some 0) False)"
    unfolding app_init_at using s(1,2) s(3) [of Main_Wait True] s(4) [of Main_Wait True]
    by (blast intro: converse_rtranclp_into_rtranclp)
  then show ?thesis using s(7,8) [of Ev_Check] by (blast intro: rtranclp.rtrancl_into_rtrancl)
qed


lemma stuck_waiting:
  assumes "app_step\<^sup>*\<^sup>* (threads Main_Wait Ev_Loop (Some 0) True) b"
  shows "b = threads Main_Wait Ev_Loop (Some 0) True"
  using assms
proof (induction rule: rtranclp_induct)
  case (step y z)
  then show ?case by (auto simp: app_step_def threads_def elim!: main_stepE event_stepE)
qed simp

text \<open>The start of the daemon can hang: when the event thread registers and notifies before the main
  thread has locked the mutex and waits, the notification is lost, and without a wakeup of its own
  accord the main thread waits for ever and no request is ever served, though nothing failed.\<close>

theorem start_can_hang:
  "\<exists>a. app_step\<^sup>*\<^sup>* app_init a \<and> at_registered a = Some 0 \<and>
     at_main ` Collect (app_step\<^sup>*\<^sup>* a) = {Main_Wait}"
proof -
  note s = at_steps
  have "app_step\<^sup>*\<^sup>* app_init (threads Main_Wait Ev_Loop (Some 0) True)"
    unfolding app_init_at using s(1) s(3-5) [of Main_Lock False] s(6) [of Ev_Loop False]
    by (blast intro: converse_rtranclp_into_rtranclp)
  moreover have "at_main b = Main_Wait" if "app_step\<^sup>*\<^sup>* (threads Main_Wait Ev_Loop (Some 0) True) b" for b
    using stuck_waiting [OF that] by (simp add: threads_def)
  then have "at_main ` Collect (app_step\<^sup>*\<^sup>* (threads Main_Wait Ev_Loop (Some 0) True)) = {Main_Wait}"
    by (auto intro!: image_eqI [of _ _ "threads Main_Wait Ev_Loop (Some 0) True"] simp: threads_def)
  ultimately show ?thesis by (intro exI [of _ "threads Main_Wait Ev_Loop (Some 0) True"]) (auto simp: threads_def)
qed

text \<open>With a wait that ends by itself, requests are served before the registration.\<close>

lemma spurious_serves_early:
  "\<exists>a. (sup app_step spurious_step)\<^sup>*\<^sup>* app_init a \<and> at_main a = Main_Serving \<and> at_registered a = None"
proof -
  let ?step = "sup app_step spurious_step"
  have "?step (threads Main_Wait Ev_Register None True) (threads Main_Wait Ev_Register None False)"
    using spurious_step.intros [of "threads Main_Wait Ev_Register None True"] by (auto simp: threads_def)
  moreover have "?step (threads Main_Wait Ev_Register None False) (threads Main_Woken Ev_Register None False)"
    using main_step.intros(3) [of "threads Main_Wait Ev_Register None False"] by (auto simp: threads_def app_step_def)
  moreover have "?step (threads Main_Woken Ev_Register None False) (threads Main_Serving Ev_Register None False)"
    using main_step.intros(5) [of "threads Main_Woken Ev_Register None False"] by (auto simp: threads_def app_step_def)
  moreover have "?step (threads Main_Start Ev_None None False) (threads Main_Lock Ev_Register None False)"
    "?step (threads Main_Lock Ev_Register None False) (threads Main_Wait Ev_Register None True)"
    using at_steps(1,2) by auto
  ultimately have "?step\<^sup>*\<^sup>* app_init (threads Main_Serving Ev_Register None False)"
    unfolding app_init_at by (blast intro: converse_rtranclp_into_rtranclp)
  then show ?thesis by (intro exI [of _ "threads Main_Serving Ev_Register None False"]) (simp add: threads_def)
qed

end
