(* ===== verification/Logging.thy ===== *)
theory Logging
  imports Prelude
begin

text \<open>
  \<open>util/logging.cpp\<close>, \<open>util/util.cpp\<close> and \<open>util/signal.cpp\<close>: what the process prints, where to, and the
  prefix of a trace line, which is cut out of the text the compiler gives a function's name.
\<close>

section \<open>The output of the process\<close>

record process =
  pr_out :: string
  pr_err :: string
  pr_time :: bool
  pr_debug :: bool
  pr_stopping :: bool

text \<open>The switches of the log when the program starts.\<close>

definition logger_initial :: "'a process_scheme \<Rightarrow> 'a process_scheme" where
  "logger_initial p = p\<lparr>pr_debug := False, pr_time := True\<rparr>"

definition newline :: string where
  "newline = [CHR 0x0A]"

definition log_line_text :: "string \<Rightarrow> bool \<Rightarrow> string \<Rightarrow> string \<Rightarrow> string" where
  "log_line_text now time prefix message =
     (if time then ''['' @ now @ ''] '' else []) @ prefix @ '' '' @ message @ newline"

definition logger_info :: "string \<Rightarrow> string \<Rightarrow> 'a process_scheme \<Rightarrow> 'a process_scheme" where
  "logger_info now message p = p\<lparr>pr_out := pr_out p @ log_line_text now (pr_time p) ''[INFO]'' message\<rparr>"

definition logger_error :: "string \<Rightarrow> string \<Rightarrow> 'a process_scheme \<Rightarrow> 'a process_scheme" where
  "logger_error now message p = p\<lparr>pr_err := pr_err p @ log_line_text now (pr_time p) ''[ERROR]'' message\<rparr>"

definition logger_debug :: "string \<Rightarrow> string \<Rightarrow> 'a process_scheme \<Rightarrow> 'a process_scheme" where
  "logger_debug now message p =
     (if pr_debug p then p\<lparr>pr_out := pr_out p @ log_line_text now (pr_time p) ''[DEBUG]'' message\<rparr> else p)"

text \<open>The lazy form: the message is only built when it is printed.\<close>

definition logger_debug_lazy :: "string \<Rightarrow> ('a process_scheme, string) act \<Rightarrow> ('a process_scheme, unit) act" where
  "logger_debug_lazy now action =
     act_bind (act_read pr_debug) (\<lambda>debug.
     if debug then act_bind action (\<lambda>message. act_modify (logger_debug now message)) else act_return ())"

definition enable_timestamp :: "bool \<Rightarrow> 'a process_scheme \<Rightarrow> 'a process_scheme" where
  "enable_timestamp enabled p = p\<lparr>pr_time := enabled\<rparr>"

definition reset_timestamp :: "'a process_scheme \<Rightarrow> 'a process_scheme" where
  "reset_timestamp = enable_timestamp True"

definition enable_debug :: "bool \<Rightarrow> 'a process_scheme \<Rightarrow> 'a process_scheme" where
  "enable_debug enabled p = p\<lparr>pr_debug := enabled\<rparr>"

definition reset_debug :: "'a process_scheme \<Rightarrow> 'a process_scheme" where
  "reset_debug = enable_debug False"

text \<open>\<open>util.cpp\<close>: each returns the code it is to be the exit code of.\<close>

definition print_out :: "string \<Rightarrow> 'a process_scheme \<Rightarrow> int \<times> 'a process_scheme" where
  "print_out message p = (0, p\<lparr>pr_out := pr_out p @ message\<rparr>)"

definition println :: "string \<Rightarrow> 'a process_scheme \<Rightarrow> int \<times> 'a process_scheme" where
  "println message = print_out (message @ newline)"

definition print_error :: "string \<Rightarrow> int \<Rightarrow> 'a process_scheme \<Rightarrow> int \<times> 'a process_scheme" where
  "print_error message return_code p = (return_code, p\<lparr>pr_err := pr_err p @ ''error: '' @ message\<rparr>)"

definition errorln :: "string \<Rightarrow> int \<Rightarrow> 'a process_scheme \<Rightarrow> int \<times> 'a process_scheme" where
  "errorln message return_code = print_error (message @ newline) return_code"

text \<open>The signal handlers.\<close>

definition signal_pipe :: "string \<Rightarrow> 'a process_scheme \<Rightarrow> 'a process_scheme" where
  "signal_pipe now = logger_debug now ''Caught SIGPIPE''"

definition signal_int :: "string \<Rightarrow> 'a process_scheme \<Rightarrow> 'a process_scheme" where
  "signal_int now p = (logger_info now ''Caught SIGINT'' p)\<lparr>pr_stopping := True\<rparr>"

section \<open>The prefix of a trace line\<close>

text \<open>
  The searches of \<open>std::string\<close>, with their positions at their width: \<open>npos\<close> is the greatest, and
  subtraction and addition wrap.
\<close>

definition npos :: "64 word" where
  "npos = -1"

definition find_char :: "char \<Rightarrow> string \<Rightarrow> 64 word" where
  "find_char c s = (if c \<in> set s then of_nat (length (takeWhile (\<lambda>x. x \<noteq> c) s)) else npos)"

definition occurs_at :: "string \<Rightarrow> string \<Rightarrow> nat \<Rightarrow> bool" where
  "occurs_at needle s i \<longleftrightarrow> take (length needle) (drop i s) = needle"

fun last_occurrence :: "string \<Rightarrow> string \<Rightarrow> nat \<Rightarrow> nat option" where
  "last_occurrence needle s 0 = (if occurs_at needle s 0 then Some 0 else None)"
| "last_occurrence needle s (Suc i) = (if occurs_at needle s (Suc i) then Some (Suc i) else last_occurrence needle s i)"

definition rfind :: "string \<Rightarrow> string \<Rightarrow> 64 word \<Rightarrow> 64 word" where
  "rfind needle s pos = (case last_occurrence needle s (min (length s) (unat pos)) of Some i \<Rightarrow> of_nat i | None \<Rightarrow> npos)"

definition substr :: "string \<Rightarrow> 64 word \<Rightarrow> 64 word \<Rightarrow> string outcome" where
  "substr s pos n = (if length s < unat pos then Throw (Out_Of_Range ''basic_string::substr'')
     else Ok (take (unat n) (drop (unat pos) s)))"

definition pretty_function_prefix :: "string \<Rightarrow> string outcome" where
  "pretty_function_prefix pretty_function =
     (let end1 = find_char CHR ''('' pretty_function;
          end2 = rfind ''::'' pretty_function end1;
          start1 = rfind ''::'' pretty_function (end2 - 1);
          start2 = rfind ''::'' pretty_function (start1 - 1) + 2
      in substr pretty_function start2 (end2 - start2))"

lemma occurs_at_colons: "occurs_at ''::'' s i \<longleftrightarrow> Suc i < length s \<and> s ! i = CHR '':'' \<and> s ! Suc i = CHR '':''"
proof
  assume o: "occurs_at ''::'' s i"
  then have "length (take (length ''::'') (drop i s)) = length ''::''" by (simp only: occurs_at_def)
  then have "Suc i < length s" by simp
  moreover have "take (length ''::'') (drop i s) ! 0 = ''::'' ! 0" "take (length ''::'') (drop i s) ! 1 = ''::'' ! 1"
    using o by (simp_all only: occurs_at_def)
  ultimately show "Suc i < length s \<and> s ! i = CHR '':'' \<and> s ! Suc i = CHR '':''" by simp
next
  assume *: "Suc i < length s \<and> s ! i = CHR '':'' \<and> s ! Suc i = CHR '':''"
  then have "drop i s = s ! i # s ! Suc i # drop (Suc (Suc i)) s"
    using Cons_nth_drop_Suc [of i s] Cons_nth_drop_Suc [of "Suc i" s] by (metis Suc_lessD)
  with * show "occurs_at ''::'' s i" by (simp add: occurs_at_def)
qed

lemma last_occurrence_Some:
  assumes "occurs_at needle s k" "k \<le> i" "\<And>j. k < j \<Longrightarrow> j \<le> i \<Longrightarrow> \<not> occurs_at needle s j"
  shows "last_occurrence needle s i = Some k"
  using assms
proof (induction i)
  case (Suc i)
  then show ?case by (cases "k = Suc i") auto
qed simp

text \<open>The last separator before a piece that has no colon.\<close>

lemma rfind_piece:
  assumes s: "s = a @ ''::'' @ m @ r" and m: "m \<noteq> []" "CHR '':'' \<notin> set m" and pos: "unat pos = length a + 1 + length m"
  shows "rfind ''::'' s pos = of_nat (length a)"
proof -
  have at: "s ! (length a + 2 + j) = m ! j" if "j < length m" for j
    using that by (simp add: s nth_append)
  have "occurs_at ''::'' s (length a)" by (simp add: s occurs_at_colons nth_append)
  moreover have "\<not> occurs_at ''::'' s i" if i: "length a < i" "i \<le> length a + 1 + length m" for i
  proof (cases "i = length a + 1")
    case True
    have "m ! 0 \<noteq> CHR '':''" "0 < length m" using m by (metis length_greater_0_conv nth_mem)+
    with True at [of 0] show ?thesis by (simp add: occurs_at_colons)
  next
    case False
    with i have "i = length a + 2 + (i - length a - 2)" "i - length a - 2 < length m" by auto
    with at [of "i - length a - 2"] have "s ! i \<in> set m" by (metis nth_mem)
    with m(2) show ?thesis by (auto simp: occurs_at_colons)
  qed
  moreover have "min (length s) (unat pos) = length a + 1 + length m" using pos by (simp add: s)
  ultimately have "last_occurrence ''::'' s (min (length s) (unat pos)) = Some (length a)"
    by (intro last_occurrence_Some) auto
  then show ?thesis by (simp add: rfind_def)
qed

lemma takeWhile_until: "c \<notin> set l \<Longrightarrow> takeWhile (\<lambda>x. x \<noteq> c) (l @ c # r) = l"
  by (induction l) auto

text \<open>For the name of a function in a class in a namespace, however long what is before and after it,
  the prefix of its trace lines is the namespace and the class.\<close>

theorem trace_prefix:
  assumes "CHR '':'' \<notin> set ns" "CHR '':'' \<notin> set cls" "CHR '':'' \<notin> set fn" "ns \<noteq> []" "cls \<noteq> []"
    and "CHR ''('' \<notin> set (pre @ ns @ cls @ fn)"
    and "length (pre @ ''::'' @ ns @ ''::'' @ cls @ ''::'' @ fn @ ''('' @ rest) < 2 ^ 63"
  shows "pretty_function_prefix (pre @ ''::'' @ ns @ ''::'' @ cls @ ''::'' @ fn @ ''('' @ rest) =
    Ok (ns @ ''::'' @ cls)"
proof -
  let ?s = "pre @ ''::'' @ ns @ ''::'' @ cls @ ''::'' @ fn @ ''('' @ rest"
  let ?a = "pre @ ''::'' @ ns @ ''::'' @ cls" and ?b = "pre @ ''::'' @ ns"
  have small: "unat (of_nat n :: 64 word) = n" if "n \<le> length ?s" for n
  proof -
    have "n < 2 ^ 64" using that assms(7) by simp
    then show ?thesis by (simp add: unat_of_nat)
  qed
  have pred: "unat ((of_nat n :: 64 word) - 1) = n - 1" if "n \<le> length ?s" "0 < n" for n
  proof -
    have "(of_nat n :: 64 word) - 1 = of_nat (n - 1)" using that(2) by (cases n) simp_all
    moreover have "n - 1 \<le> length ?s" using that(1) by (rule diff_le_self [THEN le_trans])
    ultimately show ?thesis using small by (simp only:)
  qed
  have "takeWhile (\<lambda>x. x \<noteq> CHR ''('') ?s = ?a @ ''::'' @ fn"
    using takeWhile_until [of "CHR ''(''" "?a @ ''::'' @ fn" rest] assms(6) by simp
  then have end1: "find_char CHR ''('' ?s = of_nat (length (?a @ ''::'' @ fn))" by (simp add: find_char_def)
  have end2: "rfind ''::'' ?s (find_char CHR ''('' ?s) = of_nat (length ?a)"
    unfolding end1
    by (rule rfind_piece [of _ _ "fn @ ''(''" rest])
      (use assms(3) small [of "length (?a @ ''::'' @ fn)"] in simp_all)
  have start1: "rfind ''::'' ?s (of_nat (length ?a) - 1) = of_nat (length ?b)"
    by (rule rfind_piece [of _ _ cls "''::'' @ fn @ ''('' @ rest"]) 
      (use assms(2,5) pred [of "length ?a"] in simp_all)
  have start2: "rfind ''::'' ?s (of_nat (length ?b) - 1) = of_nat (length pre)"
    by (rule rfind_piece [of _ _ ns "''::'' @ cls @ ''::'' @ fn @ ''('' @ rest"]) 
      (use assms(1,4) pred [of "length ?b"] in simp_all)
  have "pretty_function_prefix ?s = substr ?s (of_nat (length pre + 2)) (of_nat (length ?a) - of_nat (length pre + 2))"
    by (simp only: pretty_function_prefix_def Let_def end2 start1 start2 of_nat_add of_nat_numeral)
  also have "(of_nat (length ?a) :: 64 word) - of_nat (length pre + 2) = of_nat (length (ns @ ''::'' @ cls))"
    by simp
  finally have "pretty_function_prefix ?s = substr ?s (of_nat (length pre + 2)) (of_nat (length (ns @ ''::'' @ cls)))" .
  then show ?thesis
    using small [of "length pre + 2"] small [of "length (ns @ ''::'' @ cls)"]
    by (simp add: substr_def del: of_nat_add of_nat_Suc)
qed

theorem trace_prefix_witness:
  "pretty_function_prefix ''void webvirt::http::connection::start()'' = Ok ''http::connection''"
  using trace_prefix [of "''http''" "''connection''" "''start''" "''void webvirt''" "'')''"] by simp

end
