(* ===== verification/Main_Program.thy ===== *)
theory Main_Program
  imports Settings Logging
begin

text \<open>
  \<open>main.cpp\<close> and \<open>singleton.hpp\<close>: what the program does from its arguments to its exit code, and how the
  socket is prepared before requests are served on it. The system calls of \<open>syscall.cpp\<close> and of
  \<open>std::filesystem\<close> are functions on the world, a parameter.
\<close>

section \<open>Singletons\<close>

text \<open>The reference is the instance of its own, or the object it was changed to.\<close>

record 'd singleton =
  sg_instance :: 'd
  sg_other :: "'d option"

definition singleton_ref :: "'d singleton \<Rightarrow> 'd" where
  "singleton_ref sg = (case sg_other sg of None \<Rightarrow> sg_instance sg | Some d \<Rightarrow> d)"

definition singleton_change :: "'d \<Rightarrow> 'd singleton \<Rightarrow> 'd singleton" where
  "singleton_change d sg = sg\<lparr>sg_other := Some d\<rparr>"

definition singleton_reset :: "'d singleton \<Rightarrow> 'd singleton" where
  "singleton_reset sg = sg\<lparr>sg_other := None\<rparr>"

lemma singleton_laws:
  "singleton_ref (singleton_change d sg) = d" "singleton_ref (singleton_reset sg) = sg_instance sg"
  "singleton_reset (singleton_change d sg) = singleton_reset sg"
  by (simp_all add: singleton_ref_def singleton_change_def singleton_reset_def)

section \<open>The system\<close>

record group =
  gr_name :: string
  gr_gid :: nat

text \<open>
  \<open>px_read_file\<close> tells whether a file exists, with its contents; \<open>px_bind\<close> is the construction of the
  acceptor, which creates the socket file; \<open>px_run\<close> is \<open>app::run\<close>, of which \<open>Startup\<close> and
  \<open>Http_Server\<close> hold the parts; \<open>px_show\<close> writes a number in decimal.
\<close>

record 'w posix =
  px_getenv :: "string \<Rightarrow> 'w \<Rightarrow> string option \<times> 'w"
  px_getuid :: "'w \<Rightarrow> nat \<times> 'w"
  px_getgid :: "'w \<Rightarrow> nat \<times> 'w"
  px_getgrgid :: "nat \<Rightarrow> 'w \<Rightarrow> group option \<times> 'w"
  px_getgrnam :: "string \<Rightarrow> 'w \<Rightarrow> group option \<times> 'w"
  px_chown :: "string \<Rightarrow> nat \<Rightarrow> nat \<Rightarrow> 'w \<Rightarrow> int \<times> 'w"
  px_errno :: "'w \<Rightarrow> int"
  px_fs_remove :: "string \<Rightarrow> ('w, bool) act"
  px_permissions :: "string \<Rightarrow> nat \<Rightarrow> ('w, unit) act"
  px_bind :: "string \<Rightarrow> ('w, unit) act"
  px_run :: "('w, unit) act"
  px_read_file :: "string \<Rightarrow> 'w \<Rightarrow> string option \<times> 'w"
  px_concurrency :: nat
  px_version :: string
  px_show :: "int \<Rightarrow> string"

text \<open>What has been done to the socket, in order, is recorded.\<close>

datatype socket_event =
    Socket_Removed string
  | Socket_Bound string
  | Socket_Mode string nat
  | Socket_Owner string nat nat
  | Serving string

record 'w program = process +
  pg_world :: 'w
  pg_config :: "config singleton"
  pg_socket :: "socket_event list"

definition on_pg_world :: "('w, 'a) act \<Rightarrow> ('w program, 'a) act" where
  "on_pg_world m = (\<lambda>p. let (r, w) = m (pg_world p) in (r, p\<lparr>pg_world := w\<rparr>))"

definition sys_call :: "('w \<Rightarrow> 'a \<times> 'w) \<Rightarrow> ('w program, 'a) act" where
  "sys_call f = on_pg_world (\<lambda>w. let (a, w') = f w in (Ok a, w'))"

definition socket_done :: "socket_event \<Rightarrow> ('w program, unit) act" where
  "socket_done ev = act_modify (\<lambda>p. p\<lparr>pg_socket := pg_socket p @ [ev]\<rparr>)"

definition printing :: "('w program \<Rightarrow> 'a \<times> 'w program) \<Rightarrow> ('w program, 'a) act" where
  "printing f = (\<lambda>p. let (a, p') = f p in (Ok a, p'))"

section \<open>The socket\<close>

text \<open>All rights for the owner and for the group: 0770.\<close>

definition owner_and_group_all :: nat where
  "owner_and_group_all = 7 * 64 + 7 * 8"

definition chown_socket :: "'w posix \<Rightarrow> string \<Rightarrow> string \<Rightarrow> group option \<Rightarrow> ('w program, int) act" where
  "chown_socket px socket_path group_str found = (case found of
      None \<Rightarrow> printing (errorln (''group '' @ [CHR 0x27] @ group_str @ [CHR 0x27] @ '' not found'') 2)
    | Some g \<Rightarrow>
        act_bind (sys_call (px_getuid px)) (\<lambda>uid.
        act_bind (sys_call (px_chown px socket_path uid (gr_gid g))) (\<lambda>rc.
        if rc = -1
        then act_bind (act_read (\<lambda>p. px_errno px (pg_world p))) (\<lambda>errno.
          printing (errorln (''chown failed ('' @ px_show px errno @ '')'') 3))
        else act_then (socket_done (Socket_Owner socket_path uid (gr_gid g))) (act_return 0))))"

definition setup_socket :: "'w posix \<Rightarrow> string \<Rightarrow> ('w program, int) act" where
  "setup_socket px socket_path =
     act_then (on_pg_world (px_permissions px socket_path owner_and_group_all))
     (act_then (socket_done (Socket_Mode socket_path owner_and_group_all))
     (act_bind (act_bind (act_read (\<lambda>p. get_string ''socket-group'' (singleton_ref (pg_config p)))) act_lift) (\<lambda>group_str.
      act_bind (sys_call (px_getgrnam px group_str)) (\<lambda>found. chown_socket px socket_path group_str found))))"

definition webvirt_main :: "'w posix \<Rightarrow> string \<Rightarrow> ('w program, int) act" where
  "webvirt_main px socket_path =
     act_bind (on_pg_world (px_fs_remove px socket_path)) (\<lambda>_.
     act_then (socket_done (Socket_Removed socket_path))
     (act_then (on_pg_world (px_bind px socket_path))
     (act_then (socket_done (Socket_Bound socket_path))
     (act_bind (setup_socket px socket_path) (\<lambda>rc.
      if rc \<noteq> 0 then act_return rc
      else act_then (socket_done (Serving socket_path)) (act_then (on_pg_world (px_run px)) (act_return 0)))))))"

section \<open>The program\<close>

definition main_options :: "nat \<Rightarrow> config \<Rightarrow> config" where
  "main_options concurrency cf =
     add_option_value ''threads,t'' (Any_Unsigned concurrency) ''number of worker threads''
     (add_option_value ''socket,s'' (Any_String ''/var/run/webvirtd/webvirtd.sock'') ''unix socket path''
     (add_option ''disable-timestamp'' ''disable logging timestamps''
     (add_option ''verbose,v'' ''enable debug logging''
     (add_option ''version'' ''display version'' cf))))"

definition group_options :: "string \<Rightarrow> config \<Rightarrow> config" where
  "group_options group_name cf =
     add_option_value ''libvirt-shutoff-timeout'' (Any_Double 15) ''timeout in seconds for domain shutoff state to react''
     (add_option_value ''libvirt-shutdown-timeout'' (Any_Double 3) ''timeout in seconds for domain shutdown state to react''
     (add_option_value ''socket-group'' (Any_String group_name) ''socket group'' cf))"

text \<open>From the configuration file on.\<close>

definition main_serve :: "'w posix \<Rightarrow> program_options \<Rightarrow> string list \<Rightarrow> config \<Rightarrow> ('w program, int) act" where
  "main_serve px po args conf =
     act_bind (act_lift (get_string ''config'' conf)) (\<lambda>config_path.
     act_bind (sys_call (px_read_file px config_path)) (\<lambda>contents.
     act_bind (act_lift (parse_file po contents conf)) (\<lambda>conf.
     act_bind (act_lift (parse_arguments po args conf)) (\<lambda>conf.
     act_bind (act_lift (get_string ''socket'' conf)) (\<lambda>socket_path.
     act_then (act_modify (\<lambda>p. p\<lparr>pg_config := singleton_change conf (pg_config p)\<rparr>))
     (webvirt_main px socket_path))))))"

definition main_parsed :: "'w posix \<Rightarrow> program_options \<Rightarrow> string list \<Rightarrow> config \<Rightarrow> ('w program, int) act" where
  "main_parsed px po args conf =
     (if config_has ''version'' conf then printing (println (px_version px))
      else act_then (act_modify (enable_timestamp (\<not> config_has ''disable-timestamp'' conf)))
        (act_then (act_modify (enable_debug (config_has ''verbose'' conf)))
        (if config_has ''help'' conf then printing (print_out (usage po conf))
         else main_serve px po args conf)))"

text \<open>Only an unknown option is caught; any other error of the command line leaves \<open>main\<close>.\<close>

definition main_start :: "'w posix \<Rightarrow> program_options \<Rightarrow> string list \<Rightarrow> config \<Rightarrow> ('w program, int) act" where
  "main_start px po args conf = (case parse_arguments po args conf of
      Ok conf \<Rightarrow> main_parsed px po args conf
    | Throw e \<Rightarrow> (if is_unknown_option e then printing (errorln (what e) 1) else act_throw e)
    | Undef \<Rightarrow> act_undef
    | Hang \<Rightarrow> act_lift Hang)"

text \<open>The group of the process has to have a name: the pointer is followed as it is.\<close>

definition main :: "'w posix \<Rightarrow> program_options \<Rightarrow> string list \<Rightarrow> ('w program, int) act" where
  "main px po args =
     act_bind (sys_call (px_getenv px ''HOME'')) (\<lambda>home.
     act_bind (act_lift (config_init home)) (\<lambda>conf.
     act_bind (sys_call (px_getgid px)) (\<lambda>gid.
     act_bind (sys_call (px_getgrgid px gid)) (\<lambda>found. case found of
       None \<Rightarrow> act_undef
     | Some default_group \<Rightarrow>
         let conf = group_options (gr_name default_group) (main_options (px_concurrency px) conf) in
         main_start px po args conf))))"

section \<open>What the exit code says\<close>

lemma on_pg_world_Ok: "on_pg_world m p = (Ok a, q) \<longleftrightarrow> (\<exists>w. m (pg_world p) = (Ok a, w) \<and> q = p\<lparr>pg_world := w\<rparr>)"
  by (auto simp: on_pg_world_def Let_def split: prod.split)

lemma sys_call_Ok: "sys_call f p = (Ok a, q) \<longleftrightarrow> (\<exists>w. f (pg_world p) = (a, w) \<and> q = p\<lparr>pg_world := w\<rparr>)"
  by (auto simp: sys_call_def on_pg_world_Ok split: prod.split)

lemma act_bind_Ok_iff: "act_bind m f s = (Ok b, s'') \<longleftrightarrow> (\<exists>a s'. m s = (Ok a, s') \<and> f a s' = (Ok b, s''))"
  by (auto simp: act_bind_def split: prod.split outcome.split)

lemma act_then_Ok_iff: "act_then m n s = (Ok b, s'') \<longleftrightarrow> (\<exists>a s'. m s = (Ok a, s') \<and> n s' = (Ok b, s''))"
  by (simp add: act_then_def act_bind_Ok_iff)

lemma socket_done_Ok: "socket_done ev p = (Ok u, q) \<longleftrightarrow> q = p\<lparr>pg_socket := pg_socket p @ [ev]\<rparr>"
  by (auto simp: socket_done_def act_modify_def)

lemma errorln_Ok: "printing (errorln m rc) p = (Ok a, q) \<longleftrightarrow>
    a = rc \<and> q = p\<lparr>pr_err := pr_err p @ ''error: '' @ m @ newline\<rparr>"
  by (auto simp: printing_def errorln_def print_error_def)

lemmas program_Ok = on_pg_world_Ok sys_call_Ok act_bind_Ok_iff act_then_Ok_iff socket_done_Ok errorln_Ok

definition group_known :: "'w posix \<Rightarrow> string \<Rightarrow> nat \<Rightarrow> bool" where
  "group_known px name gid \<longleftrightarrow> (\<exists>g w w'. px_getgrnam px name w = (Some g, w') \<and> gr_gid g = gid)"

lemma setup_socket_Ok:
  assumes "setup_socket px s p = (Ok rc, q)"
  shows "pg_config q = pg_config p \<and>
    ((rc = 2 \<or> rc = 3) \<and> pg_socket q = pg_socket p @ [Socket_Mode s owner_and_group_all] \<and> pr_err q \<noteq> pr_err p \<or>
     rc = 0 \<and> (\<exists>name uid gid. get_string ''socket-group'' (singleton_ref (pg_config p)) = Ok name \<and>
       group_known px name gid \<and>
       pg_socket q = pg_socket p @ [Socket_Mode s owner_and_group_all, Socket_Owner s uid gid]))"
proof -
  let ?p2 = "\<lambda>w2. p\<lparr>pg_socket := pg_socket p @ [Socket_Mode s owner_and_group_all], pg_world := w2\<rparr>"
  from assms obtain w1 name w2 found where 1:
    "get_string ''socket-group'' (singleton_ref (pg_config p)) = Ok name" "px_getgrnam px name w1 = (found, w2)"
    and cont: "chown_socket px s name found (?p2 w2) = (Ok rc, q)"
    by (auto simp: setup_socket_def program_Ok act_read_run act_lift_run)
  show ?thesis
  proof (cases found)
    case None
    with cont show ?thesis by (auto simp: chown_socket_def program_Ok newline_def)
  next
    case (Some g)
    with 1(2) have "group_known px name (gr_gid g)" by (auto simp: group_known_def)
    with Some cont 1(1) show ?thesis
      by (auto simp: chown_socket_def program_Ok act_read_run act_return_run newline_def split: if_splits)
  qed
qed

lemma webvirt_main_Ok:
  assumes "webvirt_main px s p = (Ok rc, q)"
  shows "(rc = 2 \<or> rc = 3) \<and> pg_socket q = pg_socket p @
      [Socket_Removed s, Socket_Bound s, Socket_Mode s owner_and_group_all] \<or>
    rc = 0 \<and> (\<exists>name uid gid. get_string ''socket-group'' (singleton_ref (pg_config p)) = Ok name \<and>
      group_known px name gid \<and> pg_socket q = pg_socket p @
      [Socket_Removed s, Socket_Bound s, Socket_Mode s owner_and_group_all, Socket_Owner s uid gid, Serving s])"
proof -
  let ?p1 = "\<lambda>w. p\<lparr>pg_world := w, pg_socket := pg_socket p @ [Socket_Removed s, Socket_Bound s]\<rparr>"
  from assms obtain w rc1 q1 where sock: "setup_socket px s (?p1 w) = (Ok rc1, q1)"
    and cont: "(if rc1 \<noteq> 0 then act_return rc1
        else act_then (socket_done (Serving s)) (act_then (on_pg_world (px_run px)) (act_return 0))) q1 = (Ok rc, q)"
    by (auto simp: webvirt_main_def program_Ok)
  from setup_socket_Ok [OF sock] cont show ?thesis
    by (auto simp: program_Ok act_return_run split: if_splits)
qed

lemma printing_Ok: "printing f p = (Ok a, q) \<longleftrightarrow> f p = (a, q)"
  by (auto simp: printing_def split: prod.split)

definition socket_story :: "'w posix \<Rightarrow> int \<Rightarrow> socket_event list \<Rightarrow> config \<Rightarrow> bool" where
  "socket_story px rc evs cf \<longleftrightarrow>
     (rc = 0 \<or> rc = 1) \<and> evs = [] \<or>
     (\<exists>s. get_string ''socket'' cf = Ok s \<and>
       ((rc = 2 \<or> rc = 3) \<and> evs = [Socket_Removed s, Socket_Bound s, Socket_Mode s owner_and_group_all] \<or>
        rc = 0 \<and> (\<exists>name uid gid. get_string ''socket-group'' cf = Ok name \<and> group_known px name gid \<and>
          evs = [Socket_Removed s, Socket_Bound s, Socket_Mode s owner_and_group_all, Socket_Owner s uid gid, Serving s])))"

lemma setup_config: "setup_socket px s p = (Ok rc, q) \<Longrightarrow> pg_config q = pg_config p"
  by (drule setup_socket_Ok) simp

lemma webvirt_main_config:
  assumes "webvirt_main px s p = (Ok rc, q)"
  shows "pg_config q = pg_config p"
proof -
  let ?p1 = "\<lambda>w. p\<lparr>pg_world := w, pg_socket := pg_socket p @ [Socket_Removed s, Socket_Bound s]\<rparr>"
  from assms obtain w rc1 q1 where sock: "setup_socket px s (?p1 w) = (Ok rc1, q1)"
    and cont: "(if rc1 \<noteq> 0 then act_return rc1
        else act_then (socket_done (Serving s)) (act_then (on_pg_world (px_run px)) (act_return 0))) q1 = (Ok rc, q)"
    by (auto simp: webvirt_main_def program_Ok)
  from setup_config [OF sock] cont show ?thesis
    by (auto simp: program_Ok act_return_run split: if_splits)
qed

lemma main_serve_Ok:
  assumes "main_serve px po args cf p = (Ok rc, q)" "pg_socket p = []"
  shows "socket_story px rc (pg_socket q) (singleton_ref (pg_config q))"
proof -
  obtain w cf' s where s: "get_string ''socket'' cf' = Ok s"
    and run: "webvirt_main px s (p\<lparr>pg_world := w, pg_config := singleton_change cf' (pg_config p)\<rparr>) = (Ok rc, q)"
    using assms(1) by (auto simp: main_serve_def program_Ok act_lift_run act_modify_run)
  from webvirt_main_config [OF run] have cf: "singleton_ref (pg_config q) = cf'" by (simp add: singleton_laws)
  show ?thesis
    using webvirt_main_Ok [OF run] s assms(2) unfolding socket_story_def cf by (auto simp: singleton_laws)
qed


text \<open>A system for the witness.\<close>

definition lab_posix :: "nat posix" where
  "lab_posix = \<lparr>
     px_getenv = (\<lambda>n w. (Some ''/root'', w)), px_getuid = (\<lambda>w. (0, w)), px_getgid = (\<lambda>w. (100, w)),
     px_getgrgid = (\<lambda>i w. (Some \<lparr>gr_name = ''users'', gr_gid = i\<rparr>, w)),
     px_getgrnam = (\<lambda>n w. (Some \<lparr>gr_name = n, gr_gid = 100\<rparr>, w)),
     px_chown = (\<lambda>s u g w. (0, w)), px_errno = (\<lambda>w. 0), px_fs_remove = (\<lambda>s. act_return False),
     px_permissions = (\<lambda>s m. act_return ()), px_bind = (\<lambda>s. act_return ()), px_run = act_return (), px_read_file = (\<lambda>s w. (None, w)),
     px_concurrency = 4, px_version = ''0.1'', px_show = (\<lambda>n. [])\<rparr>"

definition fresh_program :: "'w \<Rightarrow> 'w program" where
  "fresh_program w = \<lparr>pr_out = [], pr_err = [], pr_time = True, pr_debug = False, pr_stopping = False, pg_world = w,
     pg_config = \<lparr>sg_instance = \<lparr>cf_cmdline_desc = [], cf_desc = [], cf_vm = []\<rparr>, sg_other = None\<rparr>, pg_socket = []\<rparr>"

text \<open>A parser that has already read its answers: the values it stores are fixed.\<close>

definition settled_options :: program_options where
  "settled_options = \<lparr>
     po_command_line = (\<lambda>ds args. Ok \<lparr>pa_desc = ds, pa_values = []\<rparr>),
     po_config_file = (\<lambda>ds t. Ok \<lparr>pa_desc = ds, pa_values = []\<rparr>),
     po_store = (\<lambda>ps m. Ok [(''config'', \<lparr>vr_value = Any_String ''/c'', vr_defaulted = True\<rparr>),
       (''socket'', \<lparr>vr_value = Any_String ''/s'', vr_defaulted = True\<rparr>),
       (''socket-group'', \<lparr>vr_value = Any_String ''users'', vr_defaulted = True\<rparr>)]),
     po_print = (\<lambda>ds. [])\<rparr>"

lemma settled_parse: "parse_arguments settled_options args cf = Ok (cf\<lparr>cf_vm :=
      [(''config'', \<lparr>vr_value = Any_String ''/c'', vr_defaulted = True\<rparr>),
       (''socket'', \<lparr>vr_value = Any_String ''/s'', vr_defaulted = True\<rparr>),
       (''socket-group'', \<lparr>vr_value = Any_String ''users'', vr_defaulted = True\<rparr>)]\<rparr>)"
  by (simp add: parse_arguments_def settled_options_def)

lemmas lab_values = config_has_def get_string_def config_value_def sm_at_def

lemma lab_main: "case main lab_posix settled_options [] (fresh_program 0) of
    (Ok rc, q) \<Rightarrow> rc = 0 \<and> length (pg_socket q) = 5 | _ \<Rightarrow> False"
proof -
  have "main lab_posix settled_options [] (fresh_program 0) =
      main_parsed lab_posix settled_options [] \<lparr>
        cf_cmdline_desc = (case config_init (Some ''/root'') of Ok cf \<Rightarrow> cf_cmdline_desc cf),
        cf_desc = cf_desc (group_options ''users'' (main_options 4 \<lparr>cf_cmdline_desc = [], cf_desc = [], cf_vm = []\<rparr>)),
        cf_vm = [(''config'', \<lparr>vr_value = Any_String ''/c'', vr_defaulted = True\<rparr>),
       (''socket'', \<lparr>vr_value = Any_String ''/s'', vr_defaulted = True\<rparr>),
       (''socket-group'', \<lparr>vr_value = Any_String ''users'', vr_defaulted = True\<rparr>)]\<rparr> (fresh_program 0)"
    by (simp add: main_def main_start_def settled_parse lab_posix_def sys_call_def on_pg_world_def act_bind_def act_lift_def
        config_init_def group_options_def main_options_def add_option_def add_option_value_def Let_def fresh_program_def)
  then show ?thesis
    by (simp add: main_parsed_def main_serve_def settled_parse parse_file_def lab_posix_def sys_call_def on_pg_world_def
        act_bind_def act_then_def act_lift_def act_modify_def act_read_def act_return_def lab_values
        webvirt_main_def setup_socket_def chown_socket_def socket_done_def fresh_program_def singleton_ref_def
        singleton_change_def enable_timestamp_def enable_debug_def)
qed


end
