(* ===== verification/Clients.thy ===== *)
theory Clients
  imports Http Retry
begin

text \<open>
  \<open>http/client.cpp\<close> and \<open>ws/client.cpp\<close>: the two clients of the server. What the network answers is a
  parameter of a run; the callbacks are \<open>handler\<close>s on the client's own state, which a record extension
  gives room for whatever they keep.
\<close>

section \<open>The HTTP client\<close>

datatype client_field = Host | User_Agent | Accept

record client_request =
  cr_method :: verb
  cr_target :: string
  cr_version :: int
  cr_fields :: "client_field \<rightharpoonup> string"
  cr_length :: "nat option"
  cr_body :: string

text \<open>The operation that has been started on the socket and whose handler is still to run.\<close>

datatype client_io = Connecting | Sending client_request | Receiving | No_Io

datatype client_socket = Client_Closed | Client_Connected | Client_Shut

record http_client =
  ht_host :: string
  ht_version :: int
  ht_request :: client_request
  ht_response :: response
  ht_socket :: client_socket
  ht_pending :: client_io

record 'c client_handlers =
  on_connect :: "(unit, 'c) handler"
  on_response :: "(response, 'c) handler"
  on_error :: "(string \<times> string, 'c) handler"
  on_close :: "(unit, 'c) handler"

definition client_host :: "string \<Rightarrow> 'x http_client_scheme \<Rightarrow> 'x http_client_scheme" where
  "client_host v c = c\<lparr>ht_host := v\<rparr>"

definition client_version :: "int \<Rightarrow> 'x http_client_scheme \<Rightarrow> 'x http_client_scheme" where
  "client_version v c = c\<lparr>ht_version := v\<rparr>"

definition http_client_new :: "string \<Rightarrow> int \<Rightarrow> http_client" where
  "http_client_new host version = client_version version (client_host host
     \<lparr>ht_host = [], ht_version = 0,
      ht_request = \<lparr>cr_method = Other_Verb [], cr_target = [], cr_version = 11, cr_fields = Map.empty,
        cr_length = None, cr_body = []\<rparr>,
      ht_response = new_response, ht_socket = Client_Closed, ht_pending = No_Io\<rparr>)"

text \<open>\<open>agent\<close> is the version string of the HTTP library.\<close>

definition init_request :: "string \<Rightarrow> string \<Rightarrow> 'x http_client_scheme \<Rightarrow> 'x http_client_scheme" where
  "init_request agent target c = c\<lparr>ht_request := (ht_request c)\<lparr>cr_version := ht_version c, cr_target := target,
     cr_fields := (cr_fields (ht_request c))(Host \<mapsto> ht_host c, User_Agent \<mapsto> agent, Accept \<mapsto> ''*/*'')\<rparr>\<rparr>"

definition async_connect :: "'x http_client_scheme \<Rightarrow> 'x http_client_scheme" where
  "async_connect c = c\<lparr>ht_pending := Connecting\<rparr>"

definition set_method :: "verb \<Rightarrow> 'x http_client_scheme \<Rightarrow> 'x http_client_scheme" where
  "set_method v c = c\<lparr>ht_request := (ht_request c)\<lparr>cr_method := v\<rparr>\<rparr>"

definition async_options :: "string \<Rightarrow> string \<Rightarrow> 'x http_client_scheme \<Rightarrow> 'x http_client_scheme" where
  "async_options agent target c = async_connect (set_method Options (init_request agent target c))"

definition async_get :: "string \<Rightarrow> string \<Rightarrow> 'x http_client_scheme \<Rightarrow> 'x http_client_scheme" where
  "async_get agent target c = async_connect (set_method Get (init_request agent target c))"

text \<open>The data is appended to the body the request already has.\<close>

definition append_data :: "string \<Rightarrow> client_request \<Rightarrow> client_request" where
  "append_data data r = (let b = cr_body r @ data in r\<lparr>cr_body := b, cr_length := Some (length b)\<rparr>)"

definition async_post :: "string \<Rightarrow> string \<Rightarrow> string \<Rightarrow> 'x http_client_scheme \<Rightarrow> 'x http_client_scheme" where
  "async_post agent target data c =
     (let c' = set_method Post (init_request agent target c)
      in async_connect (c'\<lparr>ht_request := append_data data (ht_request c')\<rparr>))"

definition client_close :: "'x http_client_scheme \<Rightarrow> 'x http_client_scheme" where
  "client_close c = c\<lparr>ht_socket := Client_Closed\<rparr>"

text \<open>The handlers. An error code is its message; the first argument of \<open>on_error\<close> is the function's name.\<close>

definition client_on_connect :: "'x http_client_scheme client_handlers \<Rightarrow> string option \<Rightarrow> ('x http_client_scheme, unit) act" where
  "client_on_connect h ec = (case ec of
      Some m \<Rightarrow> handler_call (on_error h) (''client_on_connect'', m)
    | None \<Rightarrow> act_then (handler_call (on_connect h) ())
        (act_modify (\<lambda>c. c\<lparr>ht_pending := Sending (ht_request c)\<rparr>)))"

definition client_on_write :: "'x http_client_scheme client_handlers \<Rightarrow> string option \<Rightarrow> ('x http_client_scheme, unit) act" where
  "client_on_write h ec = (case ec of
      Some m \<Rightarrow> handler_call (on_error h) (''client_on_write'', m)
    | None \<Rightarrow> act_modify (\<lambda>c. c\<lparr>ht_pending := Receiving\<rparr>))"

definition client_on_read :: "'x http_client_scheme client_handlers \<Rightarrow> string option \<Rightarrow> ('x http_client_scheme, unit) act" where
  "client_on_read h ec = (case ec of
      Some m \<Rightarrow> handler_call (on_error h) (''client_on_read'', m)
    | None \<Rightarrow> act_bind (act_read ht_response) (\<lambda>r. act_then (handler_call (on_response h) r)
        (act_then (act_modify (\<lambda>c. c\<lparr>ht_socket := Client_Shut\<rparr>)) (handler_call (on_close h) ()))))"

text \<open>
  One handler of the event loop: the pending operation completes as the network says, what it leaves
  behind is stored, and its handler runs. \<open>run\<close> runs handlers until no operation is pending, and
  closes the socket; its bound is fuel, since a callback may start another request.
\<close>

record network =
  nt_connect :: "string option"
  nt_write :: "client_request \<Rightarrow> string option"
  nt_read :: "string + response"

definition client_complete :: "'x http_client_scheme client_handlers \<Rightarrow> network \<Rightarrow> ('x http_client_scheme, unit) act" where
  "client_complete h nt = act_bind (act_read ht_pending) (\<lambda>io.
     act_then (act_modify (\<lambda>c. c\<lparr>ht_pending := No_Io\<rparr>)) (case io of
       Connecting \<Rightarrow> act_then (act_modify (\<lambda>c. if nt_connect nt = None then c\<lparr>ht_socket := Client_Connected\<rparr> else c))
         (client_on_connect h (nt_connect nt))
     | Sending r \<Rightarrow> client_on_write h (nt_write nt r)
     | Receiving \<Rightarrow> (case nt_read nt of
           Inl m \<Rightarrow> client_on_read h (Some m)
         | Inr r \<Rightarrow> act_then (act_modify (\<lambda>c. c\<lparr>ht_response := r\<rparr>)) (client_on_read h None))
     | No_Io \<Rightarrow> act_return ()))"

fun client_loop :: "'x http_client_scheme client_handlers \<Rightarrow> network \<Rightarrow> nat \<Rightarrow> ('x http_client_scheme, nat) act" where
  "client_loop h nt 0 = act_lift Hang"
| "client_loop h nt (Suc k) = act_bind (act_read ht_pending) (\<lambda>io.
     if io = No_Io then act_return 0
     else act_then (client_complete h nt) (act_bind (client_loop h nt k) (\<lambda>count. act_return (Suc count))))"

definition client_run :: "'x http_client_scheme client_handlers \<Rightarrow> network \<Rightarrow> nat \<Rightarrow> ('x http_client_scheme, nat) act" where
  "client_run h nt k = act_bind (client_loop h nt k) (\<lambda>count. act_then (act_modify client_close) (act_return count))"

section \<open>What a request ends with\<close>

text \<open>Callbacks that only keep what they are told.\<close>

definition observing where
  "observing h fc fr fe fx \<longleftrightarrow>
     (\<forall>c. handler_call (on_connect h) () c = (Ok (), http_client.more_update fc c)) \<and>
     (\<forall>r c. handler_call (on_response h) r c = (Ok (), http_client.more_update (fr r) c)) \<and>
     (\<forall>e c. handler_call (on_error h) e c = (Ok (), http_client.more_update (fe e) c)) \<and>
     (\<forall>c. handler_call (on_close h) () c = (Ok (), http_client.more_update fx c))"

definition network_story :: "network \<Rightarrow> client_request \<Rightarrow> (string \<times> string) + response" where
  "network_story nt r = (case nt_connect nt of
      Some m \<Rightarrow> Inl (''client_on_connect'', m)
    | None \<Rightarrow> (case nt_write nt r of
        Some m \<Rightarrow> Inl (''client_on_write'', m)
      | None \<Rightarrow> (case nt_read nt of Inl m \<Rightarrow> Inl (''client_on_read'', m) | Inr x \<Rightarrow> Inr x)))"

definition told :: "client_request \<Rightarrow> network \<Rightarrow> ('x \<Rightarrow> 'x) \<Rightarrow> (response \<Rightarrow> 'x \<Rightarrow> 'x) \<Rightarrow>
    (string \<times> string \<Rightarrow> 'x \<Rightarrow> 'x) \<Rightarrow> ('x \<Rightarrow> 'x) \<Rightarrow> 'x \<Rightarrow> 'x" where
  "told r nt fc fr fe fx x = (case network_story nt r of
      Inl e \<Rightarrow> fe e (if nt_connect nt = None then fc x else x)
    | Inr a \<Rightarrow> fx (fr a (fc x)))"

lemma client_run_story:
  fixes c :: "'x http_client_scheme"
  assumes "observing h fc fr fe fx" "ht_pending c = Connecting"
  shows "case client_run h nt (4 + k) c of (Ok count, c') \<Rightarrow>
      ht_pending c' = No_Io \<and> ht_socket c' = Client_Closed \<and> ht_request c' = ht_request c \<and>
      ht_host c' = ht_host c \<and> ht_version c' = ht_version c \<and>
      http_client.more c' = told (ht_request c) nt fc fr fe fx (http_client.more c)
    | _ \<Rightarrow> False"
proof -
  note obs = assms(1) [unfolded observing_def]
  note defs = client_run_def client_complete_def client_on_connect_def client_on_write_def client_on_read_def
    act_bind_def act_then_def act_read_def act_modify_def act_return_def client_close_def network_story_def told_def
    obs assms(2) eval_nat_numeral
  show ?thesis
  proof (cases "nt_connect nt")
    case (Some m)
    then show ?thesis by (simp add: defs)
  next
    case None
    show ?thesis
    proof (cases "nt_write nt (ht_request c)")
      case (Some m)
      with None show ?thesis by (simp add: defs)
    next
      case sent: None
      show ?thesis
        by (cases "nt_read nt") (simp_all add: defs None sent)
    qed
  qed
qed

lemmas request_defs = async_get_def async_post_def async_options_def async_connect_def set_method_def init_request_def
  append_data_def Let_def

text \<open>With callbacks that only keep what they are told, a request of the client comes to an end within four
  handlers, leaves the socket closed and no operation pending, and has called either \<open>on_error\<close> once, for
  the first operation that failed, or \<open>on_response\<close> with what the server sent and then \<open>on_close\<close>.\<close>

theorem client_request_ends:
  fixes c :: "'x http_client_scheme"
  assumes "observing h fc fr fe fx"
  shows "\<exists>count c'. client_run h nt (4 + k) (async_post agent target data c) = (Ok count, c') \<and>
    ht_pending c' = No_Io \<and> ht_socket c' = Client_Closed \<and>
    http_client.more c' = told (ht_request (async_post agent target data c)) nt fc fr fe fx (http_client.more c)"
proof -
  have "ht_pending (async_post agent target data c) = Connecting"
    "http_client.more (async_post agent target data c) = http_client.more c" by (simp_all add: request_defs)
  from ok_case [OF client_run_story [OF assms this(1), of nt k]] this(2) show ?thesis by auto
qed

text \<open>Callbacks that keep a list of what they are told.\<close>

definition keeping :: "string list http_client_scheme client_handlers" where
  "keeping = \<lparr>
     on_connect = handler_add (\<lambda>_. act_modify (http_client.more_update (\<lambda>x. x @ [''connected'']))) handler_new,
     on_response = handler_add (\<lambda>r. act_modify (http_client.more_update (\<lambda>x. x @ [rs_body r]))) handler_new,
     on_error = handler_add (\<lambda>e. act_modify (http_client.more_update (\<lambda>x. x @ [fst e, snd e]))) handler_new,
     on_close = handler_add (\<lambda>_. act_modify (http_client.more_update (\<lambda>x. x @ [''closed'']))) handler_new\<rparr>"

lemma keeping_observing: "observing keeping (\<lambda>x. x @ [''connected'']) (\<lambda>r x. x @ [rs_body r]) (\<lambda>e x. x @ [fst e, snd e])
    (\<lambda>x. x @ [''closed''])"
  by (simp add: observing_def keeping_def handler_call_def handler_add_def handler_new_def act_then_def act_bind_def
      act_modify_def act_return_def)

definition lab_client :: "string list http_client_scheme" where
  "lab_client = http_client.extend (http_client_new ''localhost'' 11) []"

definition answering :: "string \<Rightarrow> network" where
  "answering b = \<lparr>nt_connect = None, nt_write = \<lambda>_. None, nt_read = Inr (new_response\<lparr>rs_body := b\<rparr>)\<rparr>"

theorem client_request_ends_witness:
  "\<exists>count c'. client_run keeping (answering ''pong'') (4 + 0) (async_post ''agent'' ''/'' ''ping'' lab_client) = (Ok count, c') \<and>
     http_client.more c' = [''connected'', ''pong'', ''closed'']"
proof -
  have "told r (answering ''pong'') (\<lambda>x. x @ [''connected'']) (\<lambda>r x. x @ [rs_body r]) (\<lambda>e x. x @ [fst e, snd e])
      (\<lambda>x. x @ [''closed'']) (http_client.more lab_client) = [''connected'', ''pong'', ''closed'']" for r
    by (simp add: told_def network_story_def answering_def lab_client_def http_client.defs)
  with client_request_ends [OF keeping_observing, of "answering ''pong''" 0 "''agent''" "''/''" "''ping''" lab_client]
  show ?thesis by auto
qed

text \<open>A client that is used again sends the data of its earlier requests once more: a GET after a POST
  carries the data of the POST as its body, announced with the length set then, and a second POST
  carries both.\<close>

theorem client_body_carried_over:
  fixes c :: "'x http_client_scheme"
  assumes "observing h fc fr fe fx"
    and "client_run h nt (4 + k) (async_post agent target data c) = (Ok count, c')"
  shows "cr_body (ht_request (async_get agent target' c')) = cr_body (ht_request c) @ data \<and>
    cr_length (ht_request (async_get agent target' c')) = Some (length (cr_body (ht_request c) @ data)) \<and>
    cr_method (ht_request (async_get agent target' c')) = Get \<and>
    cr_body (ht_request (async_post agent target' data' c')) = cr_body (ht_request c) @ data @ data'"
proof -
  have "ht_pending (async_post agent target data c) = Connecting" by (simp add: request_defs)
  from client_run_story [OF assms(1) this, of nt k] assms(2)
  have "ht_request c' = ht_request (async_post agent target data c)" by simp
  then show ?thesis by (simp add: request_defs)
qed

theorem client_body_carried_over_witness:
  "\<exists>c'. cr_method (ht_request (async_get ''agent'' ''/b'' c')) = Get \<and>
     cr_body (ht_request (async_get ''agent'' ''/b'' c')) = ''ping'' \<and>
     (\<exists>count. client_run keeping (answering ''pong'') (4 + 0) (async_post ''agent'' ''/a'' ''ping'' lab_client) = (Ok count, c'))"
proof -
  have "ht_pending (async_post ''agent'' ''/a'' ''ping'' lab_client) = Connecting" by (simp add: request_defs)
  from ok_case [OF client_run_story [OF keeping_observing this, of "answering ''pong''" 0]] obtain count c' where
    run: "client_run keeping (answering ''pong'') (4 + 0) (async_post ''agent'' ''/a'' ''ping'' lab_client) = (Ok count, c')"
    by (elim exE conjE) (rule that)
  have "cr_body (ht_request lab_client) = []"
    by (simp add: lab_client_def http_client_new_def client_host_def client_version_def http_client.defs)
  with client_body_carried_over [OF keeping_observing run, where target' = "''/b''"] run show ?thesis
    by (intro exI [of _ c']) auto
qed

section \<open>The websocket client\<close>

text \<open>
  The received bytes wait in a buffer; whether a read is pending and whether a close has been asked for
  are kept beside it. Writes, their callback and the handshake are \<open>handler\<close>s as before.
\<close>

record ws_client =
  wc_uri :: string
  wc_agent :: "string option"
  wc_text :: bool
  wc_buffer :: string
  wc_reading :: bool
  wc_sent :: "string list"
  wc_closing :: bool
  wc_connecting :: "string option"
  wc_shut :: bool

record 'c ws_client_handlers =
  wc_on_connect :: "(unit, 'c) handler"
  wc_on_handshake :: "(response, 'c) handler"
  wc_on_write :: "(unit, 'c) handler"
  wc_on_read :: "(string, 'c) handler"
  wc_on_error :: "(string \<times> string, 'c) handler"

definition wsc_async_write :: "string \<Rightarrow> 'x ws_client_scheme \<Rightarrow> 'x ws_client_scheme" where
  "wsc_async_write data c = c\<lparr>wc_sent := wc_sent c @ [data]\<rparr>"

definition wsc_close :: "'x ws_client_scheme \<Rightarrow> 'x ws_client_scheme" where
  "wsc_close c = c\<lparr>wc_closing := True\<rparr>"

definition wsc_async_connect :: "string \<Rightarrow> 'x ws_client_scheme \<Rightarrow> 'x ws_client_scheme" where
  "wsc_async_connect request_uri c = c\<lparr>wc_connecting := Some request_uri\<rparr>"

definition wsc_shutdown :: "'x ws_client_scheme \<Rightarrow> 'x ws_client_scheme" where
  "wsc_shutdown c = c\<lparr>wc_shut := True\<rparr>"

definition wsc_on_close :: "('x ws_client_scheme, unit) act" where
  "wsc_on_close = act_return ()"

text \<open>The error code of the connect is not looked at: the handshake on the socket fails instead.\<close>

definition wsc_on_connect :: "string \<Rightarrow> 'x ws_client_scheme ws_client_handlers \<Rightarrow> string \<Rightarrow> ('x ws_client_scheme, unit) act" where
  "wsc_on_connect agent h uri =
     act_then (act_modify (\<lambda>c. c\<lparr>wc_agent := Some (agent @ '' websocket-client-async''), wc_text := True\<rparr>))
     (act_then (handler_call (wc_on_connect h) ()) (act_modify (\<lambda>c. c\<lparr>wc_uri := uri\<rparr>)))"

definition wsc_start_read :: "('x ws_client_scheme, unit) act" where
  "wsc_start_read = act_modify (\<lambda>c. c\<lparr>wc_reading := True\<rparr>)"

definition wsc_on_handshake :: "'x ws_client_scheme ws_client_handlers \<Rightarrow> string + response \<Rightarrow> ('x ws_client_scheme, unit) act" where
  "wsc_on_handshake h ec = (case ec of
      Inl m \<Rightarrow> handler_call (wc_on_error h) (m, m)
    | Inr r \<Rightarrow> act_then (handler_call (wc_on_handshake h) r) wsc_start_read)"

definition wsc_on_write :: "'x ws_client_scheme ws_client_handlers \<Rightarrow> string option \<Rightarrow> ('x ws_client_scheme, unit) act" where
  "wsc_on_write h ec = (case ec of
      Some m \<Rightarrow> handler_call (wc_on_error h) (m, m)
    | None \<Rightarrow> handler_call (wc_on_write h) ())"

text \<open>The whole buffer is handed out; as many bytes as the message had are then taken off it.\<close>

definition wsc_on_read :: "'x ws_client_scheme ws_client_handlers \<Rightarrow> string option \<Rightarrow> nat \<Rightarrow> ('x ws_client_scheme, unit) act" where
  "wsc_on_read h ec bytes = (case ec of
      Some m \<Rightarrow> handler_call (wc_on_error h) (m, m)
    | None \<Rightarrow> act_bind (act_read wc_buffer) (\<lambda>b. act_then (handler_call (wc_on_read h) b)
        (act_then (act_modify (\<lambda>c. c\<lparr>wc_buffer := drop bytes (wc_buffer c)\<rparr>)) wsc_start_read)))"

text \<open>A message arrives while a read is pending: it is put behind what the buffer holds.\<close>

definition wsc_message :: "'x ws_client_scheme ws_client_handlers \<Rightarrow> string \<Rightarrow> ('x ws_client_scheme, unit) act" where
  "wsc_message h m = act_bind (act_read wc_reading) (\<lambda>reading.
     if reading then act_then (act_modify (\<lambda>c. c\<lparr>wc_reading := False, wc_buffer := wc_buffer c @ m\<rparr>)) (wsc_on_read h None (length m))
     else act_return ())"

text \<open>The messages that arrive after the handshake are handed to \<open>on_read\<close> one by one, in order, each
  whole and none twice, and the client goes on reading.\<close>

theorem ws_client_delivers:
  fixes c :: "'x ws_client_scheme"
  assumes "\<And>m c. handler_call (wc_on_read h) m c = (Ok (), ws_client.more_update (fr m) c)"
    and "\<And>r c. handler_call (wc_on_handshake h) r c = (Ok (), c)" and "wc_buffer c = []"
  shows "act_then (wsc_on_handshake h (Inr r)) (act_for (wsc_message h) ms) c =
    (Ok (), ws_client.more_update (fold fr ms) (c\<lparr>wc_reading := True\<rparr>))"
proof -
  have "act_for (wsc_message h) ms d = (Ok (), ws_client.more_update (fold fr ms) d)"
    if "wc_reading d" "wc_buffer d = []" for d
    using that
  proof (induction ms arbitrary: d)
    case (Cons m ms)
    have "wsc_message h m d = (Ok (), ws_client.more_update (fr m) d)"
      using Cons.prems by (cases d) (simp add: wsc_message_def wsc_on_read_def wsc_start_read_def act_bind_def act_then_def
          act_read_def act_modify_def assms(1))
    with Cons show ?case by (simp add: act_then_def act_bind_def comp_def)
  qed (cases d, simp add: act_return_def)
  then show ?thesis
    by (simp add: wsc_on_handshake_def wsc_start_read_def act_then_def act_bind_def act_modify_def assms(2,3))
qed

definition ws_keeping :: "string list ws_client_scheme ws_client_handlers" where
  "ws_keeping = \<lparr>wc_on_connect = [], wc_on_handshake = [], wc_on_write = [],
     wc_on_read = handler_add (\<lambda>m. act_modify (ws_client.more_update (\<lambda>x. x @ [m]))) handler_new, wc_on_error = []\<rparr>"

lemma ws_keeping_calls:
  "handler_call (wc_on_read ws_keeping) m c = (Ok (), ws_client.more_update (\<lambda>x. x @ [m]) c)"
  "handler_call (wc_on_handshake ws_keeping) r c = (Ok (), c)"
  by (simp_all add: ws_keeping_def handler_call_def handler_add_def handler_new_def act_then_def act_bind_def act_modify_def act_return_def)

definition fresh_ws_client :: "string list ws_client_scheme" where
  "fresh_ws_client = \<lparr>wc_uri = ''/'', wc_agent = None, wc_text = True, wc_buffer = [], wc_reading = False, wc_sent = [],
     wc_closing = False, wc_connecting = None, wc_shut = False, \<dots> = []\<rparr>"

theorem ws_client_delivers_witness:
  "act_then (wsc_on_handshake ws_keeping (Inr new_response)) (act_for (wsc_message ws_keeping) [''a'', ''bc'']) fresh_ws_client =
   (Ok (), ws_client.more_update (\<lambda>x. [''a'', ''bc'']) (fresh_ws_client\<lparr>wc_reading := True\<rparr>))"
proof -
  have "wc_buffer fresh_ws_client = []" by (simp add: fresh_ws_client_def)
  from ws_client_delivers [OF ws_keeping_calls this, of new_response "[''a'', ''bc'']"] show ?thesis
    by (simp add: fresh_ws_client_def)
qed

end
