(* ===== verification/Ws_Life.thy ===== *)
theory Ws_Life
  imports App
begin

text \<open>
  \<open>ws/connection.cpp\<close>: the life of one websocket, from \<open>run\<close> to the end of its read chain, with the
  writes broadcasts start beside it. What the callbacks do is in \<open>App\<close>; here only that they are called,
  and in which order.
\<close>

section \<open>The operations\<close>

text \<open>
  The pending operation of the chain: nothing yet, the posted \<open>async_run\<close>, the handshake, a read, or
  none any more.
\<close>

datatype ws_op = Op_New | Op_Posted | Op_Accept | Op_Read | Op_Over

text \<open>The callbacks that were called; an error of a write is told from one of the chain.\<close>

datatype ws_call = Call_Accept | Call_Handshake | Call_Error | Call_Close | Call_Write_Error

record ws_life =
  wl_op :: ws_op
  wl_text :: bool
  wl_server :: "string option"
  wl_buffer :: string
  wl_writes :: "string list"
  wl_calls :: "ws_call list"
  wl_log :: "string list"

definition wl_new :: ws_life where
  "wl_new = \<lparr>wl_op = Op_New, wl_text = False, wl_server = None, wl_buffer = [], wl_writes = [], wl_calls = [], wl_log = []\<rparr>"

definition wl_call :: "ws_call \<Rightarrow> ws_life \<Rightarrow> ws_life" where
  "wl_call f c = c\<lparr>wl_calls := wl_calls c @ [f]\<rparr>"

definition wl_run :: "ws_life \<Rightarrow> ws_life" where
  "wl_run c = c\<lparr>wl_op := Op_Posted\<rparr>"

definition wl_async_run :: "string \<Rightarrow> ws_life \<Rightarrow> ws_life" where
  "wl_async_run server_name c =
     (wl_call Call_Accept (c\<lparr>wl_server := Some (server_name @ '' websocket-server-async''), wl_text := True\<rparr>))\<lparr>wl_op := Op_Accept\<rparr>"

definition wl_async_accept :: "ws_error \<Rightarrow> ws_life \<Rightarrow> ws_life" where
  "wl_async_accept ec c =
     (if ec \<noteq> No_Error then wl_call Call_Error (c\<lparr>wl_op := Op_Over\<rparr>)
      else (wl_call Call_Handshake c)\<lparr>wl_op := Op_Read\<rparr>)"

text \<open>
  A read has put \<open>bytes\<close> bytes behind what the buffer holds. The text of the buffer is logged; the
  read callback is not called.
\<close>

definition wl_async_read :: "ws_error \<Rightarrow> nat \<Rightarrow> ws_life \<Rightarrow> ws_life" where
  "wl_async_read ec bytes c =
     (if ec = Closed_Error then wl_call Call_Close (c\<lparr>wl_op := Op_Over\<rparr>)
      else if ec \<noteq> No_Error then wl_call Call_Error (c\<lparr>wl_op := Op_Over\<rparr>)
      else c\<lparr>wl_log := wl_log c @ [''< Websocket: '' @ wl_buffer c], wl_buffer := drop bytes (wl_buffer c), wl_op := Op_Read\<rparr>)"

text \<open>\<open>write\<close> starts a write whatever is pending; \<open>async_write\<close> runs when one is done.\<close>

definition wl_write :: "string \<Rightarrow> ws_life \<Rightarrow> ws_life" where
  "wl_write str c = c\<lparr>wl_writes := wl_writes c @ [str]\<rparr>"

definition wl_async_write :: "ws_error \<Rightarrow> ws_life \<Rightarrow> ws_life" where
  "wl_async_write ec c = (if ec \<noteq> No_Error then wl_call Call_Write_Error c else c)"

section \<open>Steps\<close>

definition wl_arrives :: "ws_error \<Rightarrow> string \<Rightarrow> ws_life \<Rightarrow> ws_life" where
  "wl_arrives ec m c = (if ec = No_Error then c\<lparr>wl_buffer := wl_buffer c @ m\<rparr> else c)"

inductive wl_step :: "ws_life \<Rightarrow> ws_life \<Rightarrow> bool" where
  runs: "wl_op c = Op_New \<Longrightarrow> wl_step c (wl_run c)"
| starts: "wl_op c = Op_Posted \<Longrightarrow> wl_step c (wl_async_run sn c)"
| accepts: "wl_op c = Op_Accept \<Longrightarrow> wl_step c (wl_async_accept ec c)"
| reads: "wl_op c = Op_Read \<Longrightarrow> wl_step c (wl_async_read ec (length m) (wl_arrives ec m c))"
| writes: "wl_step c (wl_write str c)"
| written: "wl_writes c = str # pending \<Longrightarrow> wl_step c (wl_async_write ec (c\<lparr>wl_writes := pending\<rparr>))"

lemmas wl_defs = wl_run_def wl_async_run_def wl_async_accept_def wl_async_read_def wl_write_def wl_async_write_def
  wl_call_def wl_arrives_def

definition chain_calls :: "ws_life \<Rightarrow> ws_call list" where
  "chain_calls c = filter (\<lambda>f. f \<noteq> Call_Write_Error) (wl_calls c)"

definition wl_ok :: "ws_life \<Rightarrow> bool" where
  "wl_ok c \<longleftrightarrow> wl_buffer c = [] \<and> (wl_text c \<longleftrightarrow> wl_op c \<notin> {Op_New, Op_Posted}) \<and>
     (case wl_op c of
        Op_New \<Rightarrow> chain_calls c = []
      | Op_Posted \<Rightarrow> chain_calls c = []
      | Op_Accept \<Rightarrow> chain_calls c = [Call_Accept]
      | Op_Read \<Rightarrow> chain_calls c = [Call_Accept, Call_Handshake]
      | Op_Over \<Rightarrow> chain_calls c \<in> {[Call_Accept, Call_Error], [Call_Accept, Call_Handshake, Call_Error],
          [Call_Accept, Call_Handshake, Call_Close]})"

lemma wl_ok_step: "wl_step c d \<Longrightarrow> wl_ok c \<Longrightarrow> wl_ok d"
  by (induction rule: wl_step.induct) (auto simp: wl_ok_def wl_defs chain_calls_def split: ws_op.splits)

lemma wl_ok_new: "wl_ok wl_new"
  by (simp add: wl_ok_def wl_new_def chain_calls_def)

interpretation websocket: transition_system "\<lambda>c. c = wl_new" wl_step wl_ok
  by unfold_locales (auto intro: wl_ok_step wl_ok_new)

text \<open>C21: whatever happens to a websocket and however broadcasts write to it meanwhile, the callbacks of its chain
  are called in the order accept, handshake, close, with an error in the place of the last or of the
  last two; so the close callbacks run at most once, only after the handshake's and never after an
  error. Text frames are chosen before the first callback, and each read leaves the buffer empty.\<close>

theorem websocket_callbacks_ordered:
  assumes "wl_step\<^sup>*\<^sup>* wl_new c"
  shows "chain_calls c \<in> {[], [Call_Accept], [Call_Accept, Call_Error], [Call_Accept, Call_Handshake],
      [Call_Accept, Call_Handshake, Call_Error], [Call_Accept, Call_Handshake, Call_Close]} \<and>
    (wl_op c = Op_Over \<longleftrightarrow> Call_Error \<in> set (chain_calls c) \<or> Call_Close \<in> set (chain_calls c)) \<and>
    (wl_text c \<longleftrightarrow> chain_calls c \<noteq> []) \<and> wl_buffer c = []"
  using websocket.reachable_inv [OF refl assms] by (auto simp: wl_ok_def split: ws_op.splits)

text \<open>The chain only goes forward; its operations are ordered by when they come.\<close>

fun ws_op_rank :: "ws_op \<Rightarrow> nat" where
  "ws_op_rank Op_New = 0"
| "ws_op_rank Op_Posted = 1"
| "ws_op_rank Op_Accept = 2"
| "ws_op_rank Op_Read = 3"
| "ws_op_rank Op_Over = 4"

lemma ws_op_rank_inj: "ws_op_rank a = ws_op_rank b \<Longrightarrow> a = b"
  by (cases a; cases b) simp_all

instantiation ws_op :: linorder
begin

definition less_eq_ws_op :: "ws_op \<Rightarrow> ws_op \<Rightarrow> bool" where
  "less_eq_ws_op a b \<longleftrightarrow> ws_op_rank a \<le> ws_op_rank b"

definition less_ws_op :: "ws_op \<Rightarrow> ws_op \<Rightarrow> bool" where
  "less_ws_op a b \<longleftrightarrow> ws_op_rank a < ws_op_rank b"

instance
  by standard (auto simp: less_eq_ws_op_def less_ws_op_def intro: ws_op_rank_inj)

end

lemma wl_step_forward: "wl_step c d \<Longrightarrow> wl_op c \<le> wl_op d"
  by (induction rule: wl_step.induct) (simp_all add: wl_defs less_eq_ws_op_def)

lemma wl_forward: "wl_step\<^sup>*\<^sup>* c d \<Longrightarrow> wl_op c \<le> wl_op d"
  by (induction rule: rtranclp_induct) (auto dest: wl_step_forward intro: order_trans)

text \<open>Nothing keeps a write from being started before the handshake is done or while another is pending,
  neither of which the library allows.\<close>

lemma accepting_run: "wl_step\<^sup>*\<^sup>* wl_new (wl_async_run sn (wl_run wl_new))"
proof -
  have "wl_step wl_new (wl_run wl_new)" by (rule wl_step.runs) (simp add: wl_new_def)
  moreover have "wl_step (wl_run wl_new) (wl_async_run sn (wl_run wl_new))" by (rule wl_step.starts) (simp add: wl_run_def)
  ultimately show ?thesis by (meson rtranclp.rtrancl_into_rtrancl r_into_rtranclp)
qed

lemma overlapping_writes:
  "\<exists>c. wl_step\<^sup>*\<^sup>* wl_new c \<and> wl_op c = Op_Accept \<and> length (wl_writes c) = 2"
proof -
  let ?c = "wl_write ''b'' (wl_write ''a'' (wl_async_run ''beast'' (wl_run wl_new)))"
  have "wl_step\<^sup>*\<^sup>* wl_new ?c"
    using accepting_run [of "''beast''"] wl_step.writes by (meson rtranclp.rtrancl_into_rtrancl)
  then show ?thesis by (intro exI [of _ ?c]) (simp add: wl_defs wl_new_def)
qed

theorem websocket_callbacks_ordered_witness:
  "\<exists>c. chain_calls c = [Call_Accept, Call_Handshake, Call_Close] \<and> wl_op c = Op_Over \<and> wl_buffer c = [] \<and>
     wl_log c = [''< Websocket: hi'']"
proof -
  let ?c1 = "wl_async_run ''beast'' (wl_run wl_new)"
  let ?c2 = "wl_async_accept No_Error ?c1"
  let ?c3 = "wl_async_read No_Error (length ''hi'') (wl_arrives No_Error ''hi'' ?c2)"
  let ?c4 = "wl_async_read Closed_Error (length ''hi'') (wl_arrives Closed_Error ''hi'' ?c3)"
  have "wl_step ?c1 ?c2" by (rule wl_step.accepts) (simp add: wl_async_run_def)
  moreover have "wl_step ?c2 ?c3" by (rule wl_step.reads) (simp add: wl_defs)
  moreover have "wl_step ?c3 ?c4" by (rule wl_step.reads) (simp add: wl_defs)
  ultimately have run: "wl_step\<^sup>*\<^sup>* wl_new ?c4"
    using accepting_run [of "''beast''"] by (meson rtranclp.rtrancl_into_rtrancl)
  have "chain_calls ?c4 = [Call_Accept, Call_Handshake, Call_Close]" "wl_log ?c4 = [''< Websocket: hi'']"
    by (simp_all add: chain_calls_def wl_defs wl_new_def)
  with websocket_callbacks_ordered [OF run] show ?thesis by (intro exI [of _ ?c4]) simp
qed

end
