(* ===== verification/Event_Callbacks.thy ===== *)
theory Event_Callbacks
  imports Libvirt
begin

text \<open>
  \<open>virt/event_callback.cpp\<close> and \<open>virt/events/callbacks/lifecycle.cpp\<close>: the table of the C functions libvirt
  was last given for each kind of event. A function pointer is of any type; the casts between pointer
  types and back keep it, as POSIX has it.
\<close>

type_synonym 'f event_callbacks = "(int, 'f) std_map"

definition add_event_callback :: "int \<Rightarrow> 'f \<Rightarrow> ('f event_callbacks, 'f) act" where
  "add_event_callback type fn = act_then (act_modify (sm_put type fn)) (act_return fn)"

definition get_event_callback :: "int \<Rightarrow> ('f event_callbacks, 'f) act" where
  "get_event_callback type = act_bind (act_read (sm_at type)) act_lift"

record 'f event_callback =
  fptr :: 'f

definition lifecycle_callback :: "'f \<Rightarrow> 'f event_callback" where
  "lifecycle_callback f = \<lparr>fptr = f\<rparr>"

definition real_function_ptr :: "'f event_callback \<Rightarrow> 'f" where
  "real_function_ptr cb = fptr cb"

definition function_ptr :: "'f event_callback \<Rightarrow> ('f event_callbacks, 'f) act" where
  "function_ptr cb = add_event_callback VIR_DOMAIN_EVENT_ID_LIFECYCLE (real_function_ptr cb)"

text \<open>What \<open>function_ptr\<close> hands to libvirt is what the table gives afterwards, until another callback
  is registered; other kinds of events keep theirs.\<close>

lemma function_ptr_get:
  "act_then (function_ptr (lifecycle_callback f)) (get_event_callback type) m =
     (if type = VIR_DOMAIN_EVENT_ID_LIFECYCLE then (Ok f, sm_put type f m)
      else (sm_at type m, sm_put VIR_DOMAIN_EVENT_ID_LIFECYCLE f m))"
  by (simp add: function_ptr_def lifecycle_callback_def real_function_ptr_def add_event_callback_def get_event_callback_def
      act_then_def act_bind_def act_modify_def act_read_def act_return_def act_lift_def sm_at_def sm_find_put)

lemma get_unregistered: "sm_find type m = None \<Longrightarrow> get_event_callback type m = (Throw (Out_Of_Range ''map::at''), m)"
  by (simp add: get_event_callback_def act_simps sm_at_def)

end
