(* ===== verification/Interleaving.thy ===== *)
theory Interleaving
  imports Daemon
begin

text \<open>
  The callbacks of websockets on several worker threads. \<open>ws_callback_run\<close> treats a callback as one step;
  the program locks each table for each call on it only, so that between two calls of one callback
  another thread can run. Here the sections between locks are the steps. What is shown: a callback
  that is not interrupted is what \<open>ws_callback_run\<close> says; what holds of the tables under every
  interleaving; and what does not.
\<close>

section \<open>Sections\<close>

text \<open>
  Where a websocket's callbacks are. \<open>Ready\<close>: its request has filed it, the handshake callback has not
  looked for events; \<open>Must_Add\<close>: it found none; \<open>Running\<close>: the callback has returned; \<open>Counting\<close>: the close
  callback has taken it out of the list; \<open>Must_Remove\<close>: the list was empty.
\<close>

datatype ws_pc = Unborn | Ready | Must_Add | Running | Counting | Must_Remove | Gone

definition find_events :: "string \<Rightarrow> ('w server, events option) act" where
  "find_events conn = act_bind (conn_user conn) (\<lambda>u. act_read (\<lambda>s. sm_find u (sv_events s)))"

text \<open>\<open>us w\<close> is the user of websocket \<open>w\<close>, whose name is also that of the connection.\<close>

inductive race_step :: "'w libvirt_c \<Rightarrow> (ws_id \<Rightarrow> string) \<Rightarrow>
    'w server \<times> (ws_id \<Rightarrow> ws_pc) \<Rightarrow> 'w server \<times> (ws_id \<Rightarrow> ws_pc) \<Rightarrow> bool" for lv us where
  joins: "p w = Unborn \<Longrightarrow> ws_pool_add (us w) w s = (Ok (), t) \<Longrightarrow> race_step lv us (s, p) (t, p(w := Ready))"
| checks: "p w = Ready \<Longrightarrow> find_events (us w) s = (Ok it, t) \<Longrightarrow>
     race_step lv us (s, p) (t, p(w := if it = None then Must_Add else Running))"
| adds: "p w = Must_Add \<Longrightarrow> add_events lv [] (us w) s = (Ok (), t) \<Longrightarrow> race_step lv us (s, p) (t, p(w := Running))"
| leaves: "p w = Running \<Longrightarrow> ws_pool_remove (us w) w s = (Ok (), t) \<Longrightarrow> race_step lv us (s, p) (t, p(w := Counting))"
| counts: "p w = Counting \<Longrightarrow> ws_pool_index (us w) s = (Ok v, t) \<Longrightarrow>
     race_step lv us (s, p) (t, p(w := if length v = 0 then Must_Remove else Gone))"
| removes: "p w = Must_Remove \<Longrightarrow> remove_events lv (us w) s = (Ok (), t) \<Longrightarrow> race_step lv us (s, p) (t, p(w := Gone))"

section \<open>Uninterrupted callbacks\<close>

lemma act_then_OkE:
  assumes "act_then m n s = (Ok b, u)"
  obtains a t where "m s = (Ok a, t)" "n t = (Ok b, u)"
  using assms unfolding act_then_def by (rule act_bind_OkE)

lemma handshake_sections:
  assumes "p w = Ready" "ws_callback_run lv [] (Ws_Handshake (us w) v) s = (Ok (), t)"
  shows "(race_step lv us)\<^sup>*\<^sup>* (s, p) (t, p(w := Running))"
proof -
  from assms(2) obtain it s1 where find: "find_events (us w) s = (Ok it, s1)"
    and rest: "(if it = None then add_events lv [] (us w) else act_return ()) s1 = (Ok (), t)"
    by (auto simp: ws_callback_run_def find_events_def act_bind_def act_read_def split: prod.splits outcome.splits)
  have 1: "race_step lv us (s, p) (s1, p(w := if it = None then Must_Add else Running))"
    by (rule race_step.checks [where p = p and w = w and us = us, OF assms(1) find])
  show ?thesis
  proof (cases "it = None")
    case True
    then have "race_step lv us (s1, p(w := Must_Add)) (t, (p(w := Must_Add))(w := Running))"
      using rest by (intro race_step.adds) auto
    with 1 True show ?thesis by simp
  next
    case False
    with 1 rest show ?thesis by (auto simp: act_return_def)
  qed
qed

lemma close_sections:
  assumes "p w = Running" "ws_callback_run lv [] (Ws_Close (us w) (us w) w) s = (Ok (), t)"
  shows "(race_step lv us)\<^sup>*\<^sup>* (s, p) (t, p(w := Gone))"
proof -
  from assms(2) obtain s1 v s2 where remove: "ws_pool_remove (us w) w s = (Ok (), s1)"
    and index: "ws_pool_index (us w) s1 = (Ok v, s2)"
    and rest: "(if length v = 0 then remove_events lv (us w) else act_return ()) s2 = (Ok (), t)"
    by (auto simp: ws_callback_run_def elim!: act_then_OkE act_bind_OkE)
  let ?q = "p(w := Counting)"
  have 1: "race_step lv us (s, p) (s1, ?q)" by (rule race_step.leaves [where p = p and w = w and us = us, OF assms(1) remove])
  have 2: "race_step lv us (s1, ?q) (s2, ?q(w := if length v = 0 then Must_Remove else Gone))"
    by (rule race_step.counts [where w = w and us = us, OF _ index]) simp
  show ?thesis
  proof (cases "length v = 0")
    case True
    then have "race_step lv us (s2, ?q(w := Must_Remove)) (t, (?q(w := Must_Remove))(w := Gone))"
      using rest by (intro race_step.removes) auto
    with 1 2 True show ?thesis by (simp add: rtranclp.rtrancl_into_rtrancl)
  next
    case False
    with rest have "t = s2" by (simp add: act_return_def)
    with 1 2 False show ?thesis by (simp add: rtranclp.rtrancl_into_rtrancl)
  qed
qed


section \<open>Registering a second time\<close>

text \<open>
  Two handshakes of one user can both find no events. The second registration is made with libvirt, is
  not stored, and is destroyed, which deregisters it.
\<close>

lemma add_events_again_Ok:
  assumes run: "add_events lv [] u s = (Ok (), t)" and c: "sm_find u (sv_pool s) = Some c" "vc_user c = u"
    and found: "sm_find u (sv_events s) = Some (registered ev0)"
  shows "\<exists>w. t = s\<lparr>sv_world := w, sv_events := sm_put u (registered ev0) (sv_events s)\<rparr>"
proof -
  from run have "act_bind (lifecycle_event_new lv u u) (\<lambda>ev.
     act_bind (\<lambda>s. let (evs, m) = sm_index [] u (sv_events s) in (Ok evs, s\<lparr>sv_events := m\<rparr>)) (\<lambda>user_events.
     act_bind (events_set lv VIR_DOMAIN_EVENT_ID_LIFECYCLE ev user_events) (\<lambda>user_events.
     act_then (act_modify (\<lambda>s. s\<lparr>sv_events := sm_put u user_events (sv_events s)\<rparr>))
     (handler_call [] u)))) s = (Ok (), t)"
    by (simp add: add_events_def act_bind_Ok [where m = "conn_user u", OF conn_user_run [OF c(1)]] c(2))
  then obtain ev s1 where ev: "lifecycle_event_new lv u u s = (Ok ev, s1)"
    and rest: "act_bind (\<lambda>s. let (evs, m) = sm_index [] u (sv_events s) in (Ok evs, s\<lparr>sv_events := m\<rparr>)) (\<lambda>user_events.
     act_bind (events_set lv VIR_DOMAIN_EVENT_ID_LIFECYCLE ev user_events) (\<lambda>user_events.
     act_then (act_modify (\<lambda>s. s\<lparr>sv_events := sm_put u user_events (sv_events s)\<rparr>))
     (handler_call [] u))) s1 = (Ok (), t)"
    by (rule act_bind_OkE)
  from lifecycle_event_new_Ok [OF ev] obtain w where s1: "s1 = s\<lparr>sv_world := w\<rparr>" by auto
  have "sm_index [] u (sv_events s1) = (registered ev0, sv_events s)"
    using found s1 by (simp add: sm_index_def)
  with rest s1 obtain s2 where s2: "event_destroy lv ev (s\<lparr>sv_world := w\<rparr>) = (Ok (), s2)"
    and t: "t = s2\<lparr>sv_events := sm_put u (registered ev0) (sv_events s2)\<rparr>"
    by (auto simp: act_bind_def act_then_def act_modify_def act_return_def events_set_def handler_call_def registered_def
        split: prod.splits outcome.splits)
  from event_destroy_Ok [OF s2] t show ?thesis by auto
qed

section \<open>What holds under every interleaving\<close>

definition filed_pc :: "ws_pc \<Rightarrow> bool" where
  "filed_pc pc \<longleftrightarrow> pc \<in> {Ready, Must_Add, Running}"

text \<open>\<open>P\<close> is the table of connections, which no section changes.\<close>

definition users_ok :: "(ws_id \<Rightarrow> string) \<Rightarrow> conn_pool \<Rightarrow> bool" where
  "users_ok us P \<longleftrightarrow> (\<forall>w. us w \<noteq> [] \<and> (\<exists>c. sm_find (us w) P = Some c \<and> vc_user c = us w))"

definition race_ok :: "(ws_id \<Rightarrow> string) \<Rightarrow> conn_pool \<Rightarrow> 'w server \<times> (ws_id \<Rightarrow> ws_pc) \<Rightarrow> bool" where
  "race_ok us P x \<longleftrightarrow> sv_pool (fst x) = P \<and> users_ok us P \<and> events_wf (sv_events (fst x)) \<and>
     (\<forall>k. sm_find k (sv_events (fst x)) \<noteq> None \<longrightarrow> sm_find k P \<noteq> None) \<and>
     (\<forall>w v. count (mset (ws_bucket v (fst x))) w = (if v = us w \<and> filed_pc (snd x w) then 1 else 0))"

lemma race_okD:
  assumes "race_ok us P (s, p)"
  shows "sv_pool s = P" "users_ok us P" "events_wf (sv_events s)" "sm_find k (sv_events s) \<noteq> None \<Longrightarrow> sm_find k P \<noteq> None"
    "count (mset (ws_bucket v s)) w = (if v = us w \<and> filed_pc (p w) then 1 else 0)"
  using assms by (simp_all add: race_ok_def)

lemma filed_in_bucket: "race_ok us P (s, p) \<Longrightarrow> filed_pc (p w) \<Longrightarrow> w \<in> set (ws_bucket (us w) s)"
proof -
  assume "race_ok us P (s, p)" "filed_pc (p w)"
  then have "count (mset (ws_bucket (us w) s)) w = 1" using race_okD(5) [of us P s p "us w" w] by simp
  then show "w \<in> set (ws_bucket (us w) s)" by (metis count_inI set_mset_mset zero_neq_one)
qed

lemma users_okE:
  assumes "users_ok us P"
  obtains c where "sm_find (us w) P = Some c" "vc_user c = us w" "us w \<noteq> []"
  using assms by (auto simp: users_ok_def)

text \<open>Sections that only touch the list, and sections that only touch the events.\<close>

lemma race_ok_bucket:
  assumes "race_ok us P (s, p)" "sv_pool t = sv_pool s" "sv_events t = sv_events s"
    and "\<And>v w. count (mset (ws_bucket v t)) w = (if v = us w \<and> filed_pc (q w) then 1 else 0)"
  shows "race_ok us P (t, q)"
  using assms by (auto simp: race_ok_def)

lemma race_ok_events:
  assumes "race_ok us P (s, p)" "sv_pool t = sv_pool s" "sv_websockets t = sv_websockets s"
    and "events_wf (sv_events t)" "\<And>k. sm_find k (sv_events t) \<noteq> None \<Longrightarrow> sm_find k P \<noteq> None"
    and "\<And>w. filed_pc (q w) = filed_pc (p w)"
  shows "race_ok us P (t, q)"
  using assms by (auto simp: race_ok_def ws_bucket_def)

lemma find_events_Ok: "find_events u s = (Ok it, t) \<Longrightarrow> t = s \<and> (\<exists>c. sm_find u (sv_pool s) = Some c \<and> it = sm_find (vc_user c) (sv_events s))"
  by (auto simp: find_events_def conn_user_def on_conn_def act_bind_def act_read_def act_return_def
      split: prod.splits outcome.splits option.splits)


lemma events_wf_put:
  assumes "events_wf m" "u \<noteq> []" "ev_conn ev = u" "ev_user ev = u"
  shows "events_wf (sm_put u (registered ev) m)"
  using assms by (auto simp: events_wf_def sm_find_put)

lemma events_wf_delete: "events_wf m \<Longrightarrow> events_wf (sm_delete u m)"
  by (auto simp: events_wf_def sm_find_delete split: if_splits)

lemma adds_ok:
  assumes ok: "race_ok us P (s, p)" and pc: "p w = Must_Add" and run: "add_events lv [] (us w) s = (Ok (), t)"
  shows "race_ok us P (t, p(w := Running))"
proof -
  obtain c where c: "sm_find (us w) (sv_pool s) = Some c" "vc_user c = us w" "us w \<noteq> []"
    using users_okE [OF race_okD(2) [OF ok]] race_okD(1) [OF ok] by metis
  have "\<exists>w' ev. t = s\<lparr>sv_world := w', sv_events := sm_put (us w) (registered ev) (sv_events s)\<rparr> \<and> ev_conn ev = us w \<and> ev_user ev = us w"
  proof (cases "sm_find (us w) (sv_events s)")
    case None
    then have "sm_find (vc_user c) (sv_events s) = None" using c(2) by simp
    from add_events_Ok [OF run c(1) this] show ?thesis using None c
      by (auto simp: handshake_effect_def) (metis event.select_convs(1,3))
  next
    case (Some evs)
    then obtain ev where ev: "sm_find (us w) (sv_events s) = Some (registered ev)" "ev_conn ev = us w" "ev_user ev = us w"
      using race_okD(3) [OF ok] by (auto simp: events_wf_def)
    from add_events_again_Ok [OF run c(1,2) ev(1)] ev(2,3) show ?thesis by blast
  qed
  then obtain w' ev where t: "t = s\<lparr>sv_world := w', sv_events := sm_put (us w) (registered ev) (sv_events s)\<rparr>"
    and ev: "ev_conn ev = us w" "ev_user ev = us w" by blast
  show ?thesis
  proof (rule race_ok_events [OF ok])
    show "events_wf (sv_events t)" using events_wf_put [OF race_okD(3) [OF ok] c(3) ev] by (simp add: t)
    show "sm_find k P \<noteq> None" if "sm_find k (sv_events t) \<noteq> None" for k
      using that race_okD(4) [OF ok, of k] c(1) race_okD(1) [OF ok] by (auto simp: t sm_find_put split: if_splits)
  qed (use pc in \<open>simp_all add: t filed_pc_def\<close>)
qed

lemma removes_ok:
  assumes ok: "race_ok us P (s, p)" and pc: "p w = Must_Remove" and run: "remove_events lv (us w) s = (Ok (), t)"
  shows "race_ok us P (t, p(w := Gone))"
proof -
  obtain c where c: "sm_find (us w) (sv_pool s) = Some c" "vc_user c = us w" "us w \<noteq> []"
    using users_okE [OF race_okD(2) [OF ok]] race_okD(1) [OF ok] by metis
  have "sv_pool t = sv_pool s \<and> sv_websockets t = sv_websockets s \<and>
      (sv_events t = sv_events s \<or> sv_events t = sm_delete (us w) (sv_events s))"
  proof (cases "sm_find (us w) (sv_events s)")
    case None
    with run remove_events_run(1) [OF c(1), of lv] c(2) show ?thesis by simp
  next
    case (Some evs)
    then obtain ev where "sm_find (us w) (sv_events s) = Some (registered ev)"
      using race_okD(3) [OF ok] by (auto simp: events_wf_def)
    with run remove_events_run(2) [OF c(1), of ev lv] c(2)
    have "act_then (event_destroy lv ev) (act_modify (\<lambda>s. s\<lparr>sv_events := sm_delete (us w) (sv_events s)\<rparr>)) s = (Ok (), t)" by simp
    then obtain s1 where "event_destroy lv ev s = (Ok (), s1)" "t = s1\<lparr>sv_events := sm_delete (us w) (sv_events s1)\<rparr>"
      by (auto elim!: act_then_OkE simp: act_modify_def)
    with event_destroy_Ok [of lv ev s s1] show ?thesis by auto
  qed
  then have t: "sv_pool t = sv_pool s" "sv_websockets t = sv_websockets s"
    "sv_events t = sv_events s \<or> sv_events t = sm_delete (us w) (sv_events s)" by auto
  show ?thesis
  proof (rule race_ok_events [OF ok t(1,2)])
    show "events_wf (sv_events t)" using t(3) race_okD(3) [OF ok] events_wf_delete by metis
    show "sm_find k P \<noteq> None" if "sm_find k (sv_events t) \<noteq> None" for k
      using that t(3) race_okD(3) [OF ok] race_okD(4) [OF ok, of k] by (auto simp: sm_find_delete events_wf_def split: if_splits)
  qed (use pc in \<open>simp_all add: filed_pc_def\<close>)
qed


text \<open>What the sections on the lists do.\<close>

definition lists_only :: "'w server \<Rightarrow> 'w server \<Rightarrow> bool" where
  "lists_only s t \<longleftrightarrow> sv_pool t = sv_pool s \<and> sv_events t = sv_events s"

lemma add_Ok: "ws_pool_add u w s = (Ok (), t) \<Longrightarrow>
    lists_only s t \<and> (\<forall>v. ws_bucket v t = (if v = u then ws_bucket u s @ [w] else ws_bucket v s))"
  using ws_pool_add_run [of u w s] by (elim exE) (simp add: lists_only_def, auto)

lemma remove_Ok: "ws_pool_remove u w s = (Ok (), t) \<Longrightarrow> w \<in> set (ws_bucket u s) \<Longrightarrow>
    lists_only s t \<and> (\<forall>v. ws_bucket v t = (if v = u then remove1 w (ws_bucket u s) else ws_bucket v s))"
  using ws_pool_remove_run [of w u s] by (auto simp: lists_only_def)

lemma index_Ok: "ws_pool_index u s = (Ok b, t) \<Longrightarrow>
    lists_only s t \<and> b = ws_bucket u s \<and> (\<forall>v. ws_bucket v t = ws_bucket v s)"
  using ws_pool_index_run [of u s] by (auto simp: lists_only_def)

lemma race_ok_lists:
  assumes ok: "race_ok us P (s, p)" and lists: "lists_only s t"
    and "\<And>v x. x \<noteq> w \<Longrightarrow> count (mset (ws_bucket v t)) x = count (mset (ws_bucket v s)) x"
    and "\<And>v. count (mset (ws_bucket v t)) w = (if v = us w \<and> filed_pc pc then 1 else 0)"
  shows "race_ok us P (t, p(w := pc))"
proof (rule race_ok_bucket [OF ok])
  fix v x
  show "count (mset (ws_bucket v t)) x = (if v = us x \<and> filed_pc ((p(w := pc)) x) then 1 else 0)"
    using assms(3) [of x v] assms(4) [of v] race_okD(5) [OF ok, of v x] by (cases "x = w") simp_all
qed (use lists in \<open>simp_all add: lists_only_def\<close>)

lemma race_ok_same:
  assumes "race_ok us P (s, p)" "lists_only s t" "\<And>v. ws_bucket v t = ws_bucket v s" "filed_pc pc = filed_pc (p w)"
  shows "race_ok us P (t, p(w := pc))"
  by (rule race_ok_lists [OF assms(1,2)]) (simp_all only: assms(3,4) race_okD(5) [OF assms(1)])

lemma race_ok_step:
  assumes "race_step lv us x y" "race_ok us P x"
  shows "race_ok us P y"
  using assms
proof (induction rule: race_step.induct)
  case (joins p w s t)
  note bucket = add_Ok [OF joins(2), THEN conjunct2, rule_format]
  have out: "count (mset (ws_bucket v s)) w = 0" for v
    unfolding race_okD(5) [OF joins(3)] by (simp add: joins(1) filed_pc_def)
  show ?case
    by (rule race_ok_lists [OF joins(3) add_Ok [OF joins(2), THEN conjunct1]])
       (simp_all add: bucket filed_pc_def out del: count_mset_0_iff)
next
  case (checks p w s it t)
  from find_events_Ok [OF checks(2)] have "t = s" by simp
  with checks(1) show ?case by (intro race_ok_same [OF checks(3)]) (auto simp: filed_pc_def lists_only_def)
next
  case (adds p w s t)
  from adds_ok [OF adds(3,1,2)] show ?case .
next
  case (leaves p w s t)
  have w: "w \<in> set (ws_bucket (us w) s)" by (rule filed_in_bucket [OF leaves(3)]) (simp add: leaves(1) filed_pc_def)
  note bucket = remove_Ok [OF leaves(2) w, THEN conjunct2, rule_format]
  have once: "count (mset (ws_bucket v s)) w = (if v = us w then 1 else 0)" for v
    unfolding race_okD(5) [OF leaves(3)] by (simp add: leaves(1) filed_pc_def)
  show ?case
    by (rule race_ok_lists [OF leaves(3) remove_Ok [OF leaves(2) w, THEN conjunct1]])
       (simp_all add: bucket filed_pc_def once del: count_mset_0_iff)
next
  case (counts p w s v t)
  note i = index_Ok [OF counts(2)]
  from i counts(1) show ?case by (intro race_ok_same [OF counts(3)]) (simp_all add: filed_pc_def)
next
  case (removes p w s t)
  from removes_ok [OF removes(3,1,2)] show ?case .
qed


definition race_start :: "(ws_id \<Rightarrow> string) \<Rightarrow> 'w server \<times> (ws_id \<Rightarrow> ws_pc) \<Rightarrow> bool" where
  "race_start us x \<longleftrightarrow> users_ok us (sv_pool (fst x)) \<and> sv_events (fst x) = [] \<and> sv_websockets (fst x) = [] \<and>
     snd x = (\<lambda>_. Unborn)"

lemma race_start_ok: "race_start us x \<Longrightarrow> race_ok us (sv_pool (fst x)) x"
  by (simp add: race_start_def race_ok_def events_wf_def ws_bucket_def filed_pc_def)

interpretation race: transition_system "\<lambda>x. race_start us x \<and> sv_pool (fst x) = P" "race_step lv us" "race_ok us P"
  for us P lv
  by unfold_locales (auto intro: race_start_ok race_ok_step)

lemma race_reachable_ok:
  assumes "race_start us x" "(race_step lv us)\<^sup>*\<^sup>* x y"
  shows "race_ok us (sv_pool (fst x)) y"
  by (rule race.reachable_inv [OF _ assms(2)]) (simp add: assms(1))

lemma sm_delete_absent: "sm_find k m = None \<Longrightarrow> sm_delete k m = m"
  by (induction k m rule: sm_delete.induct) (auto split: if_splits)

lemma remove_events_safe:
  assumes ok: "race_ok us P (s, p)" and "deregister_answers lv"
  shows "\<exists>w'. remove_events lv (us w) s = (Ok (), s\<lparr>sv_world := w', sv_events := sm_delete (us w) (sv_events s)\<rparr>)"
proof -
  obtain c where c: "sm_find (us w) (sv_pool s) = Some c" "vc_user c = us w"
    using users_okE [OF race_okD(2) [OF ok]] race_okD(1) [OF ok] by metis
  show ?thesis
  proof (cases "sm_find (us w) (sv_events s)")
    case None
    then have "sm_delete (us w) (sv_events s) = sv_events s"
      using race_okD(3) [OF ok] by (auto simp: events_wf_def sm_delete_absent)
    with None remove_events_run(1) [OF c(1), of lv] c(2) show ?thesis by (intro exI [of _ "sv_world s"]) simp
  next
    case (Some evs)
    then obtain ev where ev: "sm_find (us w) (sv_events s) = Some (registered ev)" "ev_conn ev = us w"
      using race_okD(3) [OF ok] by (auto simp: events_wf_def)
    with c event_destroy_run [OF assms(2), of ev s c] obtain w' where "event_destroy lv ev s = (Ok (), s\<lparr>sv_world := w'\<rparr>)" by auto
    with remove_events_run(2) [OF c(1), of ev lv] c(2) ev(1) show ?thesis
      by (intro exI [of _ w']) (simp add: act_then_def act_bind_def act_modify_def)
  qed
qed



text \<open>A user with a connection, and the first steps of a websocket.\<close>

definition one_user :: "nat server" where
  "one_user = empty_daemon\<lparr>sv_pool := [(''root'', \<lparr>vc_ptr = Some 7, vc_errno = 0, vc_closed = False, vc_user = ''root''\<rparr>)]\<rparr>"

lemma one_user_start: "race_start (\<lambda>_. ''root'') (one_user, \<lambda>_. Unborn)"
  by (simp add: race_start_def one_user_def empty_daemon_def users_ok_def)

lemma lab_open:
  "case ws_pool_add ''root'' 0 one_user of
     (Ok x, s) \<Rightarrow> (case ws_callback_run careful_libvirt [] (Ws_Handshake ''root'' ''root'') s of
         (Ok y, t) \<Rightarrow> ws_bucket ''root'' t = [0] \<and> sm_find ''root'' (sv_events t) \<noteq> None
       | _ \<Rightarrow> False)
   | _ \<Rightarrow> False"
  by code_simp

lemma lab_running:
  "\<exists>t. (race_step careful_libvirt (\<lambda>_. ''root''))\<^sup>*\<^sup>* (one_user, \<lambda>_. Unborn) (t, (\<lambda>_. Unborn)(0 := Running)) \<and>
     ws_bucket ''root'' t = [0] \<and> sm_find ''root'' (sv_events t) \<noteq> None"
proof -
  let ?us = "\<lambda>_ :: ws_id. ''root''" and ?p = "(\<lambda>_. Unborn) :: ws_id \<Rightarrow> ws_pc"
  obtain s where s: "ws_pool_add ''root'' 0 one_user = (Ok (), s)"
    and run: "case ws_callback_run careful_libvirt [] (Ws_Handshake ''root'' ''root'') s of
         (Ok y, t) \<Rightarrow> ws_bucket ''root'' t = [0] \<and> sm_find ''root'' (sv_events t) \<noteq> None | _ \<Rightarrow> False"
    using ok_case [OF lab_open] by (elim exE conjE) (rule that, simp_all)
  obtain t where t: "ws_callback_run careful_libvirt [] (Ws_Handshake (?us 0) ''root'') s = (Ok (), t)"
    "ws_bucket ''root'' t = [0]" "sm_find ''root'' (sv_events t) \<noteq> None"
    using ok_case [OF run] by (elim exE conjE) (rule that, simp_all)
  have "race_step careful_libvirt ?us (one_user, ?p) (s, ?p(0 := Ready))"
    using s by (intro race_step.joins) simp_all
  moreover have "(race_step careful_libvirt ?us)\<^sup>*\<^sup>* (s, ?p(0 := Ready)) (t, (?p(0 := Ready))(0 := Running))"
    by (rule handshake_sections [OF _ t(1)]) simp
  ultimately show ?thesis using t(2,3) by (intro exI [of _ t]) simp
qed


section \<open>What does not hold\<close>

lemma close_counts_join:
  assumes pcs: "p w = Running" "p w' = Unborn" "us w' = us w" and last: "ws_bucket (us w) s = [w]"
  shows "\<exists>t. (race_step lv us)\<^sup>*\<^sup>* (s, p) (t, p(w := Must_Remove, w' := Ready)) \<and>
    ws_bucket (us w) t = [w'] \<and> lists_only s t"
proof -
  have ne: "w' \<noteq> w" using pcs by auto
  obtain s1 where s1: "ws_pool_remove (us w) w s = (Ok (), s1)"
    using ws_pool_remove_run [of w "us w" s] last by auto
  obtain s2 where s2: "ws_pool_index (us w) s1 = (Ok (ws_bucket (us w) s1), s2)"
    using ws_pool_index_run [of "us w" s1] by blast
  obtain s3 where s3: "ws_pool_add (us w) w' s2 = (Ok (), s3)" using ws_pool_add_run [of "us w" w' s2] by blast
  have b: "ws_bucket (us w) s1 = []" "lists_only s s1" using remove_Ok [OF s1] last by simp_all
  have b2: "ws_bucket (us w) s2 = []" "lists_only s1 s2" using index_Ok [OF s2] b(1) by simp_all
  have b3: "ws_bucket (us w) s3 = [w']" "lists_only s s3" using add_Ok [OF s3] b b2 by (simp_all add: lists_only_def)
  have "race_step lv us (s, p) (s1, p(w := Counting))"
    by (rule race_step.leaves [where p = p and w = w and us = us, OF pcs(1) s1])
  moreover have "race_step lv us (s1, p(w := Counting)) (s2, p(w := Must_Remove))"
    using race_step.counts [where p = "p(w := Counting)" and w = w and us = us, OF _ s2] b(1) by simp
  moreover have "race_step lv us (s2, p(w := Must_Remove)) (s3, p(w := Must_Remove, w' := Ready))"
    using race_step.joins [where p = "p(w := Must_Remove)" and w = w' and us = us] s3 pcs ne by auto
  ultimately show ?thesis using b3 by (meson converse_rtranclp_into_rtranclp rtranclp.rtrancl_refl)
qed

text \<open>C35: the close of a user's last websocket can overtake the opening of a new one: it counts the empty list,
  a new websocket is filed and finds the old registration, and then the registration is removed. All
  callbacks have returned, the new websocket is open, and its user is not subscribed. As one step
  each, the callbacks cannot end so.\<close>

theorem close_overtakes_open:
  assumes "race_start us x" "(race_step lv us)\<^sup>*\<^sup>* x (s, p)" "deregister_answers lv"
    and pcs: "p w = Running" "p w' = Unborn" "us w' = us w"
    and last: "ws_bucket (us w) s = [w]" and sub: "sm_find (us w) (sv_events s) \<noteq> None"
  shows "\<exists>t. (race_step lv us)\<^sup>*\<^sup>* x (t, p(w := Gone, w' := Running)) \<and>
    ws_bucket (us w) t = [w'] \<and> sm_find (us w) (sv_events t) = None"
proof -
  have ne: "w' \<noteq> w" using pcs by auto
  obtain s3 where run: "(race_step lv us)\<^sup>*\<^sup>* (s, p) (s3, p(w := Must_Remove, w' := Ready))"
    and b3: "ws_bucket (us w) s3 = [w']" and same: "sv_events s3 = sv_events s"
    using close_counts_join [OF pcs last] by (auto simp: lists_only_def)
  from assms(2) run have reach: "(race_step lv us)\<^sup>*\<^sup>* x (s3, p(w := Must_Remove, w' := Ready))" by (rule rtranclp_trans)
  note ok3 = race_reachable_ok [OF assms(1) reach]
  obtain c where c: "sm_find (us w') (sv_pool s3) = Some c" "vc_user c = us w'"
    using users_okE [OF race_okD(2) [OF ok3]] race_okD(1) [OF ok3] by metis
  have "find_events (us w') s3 = (Ok (sm_find (us w) (sv_events s)), s3)"
    using c pcs(3) same by (simp add: find_events_def act_bind_def conn_user_def on_conn_def act_return_def act_read_def)
  from race_step.checks [where p = "p(w := Must_Remove, w' := Ready)" and w = w' and us = us, OF _ this] sub
  have step4: "race_step lv us (s3, p(w := Must_Remove, w' := Ready)) (s3, p(w := Must_Remove, w' := Running))" by simp
  obtain v where v: "remove_events lv (us w) s3 = (Ok (), s3\<lparr>sv_world := v, sv_events := sm_delete (us w) (sv_events s3)\<rparr>)"
    using remove_events_safe [OF ok3 assms(3)] by blast
  let ?t = "s3\<lparr>sv_world := v, sv_events := sm_delete (us w) (sv_events s3)\<rparr>"
  have step5: "race_step lv us (s3, p(w := Must_Remove, w' := Running)) (?t, p(w := Gone, w' := Running))"
    using race_step.removes [where p = "p(w := Must_Remove, w' := Running)" and w = w and us = us, OF _ v] ne
    by (simp add: fun_upd_twist)
  have "(race_step lv us)\<^sup>*\<^sup>* x (?t, p(w := Gone, w' := Running))"
    using reach step4 step5 by (meson rtranclp.rtrancl_into_rtrancl)
  moreover have "sm_find (us w) (sv_events ?t) = None"
    using race_okD(3) [OF ok3] by (simp add: events_wf_def sm_find_delete)
  moreover have "ws_bucket (us w) ?t = [w']" using b3 by (simp add: ws_bucket_def)
  ultimately show ?thesis by blast
qed

theorem close_overtakes_open_witness:
  "\<exists>t :: nat server. (race_step careful_libvirt (\<lambda>_. ''root''))\<^sup>*\<^sup>* (one_user, \<lambda>_. Unborn)
       (t, (\<lambda>_. Unborn)(0 := Running, 0 := Gone, 1 := Running)) \<and>
     ws_bucket ''root'' t = [1] \<and> sm_find ''root'' (sv_events t) = None"
proof -
  obtain t where t: "(race_step careful_libvirt (\<lambda>_. ''root''))\<^sup>*\<^sup>* (one_user, \<lambda>_. Unborn) (t, (\<lambda>_. Unborn)(0 := Running))"
    "ws_bucket ''root'' t = [0]" "sm_find ''root'' (sv_events t) \<noteq> None" using lab_running by blast
  show ?thesis
    by (rule close_overtakes_open [OF one_user_start t(1) careful(2), of 0 1]) (use t in simp_all)
qed

end
