(* ===== verification/Handles.thy ===== *)
theory Handles
  imports Prelude
begin

text \<open>
  The ownership of libvirt's handles: \<open>virt/ptr_type.hpp\<close>, the base of every object that holds one, the
  shared pointers of \<open>libvirt_types.hpp\<close>, and the functors of \<open>libvirt.cpp\<close> that give a handle back. A
  handle is counted by libvirt; a shared pointer's control block owns one count of it and counts the
  objects that share it.
\<close>

section \<open>Objects, control blocks, handles\<close>

text \<open>
  An object holds a control block or none. A block has the raw pointer, null included, and the number
  of its objects. \<open>hd_refs\<close> are libvirt's counts.
\<close>

type_synonym raw = nat

record handles =
  hd_objs :: "nat \<Rightarrow> nat option"
  hd_blocks :: "nat \<Rightarrow> (raw option \<times> nat) option"
  hd_refs :: "raw \<Rightarrow> nat"
  hd_next :: nat

text \<open>The deleters: a null pointer is let be; freeing a handle nobody has a count of is undefined.\<close>

definition free_ptr :: "raw option \<Rightarrow> (handles, unit) act" where
  "free_ptr ptr = (\<lambda>s. case ptr of
      None \<Rightarrow> (Ok (), s)
    | Some r \<Rightarrow> (if hd_refs s r = 0 then (Undef, s)
        else (Ok (), s\<lparr>hd_refs := (hd_refs s)(r := hd_refs s r - 1)\<rparr>)))"

text \<open>\<open>std::shared_ptr\<close>: dropping a share, sharing, and a new block for a raw pointer.\<close>

definition release :: "nat option \<Rightarrow> (handles, unit) act" where
  "release b = (\<lambda>s. case b of
      None \<Rightarrow> (Ok (), s)
    | Some b \<Rightarrow> (case hd_blocks s b of
        None \<Rightarrow> (Undef, s)
      | Some (ptr, n) \<Rightarrow> (if n = 1 then free_ptr ptr (s\<lparr>hd_blocks := (hd_blocks s)(b := None)\<rparr>)
          else (Ok (), s\<lparr>hd_blocks := (hd_blocks s)(b := Some (ptr, n - 1))\<rparr>))))"

definition share :: "nat option \<Rightarrow> handles \<Rightarrow> handles" where
  "share b s = (case b of
      None \<Rightarrow> s
    | Some b \<Rightarrow> s\<lparr>hd_blocks := (hd_blocks s)(b := map_option (\<lambda>(ptr, n). (ptr, n + 1)) (hd_blocks s b))\<rparr>)"

section \<open>The operations of \<open>ptr_type\<close>\<close>

text \<open>A library call that returns a handle has counted it for the caller; the object takes it over.\<close>

definition ptr_of_raw :: "nat \<Rightarrow> raw option \<Rightarrow> (handles, unit) act" where
  "ptr_of_raw x ptr = act_modify (\<lambda>s. s\<lparr>
     hd_refs := (case ptr of None \<Rightarrow> hd_refs s | Some r \<Rightarrow> (hd_refs s)(r := hd_refs s r + 1)),
     hd_blocks := (hd_blocks s)(hd_next s := Some (ptr, 1)), hd_objs := (hd_objs s)(x := Some (hd_next s)),
     hd_next := hd_next s + 1\<rparr>)"

definition ptr_copy :: "nat \<Rightarrow> nat \<Rightarrow> (handles, unit) act" where
  "ptr_copy x y = act_modify (\<lambda>s. (share (hd_objs s x) s)\<lparr>hd_objs := (hd_objs s)(y := hd_objs s x)\<rparr>)"

definition ptr_move :: "nat \<Rightarrow> nat \<Rightarrow> (handles, unit) act" where
  "ptr_move x y = act_modify (\<lambda>s. s\<lparr>hd_objs := (hd_objs s)(x := None, y := hd_objs s x)\<rparr>)"

definition ptr_destroy :: "nat \<Rightarrow> (handles, unit) act" where
  "ptr_destroy x = (\<lambda>s. release (hd_objs s x) (s\<lparr>hd_objs := (hd_objs s)(x := None)\<rparr>))"

text \<open>
  Assignment takes its argument by value: the parameter \<open>o\<close> is a copy, the object's own share is
  dropped when the parameter's is moved in, and the empty parameter is destroyed.
\<close>

definition ptr_assign :: "nat \<Rightarrow> nat \<Rightarrow> nat \<Rightarrow> (handles, unit) act" where
  "ptr_assign x y o' =
     act_then (ptr_copy y o') (act_then (ptr_destroy x) (act_then (ptr_move o' x) (ptr_destroy o')))"

definition get_ptr :: "nat \<Rightarrow> nat \<Rightarrow> (handles, unit) act" where
  "get_ptr x result = ptr_copy x result"

text \<open>The constructor takes its argument by value too, and moves it into the member.\<close>

definition ptr_type_new :: "nat \<Rightarrow> nat \<Rightarrow> (handles, unit) act" where
  "ptr_type_new ptr x = ptr_move ptr x"

definition ptr_bool :: "nat \<Rightarrow> handles \<Rightarrow> bool" where
  "ptr_bool x s \<longleftrightarrow> (case hd_objs s x of
      None \<Rightarrow> False
    | Some b \<Rightarrow> (case hd_blocks s b of Some (Some r, n) \<Rightarrow> True | _ \<Rightarrow> False))"

section \<open>The invariant\<close>

definition sharers :: "nat \<Rightarrow> handles \<Rightarrow> nat set" where
  "sharers b s = {x. hd_objs s x = Some b}"

definition owners :: "raw \<Rightarrow> handles \<Rightarrow> nat set" where
  "owners r s = {b. \<exists>n. hd_blocks s b = Some (Some r, n)}"

definition handles_ok :: "(raw \<Rightarrow> nat) \<Rightarrow> handles \<Rightarrow> bool" where
  "handles_ok base s \<longleftrightarrow> finite {x. hd_objs s x \<noteq> None} \<and> (\<forall>b. hd_blocks s b \<noteq> None \<longrightarrow> b < hd_next s) \<and>
     (\<forall>b. card (sharers b s) = (case hd_blocks s b of None \<Rightarrow> 0 | Some (ptr, n) \<Rightarrow> n)) \<and>
     (\<forall>b ptr n. hd_blocks s b = Some (ptr, n) \<longrightarrow> n \<noteq> 0) \<and>
     (\<forall>r. hd_refs s r = base r + card (owners r s))"

lemma handles_okD:
  assumes "handles_ok base s"
  shows "finite (sharers b s)" "hd_blocks s b \<noteq> None \<Longrightarrow> b < hd_next s"
    "card (sharers b s) = (case hd_blocks s b of None \<Rightarrow> 0 | Some (ptr, n) \<Rightarrow> n)"
    "hd_blocks s b = Some (ptr, n) \<Longrightarrow> n \<noteq> 0" "hd_refs s r = base r + card (owners r s)" "finite (owners r s)"
    "finite {x. hd_objs s x \<noteq> None}"
proof -
  show "finite {x. hd_objs s x \<noteq> None}" using assms by (simp add: handles_ok_def)
  then show "finite (sharers b s)" by (rule rev_finite_subset) (auto simp: sharers_def)
  show "finite (owners r s)"
    using assms by (intro finite_subset [of "owners r s" "{..<hd_next s}"]) (auto simp: handles_ok_def owners_def)
qed (use assms in \<open>auto simp: handles_ok_def\<close>)

lemma held_block:
  assumes "handles_ok base s" "hd_objs s x = Some b"
  obtains ptr n where "hd_blocks s b = Some (ptr, n)" "n = card (sharers b s)" "0 < n"
proof -
  have "x \<in> sharers b s" using assms(2) by (simp add: sharers_def)
  then have pos: "0 < card (sharers b s)" using handles_okD(1) [OF assms(1)] by (auto simp: card_gt_0_iff)
  with handles_okD(3) [OF assms(1), of b] show thesis by (cases "hd_blocks s b") (auto intro: that)
qed

lemma holders_upd:
  "{y. (f(x := v)) y = Some b} = (if v = Some b then insert x {y. f y = Some b} else {y. f y = Some b} - {x})"
  by auto

lemma owners_upd:
  "{b. \<exists>n. (f(c := v)) b = Some (Some r, n)} =
     (if \<exists>n. v = Some (Some r, n) then insert c {b. \<exists>n. f b = Some (Some r, n)} else {b. \<exists>n. f b = Some (Some r, n)} - {c})"
  by auto

lemma free_ptr_run:
  "(\<And>r. ptr = Some r \<Longrightarrow> hd_refs s r \<noteq> 0) \<Longrightarrow>
     free_ptr ptr s = (Ok (), s\<lparr>hd_refs := (\<lambda>r. if ptr = Some r then hd_refs s r - 1 else hd_refs s r)\<rparr>)"
  by (cases ptr) (auto simp: free_ptr_def intro!: handles.equality)

lemma finite_holders: "finite {x. f x \<noteq> None} \<Longrightarrow> finite {y. (f(x := v)) y \<noteq> None}"
  by (rule finite_subset [of _ "insert x {x. f x \<noteq> None}"]) auto

lemma handles_okI:
  assumes "finite {x. hd_objs s x \<noteq> None}" "\<And>b. hd_blocks s b \<noteq> None \<Longrightarrow> b < hd_next s"
    and "\<And>b. card (sharers b s) = (case hd_blocks s b of None \<Rightarrow> 0 | Some (ptr, n) \<Rightarrow> n)"
    and "\<And>b ptr n. hd_blocks s b = Some (ptr, n) \<Longrightarrow> n \<noteq> 0" "\<And>r. hd_refs s r = base r + card (owners r s)"
  shows "handles_ok base s"
  using assms by (simp add: handles_ok_def)

lemma of_raw_ok:
  assumes ok: "handles_ok base s" and "hd_objs s x = None"
  shows "\<exists>t. ptr_of_raw x ptr s = (Ok (), t) \<and> handles_ok base t \<and> hd_objs t = (hd_objs s)(x := Some (hd_next s))"
proof -
  let ?b = "hd_next s"
  have fresh: "hd_blocks s ?b = None" using handles_okD(2) [OF ok, of ?b] by (metis less_irrefl)
  have none: "sharers ?b s = {}" using handles_okD(1,3) [OF ok, of ?b] fresh by simp
  have no_owner: "?b \<notin> owners r s" for r using fresh by (simp add: owners_def)
  define t where "t = snd (ptr_of_raw x ptr s)"
  have t: "ptr_of_raw x ptr s = (Ok (), t)" by (simp add: t_def ptr_of_raw_def act_modify_def)
  have fields: "hd_objs t = (hd_objs s)(x := Some ?b)" "hd_blocks t = (hd_blocks s)(?b := Some (ptr, 1))"
    "hd_next t = ?b + 1" "hd_refs t = (case ptr of None \<Rightarrow> hd_refs s | Some r \<Rightarrow> (hd_refs s)(r := hd_refs s r + 1))"
    by (simp_all add: t_def ptr_of_raw_def act_modify_def)
  have shares: "sharers b t = (if b = ?b then {x} else sharers b s)" for b
    using assms(2) none by (auto simp: sharers_def fields(1))
  have owns: "owners r t = (if ptr = Some r then insert ?b (owners r s) else owners r s)" for r
    using no_owner [of r] by (auto simp: owners_def fields(2))
  have "handles_ok base t"
  proof (rule handles_okI)
    show "finite {x. hd_objs t x \<noteq> None}" unfolding fields(1) by (rule finite_holders [OF handles_okD(7) [OF ok]])
    show "b < hd_next t" if "hd_blocks t b \<noteq> None" for b
      using that handles_okD(2) [OF ok, of b] by (auto simp: fields(2,3) split: if_splits)
    show "card (sharers b t) = (case hd_blocks t b of None \<Rightarrow> 0 | Some (ptr, n) \<Rightarrow> n)" for b
      using handles_okD(3) [OF ok, of b] by (simp add: shares fields(2))
    show "n \<noteq> 0" if "hd_blocks t b = Some (ptr', n)" for b ptr' n
      using that handles_okD(4) [OF ok, of b ptr' n] by (auto simp: fields(2) split: if_splits)
    show "hd_refs t r = base r + card (owners r t)" for r
      using handles_okD(5,6) [OF ok, of r] no_owner [of r] by (auto simp: owns fields(4) split: option.split)
  qed
  with t fields(1) show ?thesis by blast
qed

lemma copy_ok:
  assumes ok: "handles_ok base s" and y: "hd_objs s y = None"
  shows "\<exists>t. ptr_copy x y s = (Ok (), t) \<and> handles_ok base t \<and> hd_objs t = (hd_objs s)(y := hd_objs s x)"
proof (cases "hd_objs s x")
  case None
  with y have "ptr_copy x y s = (Ok (), s)"
    by (auto simp: ptr_copy_def act_modify_def share_def fun_upd_idem intro!: handles.equality)
  with ok None y show ?thesis by (simp add: fun_upd_idem)
next
  case (Some b)
  obtain ptr n where b: "hd_blocks s b = Some (ptr, n)" "n = card (sharers b s)" "0 < n" by (rule held_block [OF ok Some])
  define t where "t = s\<lparr>hd_blocks := (hd_blocks s)(b := Some (ptr, n + 1)), hd_objs := (hd_objs s)(y := Some b)\<rparr>"
  have fields: "hd_objs t = (hd_objs s)(y := Some b)" "hd_blocks t = (hd_blocks s)(b := Some (ptr, n + 1))"
    "hd_next t = hd_next s" "hd_refs t = hd_refs s" by (simp_all add: t_def)
  have t: "ptr_copy x y s = (Ok (), t)" using Some b(1) by (simp add: t_def ptr_copy_def act_modify_def share_def)
  have shares: "sharers c t = (if c = b then insert y (sharers c s) else sharers c s)" for c
    using y by (auto simp: sharers_def fields(1))
  have owns: "owners r t = owners r s" for r using b(1) by (auto simp: owners_def fields(2))
  have "handles_ok base t"
  proof (rule handles_okI)
    show "finite {x. hd_objs t x \<noteq> None}" unfolding fields(1) by (rule finite_holders [OF handles_okD(7) [OF ok]])
    show "c < hd_next t" if "hd_blocks t c \<noteq> None" for c
      using that handles_okD(2) [OF ok, of c] b(1) by (auto simp: fields(2,3) split: if_splits)
    have "y \<notin> sharers b s" using y by (simp add: sharers_def)
    then show "card (sharers c t) = (case hd_blocks t c of None \<Rightarrow> 0 | Some (ptr, n) \<Rightarrow> n)" for c
      using handles_okD(1,3) [OF ok, of c] b by (auto simp: shares fields(2))
    show "m \<noteq> 0" if "hd_blocks t c = Some (ptr', m)" for c ptr' m
      using that handles_okD(4) [OF ok, of c ptr' m] by (auto simp: fields(2,3) split: if_splits)
    show "hd_refs t r = base r + card (owners r t)" for r
      using handles_okD(5) [OF ok, of r] by (simp add: owns fields(4))
  qed
  with t Some fields(1) show ?thesis by auto
qed

lemma move_ok:
  assumes ok: "handles_ok base s" and y: "hd_objs s y = None"
  shows "\<exists>t. ptr_move x y s = (Ok (), t) \<and> handles_ok base t \<and> hd_objs t = (hd_objs s)(x := None, y := hd_objs s x)"
proof -
  define t where "t = s\<lparr>hd_objs := (hd_objs s)(x := None, y := hd_objs s x)\<rparr>"
  have fields: "hd_objs t = (hd_objs s)(x := None, y := hd_objs s x)" "hd_blocks t = hd_blocks s"
    "hd_next t = hd_next s" "hd_refs t = hd_refs s" by (simp_all add: t_def)
  have shares: "card (sharers b t) = card (sharers b s)" for b
  proof (cases "hd_objs s x = Some b")
    case True
    then have "sharers b t = insert y (sharers b s - {x})" "y \<notin> sharers b s" "x \<in> sharers b s"
      using y by (auto simp: sharers_def fields(1))
    then show ?thesis
      using card_Suc_Diff1 [OF handles_okD(1) [OF ok, of b], of x] handles_okD(1) [OF ok, of b] by simp
  next
    case False
    then have "sharers b t = sharers b s" using y by (auto simp: sharers_def fields(1))
    then show ?thesis by simp
  qed
  have "handles_ok base t"
  proof (rule handles_okI)
    show "finite {x. hd_objs t x \<noteq> None}" unfolding fields(1) by (intro finite_holders handles_okD(7) [OF ok])
    show "hd_refs t r = base r + card (owners r t)" for r
      using handles_okD(5) [OF ok, of r] by (simp add: owners_def fields(2,4))
  qed (use handles_okD(2-4) [OF ok] in \<open>simp_all add: shares fields(2,3)\<close>)
  then show ?thesis by (intro exI [of _ t]) (simp add: ptr_move_def act_modify_def t_def)
qed

text \<open>The last share of a block gives the handle back; that is never one too many.\<close>

lemma last_share_ok:
  assumes ok: "handles_ok base s" and x: "hd_objs s x = Some b" and b: "hd_blocks s b = Some (ptr, 1)"
  shows "\<exists>t. ptr_destroy x s = (Ok (), t) \<and> handles_ok base t \<and> hd_objs t = (hd_objs s)(x := None)"
proof -
  have "card (sharers b s) = 1" "x \<in> sharers b s" using handles_okD(3) [OF ok, of b] b x by (simp_all add: sharers_def)
  then have only: "sharers b s = {x}" by (auto simp: card_1_singleton_iff)
  define t where "t = s\<lparr>hd_objs := (hd_objs s)(x := None), hd_blocks := (hd_blocks s)(b := None),
    hd_refs := (\<lambda>r. if ptr = Some r then hd_refs s r - 1 else hd_refs s r)\<rparr>"
  have fields: "hd_objs t = (hd_objs s)(x := None)" "hd_blocks t = (hd_blocks s)(b := None)" "hd_next t = hd_next s"
    "hd_refs t = (\<lambda>r. if ptr = Some r then hd_refs s r - 1 else hd_refs s r)" by (simp_all add: t_def)
  have shares: "sharers c t = sharers c s - {x}" for c by (auto simp: sharers_def fields(1))
  have owns: "owners r t = owners r s - {b}" "b \<in> owners r s \<longleftrightarrow> ptr = Some r" for r
    using b by (auto simp: owners_def fields(2))
  have some: "0 < card (owners r s)" if "ptr = Some r" for r
    using handles_okD(6) [OF ok, of r] owns(2) [of r] that by (auto simp: card_gt_0_iff)
  then have pos: "hd_refs s r \<noteq> 0" if "ptr = Some r" for r
    using handles_okD(5) [OF ok, of r] that by simp
  have "handles_ok base t"
  proof (rule handles_okI)
    show "finite {x. hd_objs t x \<noteq> None}" unfolding fields(1) by (rule finite_holders [OF handles_okD(7) [OF ok]])
    show "c < hd_next t" if "hd_blocks t c \<noteq> None" for c
      using that handles_okD(2) [OF ok, of c] by (auto simp: fields(2,3) split: if_splits)
    have "x \<notin> sharers c s" if "c \<noteq> b" for c using that x by (simp add: sharers_def)
    then show "card (sharers c t) = (case hd_blocks t c of None \<Rightarrow> 0 | Some (ptr, n) \<Rightarrow> n)" for c
      using handles_okD(3) [OF ok, of c] by (cases "c = b") (simp_all add: shares only fields(2))
    show "m \<noteq> 0" if "hd_blocks t c = Some (ptr', m)" for c ptr' m
      using that handles_okD(4) [OF ok, of c ptr' m] by (auto simp: fields(2) split: if_splits)
    show "hd_refs t r = base r + card (owners r t)" for r
      using handles_okD(5,6) [OF ok, of r] some [of r] owns(2) [of r] by (cases "ptr = Some r") (simp_all add: owns(1) fields(4))
  qed
  moreover have "ptr_destroy x s = (Ok (), t)"
    using x b pos by (simp add: ptr_destroy_def release_def free_ptr_run t_def cong: if_cong)
  ultimately show ?thesis using fields(1) by blast
qed

lemma dropped_share_ok:
  assumes ok: "handles_ok base s" and x: "hd_objs s x = Some b" and b: "hd_blocks s b = Some (ptr, n)" "n \<noteq> 1"
  shows "\<exists>t. ptr_destroy x s = (Ok (), t) \<and> handles_ok base t \<and> hd_objs t = (hd_objs s)(x := None)"
proof -
  define t where "t = s\<lparr>hd_objs := (hd_objs s)(x := None), hd_blocks := (hd_blocks s)(b := Some (ptr, n - 1))\<rparr>"
  have fields: "hd_objs t = (hd_objs s)(x := None)" "hd_blocks t = (hd_blocks s)(b := Some (ptr, n - 1))"
    "hd_next t = hd_next s" "hd_refs t = hd_refs s" by (simp_all add: t_def)
  have n: "1 < n" using handles_okD(4) [OF ok b(1)] b(2) by simp
  have shares: "sharers c t = sharers c s - {x}" for c by (auto simp: sharers_def fields(1))
  have held: "x \<in> sharers c s \<longleftrightarrow> c = b" for c using x by (auto simp: sharers_def)
  have owns: "owners r t = owners r s" for r using b(1) by (auto simp: owners_def fields(2))
  have "handles_ok base t"
  proof (rule handles_okI)
    show "finite {x. hd_objs t x \<noteq> None}" unfolding fields(1) by (rule finite_holders [OF handles_okD(7) [OF ok]])
    show "c < hd_next t" if "hd_blocks t c \<noteq> None" for c
      using that handles_okD(2) [OF ok, of c] b(1) by (auto simp: fields(2,3) split: if_splits)
    show "card (sharers c t) = (case hd_blocks t c of None \<Rightarrow> 0 | Some (ptr, n) \<Rightarrow> n)" for c
      using handles_okD(1,3) [OF ok, of c] held [of c] b(1) by (cases "c = b") (simp_all add: shares fields(2))
    show "m \<noteq> 0" if "hd_blocks t c = Some (ptr', m)" for c ptr' m
      using that handles_okD(4) [OF ok, of c ptr' m] n by (auto simp: fields(2) split: if_splits)
    show "hd_refs t r = base r + card (owners r t)" for r
      using handles_okD(5) [OF ok, of r] by (simp add: owns fields(4))
  qed
  moreover have "ptr_destroy x s = (Ok (), t)" using x b n by (simp add: ptr_destroy_def release_def t_def)
  ultimately show ?thesis using fields(1) by blast
qed

lemma destroy_ok:
  assumes ok: "handles_ok base s"
  shows "\<exists>t. ptr_destroy x s = (Ok (), t) \<and> handles_ok base t \<and> hd_objs t = (hd_objs s)(x := None)"
proof (cases "hd_objs s x")
  case None
  then have "ptr_destroy x s = (Ok (), s)"
    by (auto simp: ptr_destroy_def release_def fun_upd_idem intro!: handles.equality)
  with ok None show ?thesis by (simp add: fun_upd_idem)
next
  case (Some b)
  obtain ptr n where "hd_blocks s b = Some (ptr, n)" by (rule held_block [OF ok Some])
  then show ?thesis using last_share_ok [OF ok Some] dropped_share_ok [OF ok Some] by (cases "n = 1") auto
qed

lemma assign_ok:
  assumes ok: "handles_ok base s" and o: "hd_objs s o' = None" "o' \<noteq> x" "o' \<noteq> y"
  shows "\<exists>t. ptr_assign x y o' s = (Ok (), t) \<and> handles_ok base t \<and> hd_objs t = (hd_objs s)(x := hd_objs s y)"
proof -
  obtain s1 where 1: "ptr_copy y o' s = (Ok (), s1)" "handles_ok base s1" "hd_objs s1 = (hd_objs s)(o' := hd_objs s y)"
    using copy_ok [OF ok o(1)] by blast
  obtain s2 where 2: "ptr_destroy x s1 = (Ok (), s2)" "handles_ok base s2" "hd_objs s2 = (hd_objs s1)(x := None)"
    using destroy_ok [OF 1(2)] by blast
  have "hd_objs s2 x = None" by (simp add: 2(3))
  then obtain s3 where 3: "ptr_move o' x s2 = (Ok (), s3)" "handles_ok base s3"
    "hd_objs s3 = (hd_objs s2)(o' := None, x := hd_objs s2 o')"
    using move_ok [OF 2(2)] by blast
  obtain s4 where 4: "ptr_destroy o' s3 = (Ok (), s4)" "handles_ok base s4" "hd_objs s4 = (hd_objs s3)(o' := None)"
    using destroy_ok [OF 3(2)] by blast
  have "hd_objs s4 = (hd_objs s)(x := hd_objs s y)"
    using o by (auto simp: 1(3) 2(3) 3(3) 4(3) fun_eq_iff)
  then show ?thesis using 1(1) 2(1) 3(1) 4(1,2) by (intro exI [of _ s4]) (simp add: ptr_assign_def act_then_Ok)
qed

section \<open>Any use of the objects\<close>

text \<open>
  Constructors make an object that holds nothing yet; an assignment's parameter is an object of its
  own.
\<close>

inductive handle_step :: "handles \<Rightarrow> handles \<Rightarrow> bool" where
  constructs: "hd_objs s x = None \<Longrightarrow> ptr_of_raw x ptr s = (Ok (), t) \<Longrightarrow> handle_step s t"
| copies: "hd_objs s y = None \<Longrightarrow> ptr_copy x y s = (Ok (), t) \<Longrightarrow> handle_step s t"
| moves: "hd_objs s y = None \<Longrightarrow> ptr_move x y s = (Ok (), t) \<Longrightarrow> handle_step s t"
| assigns: "hd_objs s o' = None \<Longrightarrow> o' \<noteq> x \<Longrightarrow> o' \<noteq> y \<Longrightarrow> ptr_assign x y o' s = (Ok (), t) \<Longrightarrow> handle_step s t"
| wraps: "hd_objs s x = None \<Longrightarrow> ptr_type_new p x s = (Ok (), t) \<Longrightarrow> handle_step s t"
| destroys: "ptr_destroy x s = (Ok (), t) \<Longrightarrow> handle_step s t"

definition no_handles :: "(raw \<Rightarrow> nat) \<Rightarrow> handles \<Rightarrow> bool" where
  "no_handles base s \<longleftrightarrow> hd_objs s = Map.empty \<and> hd_blocks s = Map.empty \<and> hd_refs s = base"

lemma no_handles_ok: "no_handles base s \<Longrightarrow> handles_ok base s"
  by (simp add: no_handles_def handles_ok_def sharers_def owners_def)

lemma handles_ok_step: "handle_step s t \<Longrightarrow> handles_ok base s \<Longrightarrow> handles_ok base t"
  by (induction rule: handle_step.induct)
     (metis of_raw_ok copy_ok move_ok assign_ok destroy_ok ptr_type_new_def prod.inject)+

interpretation ownership: transition_system "no_handles base" handle_step "handles_ok base" for base
  by unfold_locales (auto intro: no_handles_ok handles_ok_step)

text \<open>C14: whatever is constructed, copied, moved, assigned and destroyed, in any order: destroying and assigning
  an object is always defined, so that no handle is given back twice or used after it; an object that
  holds a handle keeps it alive; and when no object holds anything, every handle has been given back,
  exactly as often as it was taken.\<close>

theorem handles_balanced:
  assumes "no_handles base s" "handle_step\<^sup>*\<^sup>* s t"
  shows "fst (ptr_destroy x t) = Ok () \<and>
    (hd_objs t o' = None \<longrightarrow> o' \<noteq> x \<longrightarrow> o' \<noteq> y \<longrightarrow> fst (ptr_assign x y o' t) = Ok ()) \<and>
    (\<forall>b r n. hd_objs t x = Some b \<longrightarrow> hd_blocks t b = Some (Some r, n) \<longrightarrow> base r < hd_refs t r) \<and>
    (hd_objs t = Map.empty \<longrightarrow> hd_refs t = base)"
proof -
  have ok: "handles_ok base t" by (rule ownership.reachable_inv [OF assms])
  have "fst (ptr_destroy x t) = Ok ()" using destroy_ok [OF ok] by (metis fst_conv)
  moreover have "fst (ptr_assign x y o' t) = Ok ()" if "hd_objs t o' = None" "o' \<noteq> x" "o' \<noteq> y"
    using assign_ok [OF ok that] by (metis fst_conv)
  moreover have "base r < hd_refs t r" if "hd_blocks t b = Some (Some r, n)" for b r n
  proof -
    have "b \<in> owners r t" using that by (auto simp: owners_def)
    then have "0 < card (owners r t)" using handles_okD(6) [OF ok] by (auto simp: card_gt_0_iff)
    then show ?thesis by (simp add: handles_okD(5) [OF ok])
  qed
  moreover have "hd_refs t = base" if "hd_objs t = Map.empty"
  proof -
    have "sharers b t = {}" for b using that by (simp add: sharers_def)
    then have "hd_blocks t b = None" for b
      using handles_okD(3,4) [OF ok, of b] by (cases "hd_blocks t b") (auto simp: card_eq_0_iff)
    then show ?thesis using handles_okD(5) [OF ok] by (simp add: owners_def fun_eq_iff)
  qed
  ultimately show ?thesis by blast
qed


text \<open>The handler of an event counts the domain it is lent, wraps it and lets it go: the caller's count is
  as it was.\<close>

lemma lent_handle_balanced:
  assumes ok: "handles_ok base s" and free: "hd_objs s x = None" "hd_objs s y = None" "x \<noteq> y"
  shows "\<exists>t. act_then (ptr_of_raw x (Some r)) (act_then (ptr_type_new x y) (act_then (ptr_destroy x) (ptr_destroy y))) s = (Ok (), t) \<and>
    handles_ok base t \<and> hd_objs t = hd_objs s"
proof -
  obtain s1 where 1: "ptr_of_raw x (Some r) s = (Ok (), s1)" "handles_ok base s1" "hd_objs s1 = (hd_objs s)(x := Some (hd_next s))"
    using of_raw_ok [OF ok free(1)] by blast
  have "hd_objs s1 y = None" using free by (simp add: 1(3))
  then obtain s2 where 2: "ptr_move x y s1 = (Ok (), s2)" "handles_ok base s2" "hd_objs s2 = (hd_objs s1)(x := None, y := hd_objs s1 x)"
    using move_ok [OF 1(2)] by blast
  obtain s3 where 3: "ptr_destroy x s2 = (Ok (), s3)" "handles_ok base s3" "hd_objs s3 = (hd_objs s2)(x := None)"
    using destroy_ok [OF 2(2)] by blast
  obtain s4 where 4: "ptr_destroy y s3 = (Ok (), s4)" "handles_ok base s4" "hd_objs s4 = (hd_objs s3)(y := None)"
    using destroy_ok [OF 3(2)] by blast
  have "hd_objs s4 = hd_objs s" using free by (auto simp: 1(3) 2(3) 3(3) 4(3) fun_eq_iff)
  with 1(1) 2(1) 3(1) 4(1,2) show ?thesis by (intro exI [of _ s4]) (simp add: act_then_Ok ptr_type_new_def)
qed

definition one_lent :: handles where
  "one_lent = \<lparr>hd_objs = Map.empty, hd_blocks = Map.empty, hd_refs = (\<lambda>r. if r = 7 then 1 else 0), hd_next = 0\<rparr>"

theorem handles_balanced_witness:
  "\<exists>t u. handle_step\<^sup>*\<^sup>* one_lent t \<and> hd_objs t = Map.empty(0 \<mapsto> 0, 1 \<mapsto> 0) \<and> fst (ptr_destroy 0 t) = Ok () \<and>
     handle_step\<^sup>*\<^sup>* t u \<and> hd_refs u = (\<lambda>r. if r = 7 then 1 else 0)"
proof -
  let ?base = "\<lambda>r :: raw. if r = 7 then 1 else 0 :: nat"
  have start: "no_handles ?base one_lent" by (simp add: no_handles_def one_lent_def)
  obtain s1 where 1: "ptr_of_raw 0 (Some 7) one_lent = (Ok (), s1)" "handles_ok ?base s1" "hd_objs s1 = Map.empty(0 \<mapsto> 0)"
    using of_raw_ok [OF no_handles_ok [OF start], of 0 "Some 7"] by (auto simp: one_lent_def)
  obtain t where 2: "ptr_copy 0 1 s1 = (Ok (), t)" "handles_ok ?base t" "hd_objs t = Map.empty(0 \<mapsto> 0, 1 \<mapsto> 0)"
    using copy_ok [OF 1(2), of 1 0] by (auto simp: 1(3))
  obtain s3 where 3: "ptr_destroy 0 t = (Ok (), s3)" "handles_ok ?base s3" "hd_objs s3 = (hd_objs t)(0 := None)"
    using destroy_ok [OF 2(2)] by blast
  obtain u where 4: "ptr_destroy 1 s3 = (Ok (), u)" "hd_objs u = (hd_objs s3)(1 := None)"
    using destroy_ok [OF 3(2)] by blast
  have "handle_step one_lent s1" by (rule handle_step.constructs [OF _ 1(1)]) (simp add: one_lent_def)
  moreover have "handle_step s1 t" by (rule handle_step.copies [OF _ 2(1)]) (simp add: 1(3))
  ultimately have t: "handle_step\<^sup>*\<^sup>* one_lent t" by simp
  have u: "handle_step\<^sup>*\<^sup>* t u" using handle_step.destroys [OF 3(1)] handle_step.destroys [OF 4(1)] by simp
  have "hd_objs u = Map.empty" by (auto simp: 4(2) 3(3) 2(3) fun_eq_iff)
  then have "hd_refs u = ?base" using handles_balanced [OF start, of u] t u by (meson rtranclp_trans)
  moreover have "fst (ptr_destroy 0 t) = Ok ()" using 3(1) by simp
  ultimately show ?thesis using t u 2(3) by blast
qed

end
