(* ===== verification/Console.thy ===== *)
theory Console
  imports Logging
begin

text \<open>
  What \<open>util/logging.cpp\<close> and \<open>util/util.cpp\<close> get from the C library: the time stamp of a log line, the
  temporary directory, and the printing of messages with a heading.
\<close>

section \<open>The time stamp\<close>

text \<open>
  The broken-down local time, which \<open>localtime\<close> gives or, for a year it cannot represent, does not. The
  month counts from 0; \<open>tm_year\<close> is the full year here.
\<close>

record tm =
  tm_mday :: nat
  tm_mon :: nat
  tm_year :: nat
  tm_hour :: nat
  tm_min :: nat
  tm_sec :: nat

definition tm_ok :: "tm \<Rightarrow> bool" where
  "tm_ok t \<longleftrightarrow> 1 \<le> tm_mday t \<and> tm_mday t \<le> 31 \<and> tm_mon t < 12 \<and> tm_hour t < 24 \<and> tm_min t < 60 \<and> tm_sec t \<le> 60"

definition digit :: "nat \<Rightarrow> char" where
  "digit n = ''0123456789'' ! n"

definition two_digits :: "nat \<Rightarrow> string" where
  "two_digits n = [digit (n div 10), digit (n mod 10)]"

fun decimal :: "nat \<Rightarrow> string" where
  "decimal n = (if n < 10 then [digit n] else decimal (n div 10) @ [digit (n mod 10)])"

declare decimal.simps [simp del]

definition MONTHS :: "string list" where
  "MONTHS = [''Jan'', ''Feb'', ''Mar'', ''Apr'', ''May'', ''Jun'', ''Jul'', ''Aug'', ''Sep'', ''Oct'', ''Nov'', ''Dec'']"

text \<open>The format \<open>%d/%b/%Y %H:%M:%S\<close> in the C locale.\<close>

definition formatted :: "tm \<Rightarrow> string" where
  "formatted t = two_digits (tm_mday t) @ ''/'' @ MONTHS ! tm_mon t @ ''/'' @ decimal (tm_year t) @ '' '' @
     two_digits (tm_hour t) @ '':'' @ two_digits (tm_min t) @ '':'' @ two_digits (tm_sec t)"

text \<open>
  \<open>strftime\<close> writes into a buffer of the size of the literal, its null character included; when the text
  and a null character do not fit, the contents are indeterminate, and are read all the same.
\<close>

definition strftime :: "nat \<Rightarrow> string \<Rightarrow> string option" where
  "strftime room s = (if length s + 1 \<le> room then Some s else None)"

definition timestamp :: "tm option \<Rightarrow> string outcome" where
  "timestamp now = (case now of
      None \<Rightarrow> Undef
    | Some t \<Rightarrow> (case strftime (length ''dd/Mon/yyyy hh:mm:ss'' + 1) (formatted t) of None \<Rightarrow> Undef | Some s \<Rightarrow> Ok s))"

text \<open>\<open>print\<close> with the time it asks for; without time stamps the clock is not read.\<close>

definition logger_print :: "('w \<Rightarrow> tm option \<times> 'w) \<Rightarrow> bool \<Rightarrow> string \<Rightarrow> string \<Rightarrow> ('w, string) act" where
  "logger_print clock time prefix message =
     (if time
      then act_bind (\<lambda>w. let (t, w') = clock w in (timestamp t, w')) (\<lambda>now. act_return (log_line_text now True prefix message))
      else act_return (log_line_text [] False prefix message))"

lemma length_decimal: "length (decimal n) = (if n < 10 then 1 else Suc (length (decimal (n div 10))))"
  by (subst decimal.simps) simp

lemma decimal_fits: "length (decimal n) \<le> 4 \<longleftrightarrow> n < 10000"
proof -
  have step: "length (decimal n) \<le> Suc k \<longleftrightarrow> n < 10 \<or> length (decimal (n div 10)) \<le> k" if "0 < k" for n k
    using that by (subst length_decimal) auto
  have none: "length (decimal n) \<le> 1 \<longleftrightarrow> n < 10" for n
    using length_decimal [of n] length_decimal [of "n div 10"] by (auto split: if_splits)
  have four: "(4 :: nat) = Suc (Suc (Suc (Suc 0)))" by simp
  have "length (decimal n) \<le> 4 \<longleftrightarrow> n < 10 \<or> n div 10 < 10 \<or> n div 10 div 10 < 10 \<or> n div 10 div 10 div 10 < 10"
    unfolding four using step [of 3 n] step [of 2 "n div 10"] step [of 1 "n div 10 div 10"] none [of "n div 10 div 10 div 10"]
    by (simp add: numeral_3_eq_3 numeral_2_eq_2)
  then show ?thesis by (auto simp: div_less_iff_less_mult)
qed

lemma length_month: "m < 12 \<Longrightarrow> length (MONTHS ! m) = 3"
  by (simp add: MONTHS_def less_Suc_eq numeral_nat) auto

lemma length_formatted: "tm_ok t \<Longrightarrow> length (formatted t) = 16 + length (decimal (tm_year t))"
  by (simp add: formatted_def tm_ok_def two_digits_def length_month)

text \<open>The time stamp of a log line fits its buffer exactly up to the year 9999; from then on, and when
  the local time is not known, uninitialised memory or a null pointer is read.\<close>

theorem timestamp_defined:
  assumes "\<And>t. now = Some t \<Longrightarrow> tm_ok t"
  shows "timestamp now = (case now of
      Some t \<Rightarrow> (if tm_year t < 10000 then Ok (formatted t) else Undef) | None \<Rightarrow> Undef)"
proof (cases now)
  case (Some t)
  then have "length (formatted t) + 1 \<le> 21 \<longleftrightarrow> tm_year t < 10000"
    using length_formatted [OF assms] decimal_fits [of "tm_year t"] by auto
  with Some show ?thesis by (auto simp: timestamp_def strftime_def)
qed (simp add: timestamp_def)

theorem timestamp_defined_witness:
  "timestamp (Some \<lparr>tm_mday = 31, tm_mon = 11, tm_year = 9999, tm_hour = 23, tm_min = 59, tm_sec = 60\<rparr>) =
     Ok ''31/Dec/9999 23:59:60'' \<and>
   timestamp (Some \<lparr>tm_mday = 1, tm_mon = 0, tm_year = 10000, tm_hour = 0, tm_min = 0, tm_sec = 0\<rparr>) = Undef"
proof -
  let ?l = "\<lparr>tm_mday = 31, tm_mon = 11, tm_year = 9999, tm_hour = 23, tm_min = 59, tm_sec = 60\<rparr>"
  let ?f = "\<lparr>tm_mday = 1, tm_mon = 0, tm_year = 10000, tm_hour = 0, tm_min = 0, tm_sec = 0\<rparr>"
  have "timestamp (Some ?l) = Ok (formatted ?l)" by (subst timestamp_defined) (auto simp: tm_ok_def)
  moreover have "formatted ?l = ''31/Dec/9999 23:59:60''"
    by (simp add: formatted_def two_digits_def digit_def MONTHS_def decimal.simps)
  moreover have "timestamp (Some ?f) = Undef" by (subst timestamp_defined) (auto simp: tm_ok_def)
  ultimately show ?thesis by simp
qed

section \<open>Temporary directories and headings\<close>

text \<open>\<open>mkdtemp\<close> gives the name with its last six characters replaced, or a null pointer and \<open>errno\<close>.\<close>

record 'w tmp_os =
  to_mkdtemp :: "string \<Rightarrow> 'w \<Rightarrow> string option \<times> 'w"
  to_errno :: "'w \<Rightarrow> nat"
  to_strerror :: "nat \<Rightarrow> string"

definition make_tmpdir :: "'w tmp_os \<Rightarrow> ('w, string) act" where
  "make_tmpdir sys =
     act_bind (\<lambda>w. let (r, w') = to_mkdtemp sys ''/tmp/webvirtd-XXXXXX'' w in (Ok r, w')) (\<lambda>result. case result of
       None \<Rightarrow> act_bind (act_read (to_errno sys)) (\<lambda>errno.
         act_throw (Runtime_Error (''mkdtemp errno = '' @ decimal errno @ '' ('' @ to_strerror sys errno @ '')'')))
     | Some dir \<Rightarrow> act_return dir)"

lemma make_tmpdir_run:
  "to_mkdtemp sys ''/tmp/webvirtd-XXXXXX'' w = (Some d, w') \<Longrightarrow> make_tmpdir sys w = (Ok d, w')"
  "to_mkdtemp sys ''/tmp/webvirtd-XXXXXX'' w = (None, w') \<Longrightarrow> make_tmpdir sys w =
     (Throw (Runtime_Error (''mkdtemp errno = '' @ decimal (to_errno sys w') @ '' ('' @ to_strerror sys (to_errno sys w') @ '')'')), w')"
  by (simp_all add: make_tmpdir_def act_bind_def act_read_def act_throw_def act_return_def)

definition print_stdout :: "string \<Rightarrow> string \<Rightarrow> 'a process_scheme \<Rightarrow> 'a process_scheme" where
  "print_stdout heading value p = p\<lparr>pr_out := pr_out p @ ''*** '' @ heading @ '' ***'' @ newline @ value @ newline @
     ''*** END '' @ heading @ '' ***'' @ newline\<rparr>"

definition print_request :: "string \<Rightarrow> 'a process_scheme \<Rightarrow> 'a process_scheme" where
  "print_request = print_stdout ''REQUEST''"

definition print_response :: "string \<Rightarrow> 'a process_scheme \<Rightarrow> 'a process_scheme" where
  "print_response = print_stdout ''RESPONSE''"

end
