(* ===== verification/Syscalls.thy ===== *)
theory Syscalls
  imports Main_Program Console
begin

text \<open>
  \<open>syscall.cpp\<close>: the class every system call of the program goes through, so that the tests can replace
  it. The C library behind it is a parameter; the calls \<open>main\<close> makes are those of the class.
\<close>

record passwd =
  pw_name :: string
  pw_uid :: nat

record 'w c_library =
  lib_popen :: "string \<Rightarrow> string \<Rightarrow> 'w \<Rightarrow> nat option \<times> 'w"
  lib_pclose :: "nat \<Rightarrow> 'w \<Rightarrow> int \<times> 'w"
  lib_fgets :: "int \<Rightarrow> nat \<Rightarrow> 'w \<Rightarrow> string option \<times> 'w"
  lib_remove :: "string \<Rightarrow> ('w, bool) act"
  lib_remove_all :: "string \<Rightarrow> ('w, nat) act"
  lib_mkdtemp :: "string \<Rightarrow> 'w \<Rightarrow> string option \<times> 'w"
  lib_fork :: "'w \<Rightarrow> int \<times> 'w"
  lib_getuid :: "'w \<Rightarrow> nat \<times> 'w"
  lib_getpwuid :: "nat \<Rightarrow> 'w \<Rightarrow> passwd option \<times> 'w"
  lib_getpwnam :: "string \<Rightarrow> 'w \<Rightarrow> passwd option \<times> 'w"
  lib_getgid :: "'w \<Rightarrow> nat \<times> 'w"
  lib_getgrnam :: "string \<Rightarrow> 'w \<Rightarrow> group option \<times> 'w"
  lib_getgrgid :: "nat \<Rightarrow> 'w \<Rightarrow> group option \<times> 'w"
  lib_chown :: "string \<Rightarrow> nat \<Rightarrow> nat \<Rightarrow> 'w \<Rightarrow> int \<times> 'w"
  lib_getenv :: "string \<Rightarrow> 'w \<Rightarrow> string option \<times> 'w"
  lib_exit :: "int \<Rightarrow> 'w \<Rightarrow> 'w"

definition popen where "popen lib command mode = lib_popen lib command mode"
definition pclose where "pclose lib stream = lib_pclose lib stream"
definition fgets where "fgets lib n stream = lib_fgets lib n stream"
definition fs_remove where "fs_remove lib p = lib_remove lib p"

text \<open>The number of removed files becomes a truth value.\<close>

definition fs_remove_all :: "'w c_library \<Rightarrow> string \<Rightarrow> ('w, bool) act" where
  "fs_remove_all lib p = act_bind (lib_remove_all lib p) (\<lambda>n. act_return (n \<noteq> 0))"

definition mkdtemp where "mkdtemp lib template = lib_mkdtemp lib template"
definition fork where "fork lib = lib_fork lib"
definition getuid where "getuid lib = lib_getuid lib"
definition getpwuid where "getpwuid lib uid = lib_getpwuid lib uid"
definition getpwnam where "getpwnam lib name = lib_getpwnam lib name"
definition getgid where "getgid lib = lib_getgid lib"
definition getgrnam where "getgrnam lib name = lib_getgrnam lib name"
definition getgrgid where "getgrgid lib gid = lib_getgrgid lib gid"
definition chown where "chown lib path uid gid = lib_chown lib path uid gid"
definition getenv where "getenv lib name = lib_getenv lib name"

text \<open>The call does not return.\<close>

definition exit_process :: "'w c_library \<Rightarrow> int \<Rightarrow> ('w, unit) act" where
  "exit_process lib return_code = (\<lambda>w. (Hang, lib_exit lib return_code w))"

text \<open>The system \<open>main\<close>, the user lookup of the middleware and \<open>make_tmpdir\<close> see.\<close>

definition posix_of :: "'w c_library \<Rightarrow> 'w posix \<Rightarrow> 'w posix" where
  "posix_of lib px = px\<lparr>px_getenv := getenv lib, px_getuid := getuid lib, px_getgid := getgid lib,
     px_getgrgid := getgrgid lib, px_getgrnam := getgrnam lib, px_chown := chown lib, px_fs_remove := fs_remove lib\<rparr>"

definition tmp_os_of :: "'w c_library \<Rightarrow> 'w tmp_os \<Rightarrow> 'w tmp_os" where
  "tmp_os_of lib os = os\<lparr>to_mkdtemp := mkdtemp lib\<rparr>"

lemma group_known_posix: "group_known (posix_of lib px) name gid \<longleftrightarrow>
    (\<exists>g w w'. lib_getgrnam lib name w = (Some g, w') \<and> gr_gid g = gid)"
  by (simp add: group_known_def posix_of_def getgrnam_def)

end
