(* ===== verification/Connection_Objects.thy ===== *)
theory Connection_Objects
  imports Connection
begin

text \<open>
  The rest of \<open>virt/connection.cpp\<close>: construction by user, copies and assignments of connection objects,
  and their simple queries.
\<close>

definition connection_user :: "connection \<Rightarrow> string" where
  "connection_user c = vc_user c"

definition connection_closed :: "connection \<Rightarrow> bool" where
  "connection_closed c = vc_closed c"

definition connection_error :: "connection \<Rightarrow> int" where
  "connection_error c = vc_errno c"

definition connection_strerror :: "'w os \<Rightarrow> connection \<Rightarrow> string" where
  "connection_strerror os c = os_strerror os (connection_error c)"

definition connection_ne :: "connection \<Rightarrow> connection \<Rightarrow> bool" where
  "connection_ne c d \<longleftrightarrow> \<not> connection_eq c d"

text \<open>The copy constructor and the assignment take the four members one by one.\<close>

definition connection_copy :: "connection \<Rightarrow> connection" where
  "connection_copy c = \<lparr>vc_ptr = vc_ptr c, vc_errno = vc_errno c, vc_closed = vc_closed c, vc_user = vc_user c\<rparr>"

definition connection_assign :: "connection \<Rightarrow> connection \<Rightarrow> connection" where
  "connection_assign c d = c\<lparr>vc_ptr := vc_ptr d, vc_errno := vc_errno d, vc_closed := vc_closed d, vc_user := vc_user d\<rparr>"

text \<open>The constructor that connects: the object is lost with the exception.\<close>

definition connection_for :: "'w libvirt_c \<Rightarrow> 'w os \<Rightarrow> string \<Rightarrow> ('w, connection) act" where
  "connection_for lv os user = (\<lambda>w. case connect lv os user (new_connection, w) of
      (Ok u, (c, w')) \<Rightarrow> (Ok c, w')
    | (Throw e, (c, w')) \<Rightarrow> (Throw e, w')
    | (Undef, (c, w')) \<Rightarrow> (Undef, w')
    | (Hang, (c, w')) \<Rightarrow> (Hang, w'))"

lemma connection_copy_same: "connection_copy c = c" "connection_assign c d = d" "connection_eq (connection_copy c) c"
  by (simp_all add: connection_copy_def connection_assign_def connection_eq_def)

text \<open>
  The close callback is registered for the object that connected. A copy compares equal to it and
  shares its handle, and stays open when the handle closes.
\<close>

lemma copy_misses_close:
  assumes "connection_is_open c" "close_func c = (r, c')"
  shows "\<not> connection_is_open c' \<and> connection_is_open (connection_copy c) \<and> connection_eq (connection_copy c) c'"
  using assms
  by (auto simp: connection_is_open_def connection_copy_def connection_eq_def close_func_def act_then_def act_bind_def
      act_modify_def act_throw_def)

lemma connection_for_Ok:
  assumes "connection_for lv os user w = (Ok c, w')"
  shows "connection_is_open c \<and> vc_user c = user \<and> vc_ptr c \<noteq> None"
  using assms
  by (auto simp: connection_for_def connect_def new_connection_def connection_is_open_def act_bind_def act_then_def
      act_read_def act_modify_def act_throw_def on_world_def act_return_def
      split: prod.splits outcome.splits option.splits if_splits)

section \<open>The stopwatch\<close>

text \<open>\<open>util/bench.hpp\<close>, with which the pool times its connects: the clock is read when it is made and when
  it is asked to end.\<close>

record bench =
  bn_start :: int
  bn_end :: int

definition bench_elapsed :: "bench \<Rightarrow> rat" where
  "bench_elapsed b = elapsed_seconds (bn_start b) (bn_end b)"

definition bench_start :: "'w os \<Rightarrow> bench \<Rightarrow> 'w \<Rightarrow> bench \<times> 'w" where
  "bench_start os b w = (let (t, w') = os_now os w in (b\<lparr>bn_start := t\<rparr>, w'))"

definition bench_end :: "'w os \<Rightarrow> bench \<Rightarrow> 'w \<Rightarrow> rat \<times> bench \<times> 'w" where
  "bench_end os b w = (let (t, w') = os_now os w; b' = b\<lparr>bn_end := t\<rparr> in (bench_elapsed b', b', w'))"

lemma bench_measures:
  assumes "os_now os w = (t0, w1)" "os_now os w2 = (t1, w3)" "t0 \<le> t1"
  shows "fst (bench_end os (fst (bench_start os b w)) w2) = of_int (t1 - t0) / 1000000000 \<and>
    0 \<le> fst (bench_end os (fst (bench_start os b w)) w2)"
  using assms by (simp add: bench_start_def bench_end_def bench_elapsed_def elapsed_seconds_def Let_def)

end
