(* ===== verification/Io_Context.thy ===== *)
theory Io_Context
  imports Prelude
begin

text \<open>
  \<open>http/io_context.cpp\<close>, \<open>state.hpp\<close>, \<open>stubs/io_context.cpp\<close> and \<open>thread/worker.cpp\<close>: the event loop the
  handlers run on, how it is stopped, and the thread that runs it. The loop is the one of
  \<open>boost::asio\<close> on one thread: a queue of handlers, run in the order they were posted.
\<close>

section \<open>The loop\<close>

text \<open>
  A handler of the program, which changes the state and may post more, or the call of the library's
  \<open>stop\<close> that \<open>io_context::stop\<close> posts. \<open>io_stopped\<close> stays set until the loop is restarted.
\<close>

datatype 'h job = Work 'h | Stop_Loop

record ('h, 's) io_context =
  io_queue :: "'h job list"
  io_stopped :: bool
  io_state :: 's

definition io_post :: "'h job \<Rightarrow> ('h, 's) io_context \<Rightarrow> ('h, 's) io_context" where
  "io_post j io = io\<lparr>io_queue := io_queue io @ [j]\<rparr>"

definition io_stop :: "('h, 's) io_context \<Rightarrow> ('h, 's) io_context" where
  "io_stop io = io_post Stop_Loop io"

definition io_restart :: "('h, 's) io_context \<Rightarrow> ('h, 's) io_context" where
  "io_restart io = io\<lparr>io_stopped := False\<rparr>"

text \<open>
  \<open>run\<close> returns the number of handlers it ran. It ends when the queue is empty or the loop is stopped,
  which may be never.
\<close>

partial_function (option) io_loop ::
    "('h \<Rightarrow> 's \<Rightarrow> 's \<times> 'h job list) \<Rightarrow> ('h, 's) io_context \<Rightarrow> nat \<Rightarrow> (nat \<times> ('h, 's) io_context) option" where
  "io_loop f io n = (case io_queue io of
      [] \<Rightarrow> Some (n, io)
    | Stop_Loop # q \<Rightarrow> Some (n + 1, io\<lparr>io_queue := q, io_stopped := True\<rparr>)
    | Work h # q \<Rightarrow> (let (s, posted) = f h (io_state io) in
        io_loop f (io\<lparr>io_queue := q @ posted, io_state := s\<rparr>) (n + 1)))"

definition io_run :: "('h \<Rightarrow> 's \<Rightarrow> 's \<times> 'h job list) \<Rightarrow> ('h, 's) io_context \<Rightarrow> (nat \<times> ('h, 's) io_context) option" where
  "io_run f io = (if io_stopped io then Some (0, io) else io_loop f io 0)"

definition stub_io_run :: "nat \<Rightarrow> nat" where
  "stub_io_run iterations = iterations"

text \<open>The \<open>run\<close> of the websocket client restarts the loop first.\<close>

definition wsc_run :: "('h \<Rightarrow> 's \<Rightarrow> 's \<times> 'h job list) \<Rightarrow> ('h, 's) io_context \<Rightarrow> (nat \<times> ('h, 's) io_context) option" where
  "wsc_run f io = io_run f (io_restart io)"

section \<open>Stopping\<close>

text \<open>What handlers do one after another, and all they post.\<close>

fun run_all :: "('h \<Rightarrow> 's \<Rightarrow> 's \<times> 'h job list) \<Rightarrow> 'h list \<Rightarrow> 's \<Rightarrow> 's \<times> 'h job list" where
  "run_all f [] s = (s, [])"
| "run_all f (h # hs) s = (let (s', posted) = f h s; (s'', more) = run_all f hs s' in (s'', posted @ more))"

lemma io_loop_stop:
  assumes "io_queue io = map Work hs @ Stop_Loop # q"
  shows "io_loop f io n = Some (n + length hs + 1, io\<lparr>io_queue := q @ snd (run_all f hs (io_state io)),
    io_state := fst (run_all f hs (io_state io)), io_stopped := True\<rparr>)"
  using assms
proof (induction hs arbitrary: io n q)
  case Nil
  then show ?case by (subst io_loop.simps) (auto intro!: io_context.equality)
next
  case (Cons h hs)
  obtain s posted where f: "f h (io_state io) = (s, posted)" by force
  let ?io = "io\<lparr>io_queue := map Work hs @ Stop_Loop # q @ posted, io_state := s\<rparr>"
  have "io_loop f io n = io_loop f ?io (n + 1)" using Cons.prems f by (subst io_loop.simps) simp
  also have "\<dots> = Some (n + 1 + length hs + 1, ?io\<lparr>io_queue := (q @ posted) @ snd (run_all f hs s),
      io_state := fst (run_all f hs s), io_stopped := True\<rparr>)"
    using Cons.IH [of ?io "q @ posted" "n + 1"] by simp
  finally show ?case using f by (simp add: case_prod_beta Let_def)
qed



section \<open>A worker\<close>

text \<open>
  The thread object: none, running the loop, or over and not joined. \<open>join\<close> of a running thread waits
  until it is over.
\<close>

datatype thread_state = No_Thread | In_Loop | Loop_Over

definition worker_new :: thread_state where
  "worker_new = No_Thread"

definition joinable :: "thread_state \<Rightarrow> bool" where
  "joinable t \<longleftrightarrow> t \<noteq> No_Thread"

text \<open>Assigning a new thread to an object that has a joinable one ends the program.\<close>

definition worker_start :: "(thread_state, unit) act" where
  "worker_start = act_bind (act_read joinable) (\<lambda>j. if j then act_undef else act_modify (\<lambda>_. In_Loop))"

definition worker_join :: "(thread_state, unit) act" where
  "worker_join = act_bind (act_read joinable) (\<lambda>j. if j then act_modify (\<lambda>_. No_Thread) else act_return ())"

definition worker_destroy :: "(thread_state, unit) act" where
  "worker_destroy = worker_join"

definition worker_loop :: "('h \<Rightarrow> 's \<Rightarrow> 's \<times> 'h job list) \<Rightarrow> ('h, 's) io_context \<Rightarrow> (nat \<times> ('h, 's) io_context) option" where
  "worker_loop f io = io_run f io"

lemma worker_life:
  "act_then worker_start (act_then worker_join worker_destroy) worker_new = (Ok (), No_Thread)"
  "act_then worker_start worker_start worker_new = (Undef, In_Loop)"
  by (simp_all add: worker_start_def worker_join_def worker_destroy_def worker_new_def joinable_def act_then_def act_bind_def
      act_read_def act_modify_def act_return_def act_undef_def)

end
