(* ===== verification/Pool_Races.thy ===== *)
theory Pool_Races
  imports Connection
begin

text \<open>
  Requests of several worker threads on the table of connections. \<open>connection_pool::get\<close> runs under the
  pool's lock, but hands out a reference: what a request does with the connection afterwards is not
  under the lock, nor is the close callback. The steps are the parts of \<open>get\<close> that the holders of a
  reference can tell apart, the uses of a reference and the closes.
\<close>

section \<open>Threads\<close>

text \<open>
  \<open>Connecting u\<close>: inside \<open>get\<close>, with the slot of \<open>u\<close> replaced by a new object; \<open>Holds u\<close>: with a reference to the
  slot of \<open>u\<close>. The lock is free or held by a thread.
\<close>

datatype request_pc = Idle | Connecting string | Holds string

type_synonym 'w pool_state = "(conn_pool \<times> 'w) \<times> nat option \<times> (nat \<Rightarrow> request_pc)"

text \<open>A use of a reference, as anything else the world does, changes the world alone.\<close>

inductive pool_step :: "'w libvirt_c \<Rightarrow> 'w os \<Rightarrow> 'w pool_state \<Rightarrow> 'w pool_state \<Rightarrow> bool" for lv os where
  finds: "pc t = Idle \<Longrightarrow> slot_open u (fst x) \<Longrightarrow> pool_step lv os (x, None, pc) (x, None, pc(t := Holds u))"
| resets: "pc t = Idle \<Longrightarrow> \<not> slot_open u (fst x) \<Longrightarrow>
     pool_step lv os (x, None, pc) ((sm_put u new_connection (fst x), snd x), Some t, pc(t := Connecting u))"
| connects: "pc t = Connecting u \<Longrightarrow> on_slot u (connect lv os u) x = (Ok a, y) \<Longrightarrow>
     pool_step lv os (x, Some t, pc) (y, None, pc(t := Holds u))"
| fails: "pc t = Connecting u \<Longrightarrow> on_slot u (connect lv os u) x = (Throw e, y) \<Longrightarrow>
     pool_step lv os (x, Some t, pc) (y, None, pc(t := Idle))"
| uses: "pool_step lv os ((pool, w), l, pc) ((pool, w'), l, pc)"
| closes: "sm_find u pool = Some c \<Longrightarrow> vc_ptr c \<noteq> None \<Longrightarrow> close_func c = (r, c') \<Longrightarrow>
     pool_step lv os ((pool, w), l, pc) ((sm_put u c' pool, w), l, pc)"
| ends: "pc t = Holds u \<Longrightarrow> pool_step lv os (x, l, pc) (x, l, pc(t := Idle))"

inductive_cases pool_stepE: "pool_step lv os x y"

text \<open>A lookup that is not interrupted is the one of \<open>pool_get\<close>.\<close>

lemma pool_get_sections:
  assumes "pc t = Idle" "pool_get lv os u x = (r, y)" "r \<noteq> Undef" "r \<noteq> Hang"
  shows "(pool_step lv os)\<^sup>*\<^sup>* (x, None, pc) (y, None, pc(t := (case r of Ok ref \<Rightarrow> Holds u | _ \<Rightarrow> Idle)))"
proof (cases "slot_open u (fst x)")
  case True
  then have "r = Ok u" "y = x" using assms(2) pool_get_open [of u "fst x" lv os "snd x"] by auto
  with True assms(1) show ?thesis by (auto intro: pool_step.finds)
next
  case False
  let ?x = "(sm_put u new_connection (fst x), snd x)"
  have reset: "pool_step lv os (x, None, pc) (?x, Some t, pc(t := Connecting u))"
    using assms(1) False by (rule pool_step.resets)
  have run: "pool_get lv os u x = act_then (on_slot u (connect lv os u)) (act_return u) ?x"
    using False by (cases x) (auto simp: pool_get_def act_simps slot_open_def split: option.split)
  obtain q z where q: "on_slot u (connect lv os u) ?x = (q, z)" by (rule prod.exhaust)
  have y: "y = z" "r = outcome_bind q (\<lambda>_. Ok u)"
    using run q assms(2) by (auto simp: act_then_def act_bind_def act_return_def split: outcome.splits)
  show ?thesis
  proof (cases q)
    case (Ok a)
    with q have "pool_step lv os (?x, Some t, pc(t := Connecting u)) (z, None, (pc(t := Connecting u))(t := Holds u))"
      by (intro pool_step.connects) auto
    with reset Ok y show ?thesis by simp
  next
    case (Throw e)
    with q have "pool_step lv os (?x, Some t, pc(t := Connecting u)) (z, None, (pc(t := Connecting u))(t := Idle))"
      by (intro pool_step.fails) auto
    with reset Throw y show ?thesis by simp
  qed (use assms y in auto)
qed

section \<open>What holds whatever interleaves\<close>

definition opened :: "'w libvirt_c \<Rightarrow> string \<Rightarrow> connect_ptr \<Rightarrow> bool" where
  "opened lv u p \<longleftrightarrow> (\<exists>w w'. virConnectOpen lv (c_str (uri u)) w = (Ok (Some p), w'))"

text \<open>An object in the slot of a user has no handle and no user, or a handle opened for that user.\<close>

definition owned_by :: "'w libvirt_c \<Rightarrow> string \<Rightarrow> connection \<Rightarrow> bool" where
  "owned_by lv u c \<longleftrightarrow> (case vc_ptr c of
      None \<Rightarrow> vc_user c = [] \<and> \<not> connection_is_open c
    | Some p \<Rightarrow> vc_user c = u \<and> opened lv u p)"

definition pool_races_ok :: "'w libvirt_c \<Rightarrow> 'w pool_state \<Rightarrow> bool" where
  "pool_races_ok lv s \<longleftrightarrow> (case s of ((pool, w), l, pc) \<Rightarrow>
     sm_ok pool \<and> (\<forall>u c. sm_find u pool = Some c \<longrightarrow> owned_by lv u c) \<and>
     (\<forall>t u. pc t = Holds u \<longrightarrow> sm_find u pool \<noteq> None) \<and>
     (\<forall>t u. pc t = Connecting u \<longrightarrow> l = Some t \<and> sm_find u pool = Some new_connection))"

lemma pool_races_okI:
  assumes "sm_ok pool" "\<And>u c. sm_find u pool = Some c \<Longrightarrow> owned_by lv u c"
    and "\<And>t u. pc t = Holds u \<Longrightarrow> sm_find u pool \<noteq> None"
    and "\<And>t u. pc t = Connecting u \<Longrightarrow> l = Some t \<and> sm_find u pool = Some new_connection"
  shows "pool_races_ok lv ((pool, w), l, pc)"
  using assms by (simp add: pool_races_ok_def)

lemma pool_races_okD:
  assumes "pool_races_ok lv ((pool, w), l, pc)"
  shows "sm_ok pool" "sm_find u pool = Some c \<Longrightarrow> owned_by lv u c" "pc t = Holds u \<Longrightarrow> sm_find u pool \<noteq> None"
    "pc t = Connecting u \<Longrightarrow> l = Some t" "pc t = Connecting u \<Longrightarrow> sm_find u pool = Some new_connection"
  using assms unfolding pool_races_ok_def prod.case by blast+

lemma owned_by_new [simp]: "owned_by lv u new_connection"
  by (simp add: owned_by_def new_connection_def connection_is_open_def)

text \<open>Connecting a new object gives one its user owns, whether it ends well or not.\<close>

lemma connect_owned: "owned_by lv u (fst (snd (connect lv os u (new_connection, w))))"
proof -
  obtain r w1 where r: "virConnectOpen lv (c_str (uri u)) w = (r, w1)" by force
  have ptr: "vc_ptr new_connection = None" by (simp add: new_connection_def)
  from connect_fresh [OF ptr r, where os = os] r show ?thesis
    by (auto simp: owned_by_def opened_def new_connection_def connection_is_open_def act_bind_fst_kept
        split: outcome.split option.split)
qed

lemma connect_slot_run:
  assumes "sm_find u pool = Some new_connection" "on_slot u (connect lv os u) (pool, w) = (r, (pool', w'))"
  shows "\<exists>c. pool' = sm_put u c pool \<and> owned_by lv u c"
  using assms connect_owned [of lv u os w] by (auto simp: on_slot_def split: prod.splits)

lemma close_func_owned: "close_func c = (r, c') \<Longrightarrow> owned_by lv u c \<Longrightarrow> owned_by lv u c' \<and> vc_ptr c' = vc_ptr c"
  by (auto simp: close_func_def act_then_def act_bind_def act_modify_def act_throw_def owned_by_def connection_is_open_def
      split: option.splits)

text \<open>Filing an owned object under a user keeps the table well formed.\<close>

lemma pool_races_put:
  assumes ok: "pool_races_ok lv ((pool, w), l, pc)" and c: "owned_by lv u c"
    and holds: "\<And>t v. pc' t = Holds v \<Longrightarrow> v = u \<or> pc t = Holds v"
    and connecting: "\<And>t v. pc' t = Connecting v \<Longrightarrow> l' = Some t \<and> (v = u \<and> c = new_connection \<or> v \<noteq> u \<and> pc t = Connecting v)"
  shows "pool_races_ok lv ((sm_put u c pool, w'), l', pc')"
proof (rule pool_races_okI)
  show "sm_ok (sm_put u c pool)" using pool_races_okD(1) [OF ok] by simp
  show "owned_by lv v d" if "sm_find v (sm_put u c pool) = Some d" for v d
    using that c pool_races_okD(2) [OF ok] by (auto simp: sm_find_put split: if_splits)
  show "sm_find v (sm_put u c pool) \<noteq> None" if "pc' t = Holds v" for t v
    using holds [OF that] pool_races_okD(3) [OF ok, of t v] by (auto simp: sm_find_put)
  show "l' = Some t \<and> sm_find v (sm_put u c pool) = Some new_connection" if "pc' t = Connecting v" for t v
    using connecting [OF that] pool_races_okD(5) [OF ok, of t v] by (auto simp: sm_find_put)
qed

lemma connect_ends_ok:
  assumes ok: "pool_races_ok lv ((pool, w), Some t, pc)" and pc: "pc t = Connecting u"
    and run: "on_slot u (connect lv os u) (pool, w) = (r, (pool', w'))" and q: "q = Holds u \<or> q = Idle"
  shows "pool_races_ok lv ((pool', w'), None, pc(t := q))"
proof -
  obtain c where c: "pool' = sm_put u c pool" "owned_by lv u c"
    using connect_slot_run [OF pool_races_okD(5) [OF ok pc] run] by blast
  have "False" if "(pc(t := q)) t' = Connecting v" for t' v
    using that q pool_races_okD(4) [OF ok, of t' v] by (cases "t' = t") auto
  then have connecting: "\<And>t' v. (pc(t := q)) t' = Connecting v \<Longrightarrow> X" for X by blast
  show ?thesis
    unfolding c(1) by (rule pool_races_put [OF ok c(2) _ connecting]) (use q in \<open>auto split: if_splits\<close>)
qed

lemma pool_races_ok_step:
  assumes "pool_step lv os x y" "pool_races_ok lv x"
  shows "pool_races_ok lv y"
  using assms
proof (induction rule: pool_step.induct)
  case (finds pc t u x)
  obtain pool w where x: "x = (pool, w)" by force
  from finds(2) have "sm_find u pool \<noteq> None" by (auto simp: x slot_open_def)
  with finds(3) show ?case unfolding x pool_races_ok_def by (auto split: if_splits)
next
  case (resets pc t u x)
  obtain pool w where x: "x = (pool, w)" by force
  show ?case
    using resets(3) pool_races_okD(4) [of lv pool w None pc] unfolding x fst_conv snd_conv
    by (intro pool_races_put) (auto split: if_splits)
next
  case (connects pc t u x a y)
  obtain pool w pool' w' where "x = (pool, w)" "y = (pool', w')" by (metis surj_pair)
  with connects show ?case by (auto intro: connect_ends_ok)
next
  case (fails pc t u x e y)
  obtain pool w pool' w' where "x = (pool, w)" "y = (pool', w')" by (metis surj_pair)
  with fails show ?case by (auto intro: connect_ends_ok)
next
  case (uses pool w l pc w')
  then show ?case by (simp add: pool_races_ok_def)
next
  case (closes u pool c r c' w l pc)
  note ok = closes(4)
  have new: "vc_ptr new_connection = None" by (simp add: new_connection_def)
  have other: "v \<noteq> u" if "pc t = Connecting v" for t v
    using pool_races_okD(5) [OF ok that] closes(1,2) new by auto
  have c': "owned_by lv u c'" using close_func_owned [OF closes(3)] pool_races_okD(2) [OF ok closes(1)] by blast
  show ?case
  proof (rule pool_races_put [OF ok c'])
    show "l = Some t \<and> (v = u \<and> c' = new_connection \<or> v \<noteq> u \<and> pc t = Connecting v)" if "pc t = Connecting v" for t v
      using that other [OF that] pool_races_okD(4) [OF ok that] by simp
  qed simp
next
  case (ends pc t u x l)
  then show ?case by (cases x) (auto simp: pool_races_ok_def split: if_splits)
qed

definition no_requests :: "'w pool_state \<Rightarrow> bool" where
  "no_requests s \<longleftrightarrow> fst (fst s) = [] \<and> snd s = (None, \<lambda>_. Idle)"

interpretation pool_races: transition_system no_requests "pool_step lv os" "pool_races_ok lv" for lv os
proof unfold_locales
  show "no_requests s \<Longrightarrow> pool_races_ok lv s" for s :: "'a pool_state"
    by (auto simp: no_requests_def pool_races_ok_def)
qed (rule pool_races_ok_step)

text \<open>C13: however the requests of the worker threads and the closes of connections interleave, a request that
  holds a reference holds one to an object that is there; a handle in it has been opened with the URI
  of the very user the request is for; and two threads are never connecting at a time.\<close>

theorem interleaved_connections:
  assumes "no_requests x" "(pool_step lv os)\<^sup>*\<^sup>* x ((pool, w), l, pc)" "pc t = Holds u"
  shows "(\<exists>c. sm_find u pool = Some c \<and> (case vc_ptr c of None \<Rightarrow> \<not> connection_is_open c
      | Some p \<Rightarrow> vc_user c = u \<and> opened lv u p)) \<and>
    (\<forall>t1 t2 u1 u2. pc t1 = Connecting u1 \<longrightarrow> pc t2 = Connecting u2 \<longrightarrow> t1 = t2)"
proof -
  have ok: "pool_races_ok lv ((pool, w), l, pc)" by (rule pool_races.reachable_inv [OF assms(1,2)])
  obtain c where c: "sm_find u pool = Some c" using pool_races_okD(3) [OF ok assms(3)] by blast
  with pool_races_okD(2) [OF ok c] have "case vc_ptr c of None \<Rightarrow> \<not> connection_is_open c
      | Some p \<Rightarrow> vc_user c = u \<and> opened lv u p" by (simp add: owned_by_def split: option.splits)
  moreover have "t1 = t2" if "pc t1 = Connecting u1" "pc t2 = Connecting u2" for t1 t2 u1 u2
    using pool_races_okD(4) [OF ok that(1)] pool_races_okD(4) [OF ok that(2)] by simp
  ultimately show ?thesis using c by blast
qed

text \<open>One thread has got its connection.\<close>

lemma lab_connected:
  "\<exists>pool w. (pool_step opening_libvirt counting_os)\<^sup>*\<^sup>* (([], 7), None, \<lambda>_. Idle) ((pool, w), None, (\<lambda>_. Idle)(1 := Holds ''test'')) \<and>
     slot_open ''test'' pool"
proof -
  have run: "pool_get opening_libvirt counting_os ''test'' ([], 7) = (Ok ''test'',
      ([(''test'', \<lparr>vc_ptr = Some 7, vc_errno = 0, vc_closed = False, vc_user = ''test''\<rparr>)], 8))"
    by (simp add: pool_get_def on_slot_def connect_def on_world_def act_simps act_then_def act_bind_def
        act_read_def act_modify_def act_return_def opening_libvirt_def stub_libvirt_def stub_with_def libvirt_defs
        new_connection_def)
  from pool_get_sections [OF _ run, of "\<lambda>_. Idle" 1]
  have "(pool_step opening_libvirt counting_os)\<^sup>*\<^sup>* (([], 7), None, \<lambda>_. Idle)
     (([(''test'', \<lparr>vc_ptr = Some 7, vc_errno = 0, vc_closed = False, vc_user = ''test''\<rparr>)], 8), None, (\<lambda>_. Idle)(1 := Holds ''test''))"
    by simp
  then show ?thesis
    by (intro exI [of _ "[(''test'', \<lparr>vc_ptr = Some 7, vc_errno = 0, vc_closed = False, vc_user = ''test''\<rparr>)]"] exI [of _ 8])
       (simp add: slot_open_def connection_is_open_def)
qed

theorem interleaved_connections_witness:
  "\<exists>(pool :: conn_pool) c. sm_find ''test'' pool = Some c \<and> (case vc_ptr c of None \<Rightarrow> False | Some p \<Rightarrow> opened opening_libvirt ''test'' p)"
proof -
  obtain pool w where run: "(pool_step opening_libvirt counting_os)\<^sup>*\<^sup>* (([], 7), None, \<lambda>_. Idle)
      ((pool, w), None, (\<lambda>_. Idle)(1 := Holds ''test''))" and op: "slot_open ''test'' pool"
    using lab_connected by blast
  have "no_requests (([], 7), None, \<lambda>_. Idle)" by (simp add: no_requests_def)
  from interleaved_connections [OF this run, of 1 "''test''"] obtain c where c: "sm_find ''test'' pool = Some c"
    "case vc_ptr c of None \<Rightarrow> \<not> connection_is_open c | Some p \<Rightarrow> vc_user c = ''test'' \<and> opened opening_libvirt ''test'' p"
    by auto
  with op have "case vc_ptr c of None \<Rightarrow> False | Some p \<Rightarrow> opened opening_libvirt ''test'' p"
    by (auto simp: slot_open_def split: option.splits)
  with c(1) show ?thesis by (intro exI [of _ pool] exI [of _ c] conjI)
qed

section \<open>What does not\<close>

text \<open>A request that was handed an open connection can find the object without a handle: the connection
  closes, and another request of the user replaces the object while the first still uses it. What the
  first then asks of libvirt is undefined. With requests one after another this cannot happen.\<close>

theorem reconnect_under_use:
  assumes "no_requests x" "(pool_step lv os)\<^sup>*\<^sup>* x ((pool, w), None, pc)"
    and pcs: "pc t = Holds u" "pc t' = Idle" and op: "slot_open u pool"
  shows "\<exists>pool' c. (pool_step lv os)\<^sup>*\<^sup>* x ((pool', w), Some t', pc(t' := Connecting u)) \<and>
    (pc(t' := Connecting u)) t = Holds u \<and> sm_find u pool' = Some c \<and>
    fst (connection_domains lv c w) = Undef \<and> fst (capabilities lv c w) = Undef"
proof -
  have ok: "pool_races_ok lv ((pool, w), None, pc)" by (rule pool_races.reachable_inv [OF assms(1,2)])
  from op obtain c where c: "sm_find u pool = Some c" "connection_is_open c" by (auto simp: slot_open_def)
  have ptr: "vc_ptr c \<noteq> None" using pool_races_okD(2) [OF ok c(1)] c(2) by (auto simp: owned_by_def split: option.splits)
  obtain r c' where close: "close_func c = (r, c')" by force
  then have closed: "\<not> connection_is_open c'"
    by (auto simp: close_func_def act_then_def act_bind_def act_modify_def act_throw_def connection_is_open_def)
  let ?pool = "sm_put u c' pool"
  have 1: "pool_step lv os ((pool, w), None, pc) ((?pool, w), None, pc)" by (rule pool_step.closes [OF c(1) ptr close])
  have "\<not> slot_open u ?pool" using closed by (simp add: slot_open_put)
  with pool_step.resets [where x = "(?pool, w)" and pc = pc, OF pcs(2)]
  have 2: "pool_step lv os ((?pool, w), None, pc) ((sm_put u new_connection ?pool, w), Some t', pc(t' := Connecting u))"
    by simp
  have "t \<noteq> t'" using pcs by auto
  then have "(pc(t' := Connecting u)) t = Holds u" using pcs(1) by simp
  moreover have "fst (connection_domains lv new_connection w) = Undef \<and> fst (capabilities lv new_connection w) = Undef"
    by (simp add: connection_domains_def capabilities_def with_ptr_def new_connection_def act_undef_def)
  moreover have "sm_find u (sm_put u new_connection ?pool) = Some new_connection" by (simp add: sm_find_put)
  moreover have "(pool_step lv os)\<^sup>*\<^sup>* x ((sm_put u new_connection ?pool, w), Some t', pc(t' := Connecting u))"
    using assms(2) 1 2 by (meson rtranclp.rtrancl_into_rtrancl)
  ultimately show ?thesis by blast
qed

theorem reconnect_under_use_witness:
  "\<exists>(pool :: conn_pool) (w :: nat) c. (pool_step opening_libvirt counting_os)\<^sup>*\<^sup>* (([], 7), None, \<lambda>_. Idle)
      ((pool, w), Some 2, (\<lambda>_. Idle)(1 := Holds ''test'', 2 := Connecting ''test'')) \<and>
     sm_find ''test'' pool = Some c \<and> fst (connection_domains opening_libvirt c w) = Undef"
proof -
  obtain pool w where run: "(pool_step opening_libvirt counting_os)\<^sup>*\<^sup>* (([], 7), None, \<lambda>_. Idle)
      ((pool, w), None, (\<lambda>_. Idle)(1 := Holds ''test''))" and op: "slot_open ''test'' pool"
    using lab_connected by blast
  have "no_requests (([], 7), None, \<lambda>_. Idle)" by (simp add: no_requests_def)
  from reconnect_under_use [OF this run _ _ op, of 1 2] show ?thesis by auto
qed

end
