(* ===== verification/Event_Races.thy ===== *)
theory Event_Races
  imports Ws_Callbacks
begin

text \<open>
  The event thread against the destruction of an event object. libvirt has the address of the object
  and calls \<open>on_event_handler\<close> with it on the thread of \<open>app::event_loop\<close>; a worker thread destroys the object
  when the last websocket of a user closes. The destructors run from the derived class to the base:
  the callbacks of \<open>lifecycle_event\<close> are gone before \<open>~event\<close> deregisters the callback.
\<close>

section \<open>The two threads\<close>

text \<open>
  The object: whole, without its members, or gone with the registration. The event thread waits or is
  about to run the handler it was called with.
\<close>

datatype event_life = Whole | Members_Gone | Destroyed

type_synonym 'w event_state = "'w server \<times> event_life \<times> (domain_ptr \<times> int) option"

inductive event_race :: "libs \<Rightarrow> 'w libvirt_c \<Rightarrow> event \<Rightarrow> 'w event_state \<Rightarrow> 'w event_state \<Rightarrow> bool" for L lv ev where
  dispatches: "life \<noteq> Destroyed \<Longrightarrow> event_race L lv ev (s, life, None) (s, life, Some (dptr, type))"
| handles: "on_event_handler L lv ev dptr type s = (Ok (), t) \<Longrightarrow>
     event_race L lv ev (s, Whole, Some (dptr, type)) (t, Whole, None)"
| members: "event_race L lv ev (s, Whole, p) (s, Members_Gone, p)"
| deregisters: "event_destroy lv ev s = (Ok (), t) \<Longrightarrow> event_race L lv ev (s, Members_Gone, p) (t, Destroyed, p)"

text \<open>What the event thread does next: nothing, the handler, or the call of a callback that is gone.\<close>

definition next_handler :: "libs \<Rightarrow> 'w libvirt_c \<Rightarrow> event \<Rightarrow> 'w event_state \<Rightarrow> unit outcome" where
  "next_handler L lv ev = (\<lambda>(s, life, p). case p of
      None \<Rightarrow> Ok ()
    | Some (dptr, type) \<Rightarrow> (if life = Whole then fst (on_event_handler L lv ev dptr type s) else Undef))"

inductive_simps event_race_destroyed: "event_race L lv ev (s, Destroyed, p) x"

section \<open>Before and after\<close>

text \<open>Once the object is destroyed and the event thread waits, no event of it is dispatched any more.\<close>

lemma destroyed_silent: "(event_race L lv ev)\<^sup>*\<^sup>* (s, Destroyed, p) x \<Longrightarrow> x = (s, Destroyed, p)"
  by (induction x rule: rtranclp_induct) (auto simp: event_race_destroyed)

section \<open>Between\<close>

text \<open>An event can reach an event object while it is destroyed: in every state the two threads can reach
  in which the object is whole and the event thread waits, there are runs after which the event
  thread calls callbacks that no longer exist, both when the event was dispatched before the
  destruction began and when it came between the two destructors. Only when the event thread waits
  and the deregistration is done, no later run gets there.\<close>

theorem event_after_destruction:
  assumes "(event_race L lv ev)\<^sup>*\<^sup>* (s0, Whole, None) (s, Whole, None)" "deregister_answers lv"
    and "sm_find (ev_conn ev) (sv_pool s) = Some c"
  shows "(\<exists>t. (event_race L lv ev)\<^sup>*\<^sup>* (s0, Whole, None) (t, Destroyed, Some (dptr, type)) \<and>
      next_handler L lv ev (t, Destroyed, Some (dptr, type)) = Undef) \<and>
    ((event_race L lv ev)\<^sup>*\<^sup>* (s0, Whole, None) (s, Members_Gone, Some (dptr, type)) \<and>
      next_handler L lv ev (s, Members_Gone, Some (dptr, type)) = Undef) \<and>
    (\<exists>t. (event_race L lv ev)\<^sup>*\<^sup>* (s0, Whole, None) (t, Destroyed, None) \<and>
      (\<forall>x. (event_race L lv ev)\<^sup>*\<^sup>* (t, Destroyed, None) x \<longrightarrow> next_handler L lv ev x = Ok ()))"
proof -
  obtain w where w: "event_destroy lv ev s = (Ok (), s\<lparr>sv_world := w\<rparr>)" using event_destroy_run [OF assms(2,3)] by blast
  let ?t = "s\<lparr>sv_world := w\<rparr>"
  have gone: "(event_race L lv ev)\<^sup>*\<^sup>* (s0, Whole, None) (s, Members_Gone, None)"
    using assms(1) event_race.members by (rule rtranclp.rtrancl_into_rtrancl)
  have late: "(event_race L lv ev)\<^sup>*\<^sup>* (s0, Whole, None) (s, Members_Gone, Some (dptr, type))"
    by (rule rtranclp.rtrancl_into_rtrancl [OF gone]) (simp add: event_race.dispatches)
  have destroyed: "(event_race L lv ev)\<^sup>*\<^sup>* (s0, Whole, None) (?t, Destroyed, p)"
    if "(event_race L lv ev)\<^sup>*\<^sup>* (s0, Whole, None) (s, Members_Gone, p)" for p
    using that event_race.deregisters [OF w] by (rule rtranclp.rtrancl_into_rtrancl)
  have "next_handler L lv ev (t, life, Some (dptr, type)) = Undef" if "life \<noteq> Whole" for t life
    using that by (simp add: next_handler_def)
  moreover have "next_handler L lv ev x = Ok ()" if "(event_race L lv ev)\<^sup>*\<^sup>* (?t, Destroyed, None) x" for x
    using destroyed_silent [OF that] by (simp add: next_handler_def)
  ultimately show ?thesis using late destroyed [OF late] destroyed [OF gone] by blast
qed

theorem event_after_destruction_witness:
  "\<exists>t :: nat server. (event_race lab_libs lab_libvirt (event_new ''test'' ''test''))\<^sup>*\<^sup>* (server_with 0, Whole, None)
      (t, Destroyed, Some (1, 5)) \<and>
    next_handler lab_libs lab_libvirt (event_new ''test'' ''test'') (t, Destroyed, Some (1, 5)) = Undef"
proof -
  have "deregister_answers lab_libvirt"
    by (simp add: deregister_answers_def lab_libvirt_def stub_libvirt_def stub_with_def
        virConnectDomainEventDeregisterAny_def act_simps)
  moreover have "sm_find (ev_conn (event_new ''test'' ''test'')) (sv_pool (server_with (0 :: nat))) = Some open_connection"
    by (simp add: event_new_def server_with_def)
  ultimately show ?thesis
    using event_after_destruction [where s = "server_with 0" and s0 = "server_with 0" and L = lab_libs and dptr = 1 and type = 5,
        OF rtranclp.rtrancl_refl] by blast
qed

end
