(* ===== verification/Domain_Store.thy ===== *)
theory Domain_Store
  imports Routes
begin

text \<open>
  What the requests of a user promise, on the level of the user's domains: an abstract store with a few
  operations, and the refinement of it by whole requests, from the target and the method through the
  router, the guards, the views and libvirt to the status and the body.
\<close>

section \<open>The abstract store\<close>

record dom =
  do_id :: int
  do_name :: string
  do_meta :: "int \<Rightarrow> string"
  do_state :: int
  do_autostart :: bool

type_synonym store = "domain_ptr \<Rightarrow> dom"

datatype store_op =
    List_Domains
  | Set_Autostart string bool
  | Set_Metadata string "(string, json) std_map"
  | Start_Domain string

definition put_meta :: "domain_ptr \<Rightarrow> int \<Rightarrow> string \<Rightarrow> store \<Rightarrow> store" where
  "put_meta d ty v S = S(d := (S d)\<lparr>do_meta := (do_meta (S d))(ty := v)\<rparr>)"

definition dom_json :: "dom \<Rightarrow> json" where
  "dom_json x = JObject
     (sm_put ''state'' (state_object (do_state x) (case state_string (do_state x) of Ok s \<Rightarrow> s | _ \<Rightarrow> []))
     (sm_put ''description'' (text_object (do_meta x VIR_DOMAIN_METADATA_DESCRIPTION))
     (sm_put ''title'' (text_object (do_meta x VIR_DOMAIN_METADATA_TITLE))
     (sm_put ''name'' (text_object (do_name x)) (sm_put ''id'' (JInt (do_id x)) [])))))"

definition named :: "domain_ptr list \<Rightarrow> store \<Rightarrow> string \<Rightarrow> domain_ptr option" where
  "named ids S n = find (\<lambda>d. do_name (S d) = c_str n) ids"

definition on_named :: "domain_ptr list \<Rightarrow> store \<Rightarrow> string \<Rightarrow> (domain_ptr \<Rightarrow> store \<times> status \<times> json) \<Rightarrow> store \<times> status \<times> json" where
  "on_named ids S n f = (case named ids S n of
      None \<Rightarrow> (S, Not_Found, error ''Domain not found'') | Some d \<Rightarrow> f d)"

text \<open>A text of the metadata: stored if it differs, and then part of the answer.\<close>

definition store_meta :: "domain_ptr \<Rightarrow> (string, json) std_map \<Rightarrow> int \<Rightarrow> string \<Rightarrow>
    store \<times> (string, json) std_map \<Rightarrow> store \<times> (string, json) std_map" where
  "store_meta d m ty name = (\<lambda>(S, out).
     let v = wanted m name (do_meta (S d) ty) in
     if v = do_meta (S d) ty then (S, out) else (put_meta d ty (c_str v) S, sm_put name (JString v) out))"

text \<open>\<open>boot\<close> is what a start makes of a domain, or none where libvirt refuses to start it.\<close>

fun store_step :: "domain_ptr list \<Rightarrow> (domain_ptr \<Rightarrow> dom \<Rightarrow> dom option) \<Rightarrow> store_op \<Rightarrow> store \<Rightarrow> store \<times> status \<times> json" where
  "store_step ids boot List_Domains S = (S, Status_Ok, JArray (map (\<lambda>d. dom_json (S d)) ids))"
| "store_step ids boot (Set_Autostart n b) S = on_named ids S n (\<lambda>d.
     (S(d := (S d)\<lparr>do_autostart := b\<rparr>), Status_Ok, JObject (sm_put ''autostart'' (JBool b) [])))"
| "store_step ids boot (Set_Metadata n m) S = on_named ids S n (\<lambda>d.
     let (S', out) = store_meta d m VIR_DOMAIN_METADATA_DESCRIPTION ''description''
           (store_meta d m VIR_DOMAIN_METADATA_TITLE ''title'' (S, []))
     in (S', if out = [] then Not_Modified else Status_Ok, JObject out))"
| "store_step ids boot (Start_Domain n) S = on_named ids S n (\<lambda>d.
     case boot d (S d) of
       Some x \<Rightarrow> (S(d := x), Created, dom_json x)
     | None \<Rightarrow> (S, Bad_Request, error ''Unable to start domain''))"

fun store_run :: "domain_ptr list \<Rightarrow> (domain_ptr \<Rightarrow> dom \<Rightarrow> dom option) \<Rightarrow> store_op list \<Rightarrow> store \<Rightarrow> store \<times> (status \<times> json) list" where
  "store_run ids boot [] S = (S, [])"
| "store_run ids boot (op # ops) S =
     (let (S', reply) = store_step ids boot op S; (S'', replies) = store_run ids boot ops S' in (S'', reply # replies))"

section \<open>The requests\<close>

text \<open>The request a client makes for an operation of user \<open>u\<close>.\<close>

fun issues :: "libs \<Rightarrow> string \<Rightarrow> store_op \<Rightarrow> request \<Rightarrow> bool" where
  "issues L u List_Domains req \<longleftrightarrow> rq_method req = Get \<and> rq_target req = ''/users/'' @ u @ ''/domains/''"
| "issues L u (Set_Autostart n b) req \<longleftrightarrow> segment_ok n \<and> rq_method req = (if b then Post else Delete) \<and>
     rq_target req = ''/users/'' @ u @ ''/domains/'' @ n @ ''/autostart/''"
| "issues L u (Set_Metadata n m) req \<longleftrightarrow> segment_ok n \<and> rq_method req = Post \<and>
     rq_target req = ''/users/'' @ u @ ''/domains/'' @ n @ ''/metadata/'' \<and>
     parse L (rq_body req) = Ok (JObject m) \<and> text_or_absent m ''title'' \<and> text_or_absent m ''description''"
| "issues L u (Start_Domain n) req \<longleftrightarrow> segment_ok n \<and> rq_method req = Post \<and>
     rq_target req = ''/users/'' @ u @ ''/domains/'' @ n @ ''/start/''"

text \<open>
  libvirt, on the connection of a user whose domains are \<open>ids\<close> throughout: what is stored is read back,
  nothing is changed by reading, a change is to the one domain.
\<close>

definition reads_back :: "'w libvirt_c \<Rightarrow> domain_ptr \<Rightarrow> ('w \<Rightarrow> store) \<Rightarrow> bool" where
  "reads_back lv d doms \<longleftrightarrow> (\<forall>w. domain_id lv d w = (Ok (do_id (doms w d)), w) \<and>
     domain_name lv d w = (Ok (do_name (doms w d)), w) \<and>
     (\<forall>ty. domain_metadata lv d ty w = (Ok (do_meta (doms w d) ty), w)) \<and>
     domain_state lv d w = (Ok (do_state (doms w d)), w) \<and> 0 \<le> do_state (doms w d) \<and> do_state (doms w d) \<le> 7)"

definition changes_one :: "'w libvirt_c \<Rightarrow> (domain_ptr \<Rightarrow> dom \<Rightarrow> dom option) \<Rightarrow> domain_ptr \<Rightarrow> ('w \<Rightarrow> store) \<Rightarrow> bool" where
  "changes_one lv boot d doms \<longleftrightarrow>
     (\<forall>w ty v. \<exists>w'. domain_set_metadata lv d ty v w = (Ok True, w') \<and> doms w' = put_meta d ty (c_str v) (doms w)) \<and>
     (\<forall>w b. \<exists>w'. domain_set_autostart lv d b w = (Ok (), w') \<and> doms w' = (doms w)(d := (doms w d)\<lparr>do_autostart := b\<rparr>)) \<and>
     (\<forall>w. \<exists>w'. domain_start lv d w = (Ok (boot d (doms w d) \<noteq> None), w') \<and>
        doms w' = (case boot d (doms w d) of Some x \<Rightarrow> (doms w)(d := x) | None \<Rightarrow> doms w))"

definition serves_domains ::
    "'w libvirt_c \<Rightarrow> connection \<Rightarrow> domain_ptr list \<Rightarrow> (domain_ptr \<Rightarrow> dom \<Rightarrow> dom option) \<Rightarrow> ('w \<Rightarrow> store) \<Rightarrow> bool" where
  "serves_domains lv c ids boot doms \<longleftrightarrow>
     (\<forall>w. connection_domains lv c w = (Ok ids, w)) \<and>
     (\<forall>w n. connection_domain lv c n w = (case named ids (doms w) n of
        Some d \<Rightarrow> (Ok d, w) | None \<Rightarrow> (Throw (Domain_Error ''virDomainLookupByName error''), w))) \<and>
     (\<forall>d \<in> set ids. reads_back lv d doms \<and> changes_one lv boot d doms)"

text \<open>The user exists, and the connection of the user is open.\<close>

definition ready :: "'w os \<Rightarrow> string \<Rightarrow> connection \<Rightarrow> 'w server \<Rightarrow> bool" where
  "ready os u c s \<longleftrightarrow> (\<forall>w. sys_getpwnam os (c_str u) w = (True, w)) \<and> sm_find u (sv_pool s) = Some c \<and>
     connection_is_open c"

fun serve :: "virt_config \<Rightarrow> libs \<Rightarrow> 'w libvirt_c \<Rightarrow> 'w os \<Rightarrow> http_id option \<Rightarrow> request list \<Rightarrow>
    ('w server, (status \<times> string) list) act" where
  "serve conf L lv os hc [] = act_return []"
| "serve conf L lv os hc (req # reqs) =
     act_then (router_run L (app_router conf L lv os) hc req)
     (act_bind (act_read (\<lambda>s. (rs_result (sv_response s), rs_body (sv_response s)))) (\<lambda>reply.
      act_bind (serve conf L lv os hc reqs) (\<lambda>replies. act_return (reply # replies))))"

section \<open>One request\<close>

lemma named_in: "named ids S n = Some d \<Longrightarrow> d \<in> set ids"
  by (auto simp: named_def find_Some_iff)

lemma serves_named:
  assumes "serves_domains lv c ids boot doms" "named ids S n = Some d"
  shows "reads_back lv d doms" "changes_one lv boot d doms"
  using assms named_in [OF assms(2)] by (auto simp: serves_domains_def)

lemma simple_domain_run:
  assumes "reads_back lv d doms"
  shows "simple_domain lv d w = (Ok (dom_json (doms w d)), w)"
proof -
  note read = assms [unfolded reads_back_def, rule_format, of w]
  obtain nm where "state_string (do_state (doms w d)) = Ok nm"
    using state_string_total [of "do_state (doms w d)"] read by blast
  with read show ?thesis
    by (simp add: simple_domain_def domain_title_def domain_description_def dom_json_def act_simps)
qed

lemma index_run:
  assumes "\<forall>d \<in> set ids. reads_back lv d doms" "sm_find u (sv_pool s) = Some c"
  shows "act_map (\<lambda>d. on_domain u (simple_domain lv d)) ids s = (Ok (map (\<lambda>d. dom_json (doms (sv_world s) d)) ids), s)"
  using assms(1)
proof (induction ids)
  case (Cons d ids)
  have "on_domain u (simple_domain lv d) s = (Ok (dom_json (doms (sv_world s) d)), s)"
    using on_domain_Ok [where m = "simple_domain lv d", OF assms(2) simple_domain_run] Cons.prems by simp
  with Cons show ?case by (simp add: act_simps)
qed (simp add: act_simps)

text \<open>What a view answers, on a response that is still empty.\<close>

definition answers :: "libs \<Rightarrow> ('w \<Rightarrow> store) \<Rightarrow> ('w server, unit) act \<Rightarrow> 'w server \<Rightarrow> store \<times> status \<times> json \<Rightarrow> bool" where
  "answers L doms m s = (\<lambda>(S, st, j). \<exists>t. m s = (Ok (), t) \<and> sv_pool t = sv_pool s \<and> doms (sv_world t) = S \<and>
     rs_result (sv_response t) = st \<and> rs_body (sv_response t) = rs_body (sv_response s) @ stringify L j)"

lemma answers_index:
  assumes lv: "serves_domains lv c ids boot doms" and c: "sm_find u (sv_pool s) = Some c"
  shows "answers L doms (domains_index L lv u hc match req) s (store_step ids boot List_Domains (doms (sv_world s)))"
proof -
  have "on_conn u (connection_domains lv) s = (Ok ids, s)"
    using on_conn_Ok [where m = "connection_domains lv", OF c] lv by (auto simp: serves_domains_def)
  with index_run [of ids lv doms u s c] lv c show ?thesis
    by (simp add: answers_def domains_index_def serves_domains_def act_simps)
qed

lemma answers_autostart:
  assumes lv: "changes_one lv boot d doms" and c: "sm_find u (sv_pool s) = Some c"
  shows "answers L doms (domains_autostart L lv u d hc match req) s
    (let b = (rq_method req = Post); S = doms (sv_world s) in
      (S(d := (S d)\<lparr>do_autostart := b\<rparr>), Status_Ok, JObject (sm_put ''autostart'' (JBool b) [])))"
proof -
  let ?b = "rq_method req = Post"
  obtain w' where w': "domain_set_autostart lv d ?b (sv_world s) = (Ok (), w')"
    "doms w' = (doms (sv_world s))(d := (doms (sv_world s) d)\<lparr>do_autostart := ?b\<rparr>)"
    using lv unfolding changes_one_def by blast
  have "on_domain u (domain_set_autostart lv d ?b) s = (Ok (), s\<lparr>sv_world := w'\<rparr>)"
    by (rule on_domain_Ok [where m = "domain_set_autostart lv d ?b", OF c w'(1)])
  with w'(2) show ?thesis by (simp add: answers_def domains_autostart_def Let_def act_simps)
qed

lemma answers_start:
  assumes lv: "reads_back lv d doms" "changes_one lv boot d doms" and c: "sm_find u (sv_pool s) = Some c"
  shows "answers L doms (domains_start L lv u d hc match req) s (let S = doms (sv_world s) in case boot d (S d) of
       Some x \<Rightarrow> (S(d := x), Created, dom_json x) | None \<Rightarrow> (S, Bad_Request, error ''Unable to start domain''))"
proof -
  obtain w' where w': "domain_start lv d (sv_world s) = (Ok (boot d (doms (sv_world s) d) \<noteq> None), w')"
    "doms w' = (case boot d (doms (sv_world s) d) of Some x \<Rightarrow> (doms (sv_world s))(d := x) | None \<Rightarrow> doms (sv_world s))"
    using lv(2) unfolding changes_one_def by blast
  let ?s = "s\<lparr>sv_world := w'\<rparr>"
  have start: "on_domain u (domain_start lv d) s = (Ok (boot d (doms (sv_world s) d) \<noteq> None), ?s)"
    by (rule on_domain_Ok [where m = "domain_start lv d", OF c w'(1)])
  have "on_domain u (simple_domain lv d) ?s = (Ok (dom_json (doms w' d)), ?s)"
    using on_domain_Ok [where m = "simple_domain lv d" and s = ?s, OF _ simple_domain_run [OF lv(1)]] c by simp
  with start w'(2) show ?thesis
    by (cases "boot d (doms (sv_world s) d)")
       (simp_all add: answers_def domains_start_def act_bind_Ok [where m = "on_domain u (domain_start lv d)", OF start] act_simps)
qed

lemma update_metadata_store:
  assumes lv: "reads_back lv d doms" "changes_one lv boot d doms" and c: "sm_find u (sv_pool s) = Some c"
    and "as_string_ok L" "text_or_absent m name"
  shows "\<exists>w'. update_metadata L lv u d (JObject m) ty name outp s =
      (Ok (snd (store_meta d m ty name (doms (sv_world s), outp))), s\<lparr>sv_world := w'\<rparr>) \<and>
    doms w' = fst (store_meta d m ty name (doms (sv_world s), outp))"
proof -
  let ?cur = "do_meta (doms (sv_world s) d) ty" and ?v = "wanted m name (do_meta (doms (sv_world s) d) ty)"
  obtain w1 where set: "domain_set_metadata lv d ty ?v (sv_world s) = (Ok True, w1)"
    "doms w1 = put_meta d ty (c_str ?v) (doms (sv_world s))"
    using lv(2) unfolding changes_one_def by blast
  have "domain_metadata lv d ty (sv_world s) = (Ok ?cur, sv_world s)" using lv(1) by (simp add: reads_back_def)
  from on_domain_Ok [where m = "domain_metadata lv d ty", OF c this]
  have read: "on_domain u (domain_metadata lv d ty) s = (Ok ?cur, s)" by simp
  have stored: "on_domain u (domain_set_metadata lv d ty ?v) s = (Ok True, s\<lparr>sv_world := w1\<rparr>)"
    by (rule on_domain_Ok [where m = "domain_set_metadata lv d ty ?v", OF c set(1)])
  obtain j where j: "j_get (JObject m) name (JString ?cur) = Ok j" and v: "lib_as_string L j = Ok ?v"
    using assms(4,5)
    by (auto simp: wanted_def text_or_absent_def as_string_ok_def split: option.splits json.splits)
  have "update_metadata L lv u d (JObject m) ty name outp s =
      (if ?v \<noteq> ?cur then act_bind (on_domain u (domain_set_metadata lv d ty ?v))
         (\<lambda>_. act_return (sm_put name (JString ?v) outp)) s else (Ok outp, s))"
    unfolding update_metadata_def by (simp add: act_simps read j v del: j_get.simps)
  with stored set(2) show ?thesis
    by (cases "?v = ?cur")
       (auto simp: store_meta_def Let_def act_simps intro: exI [of _ "sv_world s"] exI [of _ w1])
qed

lemma answers_metadata:
  assumes lv: "reads_back lv d doms" "changes_one lv boot d doms" and c: "sm_find u (sv_pool s) = Some c"
    and L: "as_string_ok L" and m: "parse L (rq_body req) = Ok (JObject m)" "text_or_absent m ''title''" "text_or_absent m ''description''"
    and ok: "rs_result (sv_response s) = Status_Ok"
  shows "answers L doms (domains_metadata L lv u d hc match req) s
    (let (S', out) = store_meta d m VIR_DOMAIN_METADATA_DESCRIPTION ''description''
           (store_meta d m VIR_DOMAIN_METADATA_TITLE ''title'' (doms (sv_world s), []))
     in (S', if out = [] then Not_Modified else Status_Ok, JObject out))"
proof -
  obtain w1 where 1: "update_metadata L lv u d (JObject m) VIR_DOMAIN_METADATA_TITLE ''title'' [] s =
      (Ok (snd (store_meta d m VIR_DOMAIN_METADATA_TITLE ''title'' (doms (sv_world s), []))), s\<lparr>sv_world := w1\<rparr>)"
    "doms w1 = fst (store_meta d m VIR_DOMAIN_METADATA_TITLE ''title'' (doms (sv_world s), []))"
    using update_metadata_store [OF lv c L m(2)] by blast
  define out1 where "out1 = snd (store_meta d m VIR_DOMAIN_METADATA_TITLE ''title'' (doms (sv_world s), []))"
  let ?s1 = "s\<lparr>sv_world := w1\<rparr>"
  have c1: "sm_find u (sv_pool ?s1) = Some c" using c by simp
  have fst1: "store_meta d m VIR_DOMAIN_METADATA_TITLE ''title'' (doms (sv_world s), []) = (doms w1, out1)"
    by (simp add: 1(2) out1_def)
  obtain w2 S2 out2 where 2: "update_metadata L lv u d (JObject m) VIR_DOMAIN_METADATA_DESCRIPTION ''description'' out1 ?s1 =
      (Ok out2, ?s1\<lparr>sv_world := w2\<rparr>)" "doms w2 = S2"
    "store_meta d m VIR_DOMAIN_METADATA_DESCRIPTION ''description'' (doms w1, out1) = (S2, out2)"
    using update_metadata_store [OF lv c1 L m(3), of VIR_DOMAIN_METADATA_DESCRIPTION out1] by (auto simp: prod_eq_iff)
  have run: "change_metadata L lv u d (JObject m) s =
      (act_then (if sm_size out2 = 0 then modify_response (set_result Not_Modified) else act_return ())
       (act_bind (act_read (\<lambda>s. rs_result (sv_response s))) (\<lambda>st. respond L (JObject out2) st))) (s\<lparr>sv_world := w2\<rparr>)"
    using 1(1) 2(1) unfolding change_metadata_def out1_def [symmetric] by (simp add: act_simps)
  have "answers L doms (change_metadata L lv u d (JObject m)) s (S2, if out2 = [] then Not_Modified else Status_Ok, JObject out2)"
    using 2(2) ok by (cases "out2 = []") (simp_all add: answers_def run act_simps sm_size_def)
  then show ?thesis by (simp add: fst1 2(3) domains_metadata_def m(1) answers_def)
qed

section \<open>Through the guards and the router\<close>

lemma ready_libvirt:
  assumes "ready os u c s" "sub_match match 1 = u"
  shows "check_libvirt L lv os (hc, match, req) s = Inr ((u, hc, match, req), s)"
proof -
  have "check_user L os (hc, match, req) s = Inr ((hc, match, req), s)"
    using assms by (simp add: check_user_def ready_def)
  moreover have "pool_get lv os u (sv_pool s, sv_world s) = (Ok u, (sv_pool s, sv_world s))"
    using assms(1) by (intro pool_get_open) (auto simp: ready_def slot_open_def)
  ultimately show ?thesis using assms(2) by (simp add: check_libvirt_def on_sv_pool_def)
qed

lemma guarded_domain_view:
  assumes r: "ready os u c s" "sub_match match 1 = u" "sub_match match 2 = n" and lv: "serves_domains lv c ids boot doms"
  shows "with_libvirt_domain L lv os f hc match req s = (case named ids (doms (sv_world s)) n of
      None \<Rightarrow> respond L (error ''Domain not found'') Not_Found s | Some d \<Rightarrow> f u d hc match req s)"
proof -
  note look = lv [unfolded serves_domains_def, THEN conjunct2, THEN conjunct1, rule_format, of n "sv_world s"]
  have c: "sm_find u (sv_pool s) = Some c" using r(1) by (simp add: ready_def)
  have "check_domain L lv os (hc, match, req) s = (case named ids (doms (sv_world s)) n of
      None \<Rightarrow> Inl (respond L (error ''Domain not found'') Not_Found s) | Some d \<Rightarrow> Inr ((u, d, hc, match, req), s))"
    using look c unfolding check_domain_def ready_libvirt [OF r(1,2)]
    by (auto simp: on_conn_def r(3) split: option.split)
  then show ?thesis by (simp add: with_libvirt_domain_check split: option.split)
qed

lemma answers_named:
  assumes r: "ready os u c s" "sub_match match 1 = u" "sub_match match 2 = n" and lv: "serves_domains lv c ids boot doms"
    and view: "\<And>d. named ids (doms (sv_world s)) n = Some d \<Longrightarrow> answers L doms (f u d hc match req) s (g d)"
  shows "answers L doms (with_libvirt_domain L lv os f hc match req) s (on_named ids (doms (sv_world s)) n g)"
proof (cases "named ids (doms (sv_world s)) n")
  case None
  then show ?thesis unfolding answers_def by (simp add: guarded_domain_view [OF r lv] on_named_def act_simps)
next
  case (Some d)
  with view show ?thesis unfolding answers_def by (simp add: guarded_domain_view [OF r lv] on_named_def)
qed

text \<open>The response a route function starts with, behind its check of the method.\<close>

definition fresh :: "verb list \<Rightarrow> 'w server \<Rightarrow> 'w server" where
  "fresh ms s = s\<lparr>sv_response := set_field Allow (allow_header ms) new_response\<rparr>"

definition answered :: "libs \<Rightarrow> ('w \<Rightarrow> store) \<Rightarrow> ('w server, unit) act \<Rightarrow> 'w server \<Rightarrow> store \<times> status \<times> json \<Rightarrow> bool" where
  "answered L doms m s = (\<lambda>(S, st, j). \<exists>t. m s = (Ok (), t) \<and> sv_pool t = sv_pool s \<and> doms (sv_world t) = S \<and>
     rs_result (sv_response t) = st \<and> rs_body (sv_response t) = stringify L j)"

lemma route_run:
  assumes "rq_method req \<in> set ms" "rq_method req \<noteq> Options" "f hc match req (fresh ms s) = (Ok (), t)"
  shows "run_route L (with_methods ms f) match hc req s = (Ok (), t)"
proof -
  have "with_methods ms f hc match req (s\<lparr>sv_response := new_response\<rparr>) = (Ok (), t)"
    using assms by (simp add: with_methods_def allowed_methods_def fresh_def act_simps)
  then have "route_attempt (with_methods ms f) match req (hc, s) = (Ok (), (None, t))"
    by (simp add: route_attempt_def)
  then show ?thesis
    using retry_call_stop [of "route_attempt (with_methods ms f) match req" "(hc, s)"]
    by (simp add: run_route_def wants_retry_def)
qed

lemma answered_route:
  assumes "rq_method req \<in> set ms" "rq_method req \<noteq> Options" "answers L doms (f hc match req) (fresh ms s) reply"
  shows "answered L doms (act_then (run_route L (with_methods ms f) match hc req) (log_access req)) s reply"
proof -
  obtain S st j where reply: "reply = (S, st, j)" by (cases reply) auto
  with assms(3) obtain t where t: "f hc match req (fresh ms s) = (Ok (), t)" "sv_pool t = sv_pool s" "doms (sv_world t) = S"
    "rs_result (sv_response t) = st" "rs_body (sv_response t) = stringify L j"
    by (auto simp: answers_def fresh_def new_response_def set_field_def)
  with route_run [where f = f, OF assms(1,2) t(1)] show ?thesis by (simp add: answered_def reply act_simps log_access_def Let_def)
qed

lemma path_endpoint_index:
  assumes "segment_ok u"
  shows "path_endpoint (''/users/'' @ u @ ''/domains/'') = Some (User_Route Index_Op u)"
proof -
  have seg: "segment (u @ ''/domains/'') = u" using segment_append [OF assms, of "''/domains/''" "[]"] by simp
  have "\<not> redirects (''/users/'' @ u @ ''/domains/'')" by (simp add: redirects_def last_append)
  moreover have "u \<noteq> []" using assms by (simp add: segment_ok_def)
  moreover have "user_op_of ''/domains/'' = Some Index_Op" by (simp add: user_op_of_def)
  ultimately show ?thesis by (simp add: path_endpoint_def Let_def seg)
qed

lemma answered_index:
  assumes "segment_ok u" "rq_target req = ''/users/'' @ u @ ''/domains/''" "rq_method req = Get"
    and "answers L doms (with_libvirt L lv os (domains_index L lv) hc [rq_target req, u] req) (fresh [Get] s) reply"
  shows "answered L doms (router_run L (app_router conf L lv os) hc req) s reply"
proof -
  have "find_route (ro_regex (app_router conf L lv os)) (rq_target req) (ro_routes (app_router conf L lv os)) =
      Ok (Some (with_methods [Get] (with_libvirt L lv os (domains_index L lv)), [rq_target req, u]))"
    unfolding route_dispatch_fact assms(2) path_endpoint_index [OF assms(1)] by simp
  from router_run_found [where hc = hc and s = s, OF this]
    answered_route [where ms = "[Get]" and f = "with_libvirt L lv os (domains_index L lv)" and match = "[rq_target req, u]",
      OF _ _ assms(4)] assms(3)
  show ?thesis by (simp add: answered_def)
qed

lemma fresh_simps [simp]:
  "sv_pool (fresh ms s) = sv_pool s" "sv_world (fresh ms s) = sv_world s" "rs_result (sv_response (fresh ms s)) = Status_Ok"
  "ready os u c (fresh ms s) \<longleftrightarrow> ready os u c s"
  by (simp_all add: fresh_def ready_def new_response_def)

lemma answered_domain:
  assumes "segment_ok u" "segment_ok n" "rq_target req = ''/users/'' @ u @ ''/domains/'' @ n @ domain_suffix op"
    and "rq_method req \<in> set (domain_methods op)" "rq_method req \<noteq> Options"
    and r: "ready os u c s" and lv: "serves_domains lv c ids boot doms"
    and view: "\<And>d. named ids (doms (sv_world s)) n = Some d \<Longrightarrow>
      answers L doms (domain_view_of conf L lv os op u d hc [rq_target req, u, n] req) (fresh (domain_methods op) s) (g d)"
  shows "answered L doms (router_run L (app_router conf L lv os) hc req) s (on_named ids (doms (sv_world s)) n g)"
proof -
  have "answers L doms (with_libvirt_domain L lv os (domain_view_of conf L lv os op) hc [rq_target req, u, n] req)
      (fresh (domain_methods op) s) (on_named ids (doms (sv_world s)) n g)"
    using answers_named [where s = "fresh (domain_methods op) s" and match = "[rq_target req, u, n]" and n = n and c = c
        and f = "domain_view_of conf L lv os op" and g = g, OF _ _ _ lv] r view by (simp add: sub_match_def)
  from answered_route [where f = "with_libvirt_domain L lv os (domain_view_of conf L lv os op)", OF assms(4,5) this]
  show ?thesis unfolding answered_def by (simp add: domain_dispatch [OF assms(1-3)])
qed

lemma request_answered:
  assumes lv: "serves_domains lv c ids boot doms" and L: "as_string_ok L" and u: "segment_ok u"
    and r: "ready os u c s" and req: "issues L u op req"
  shows "answered L doms (router_run L (app_router conf L lv os) hc req) s (store_step ids boot op (doms (sv_world s)))"
proof -
  have c: "sm_find u (sv_pool s) = Some c" using r by (simp add: ready_def)
  note serves = serves_named [OF lv]
  show ?thesis
  proof (cases op)
    case List_Domains
    with req have t: "rq_target req = ''/users/'' @ u @ ''/domains/''" "rq_method req = Get" by simp_all
    have "answers L doms (with_libvirt L lv os (domains_index L lv) hc [rq_target req, u] req) (fresh [Get] s)
        (store_step ids boot op (doms (sv_world s)))"
      using answers_index [OF lv, of u "fresh [Get] s" L hc "[rq_target req, u]" req] c
        ready_libvirt [where s = "fresh [Get] s" and match = "[rq_target req, u]" and os = os and c = c] r
      unfolding answers_def by (simp add: with_libvirt_check sub_match_def List_Domains)
    then show ?thesis by (rule answered_index [OF u t])
  next
    case (Set_Autostart n b)
    with req have n: "segment_ok n" "rq_target req = ''/users/'' @ u @ ''/domains/'' @ n @ domain_suffix Autostart_Op"
      "rq_method req = (if b then Post else Delete)" by simp_all
    have "answers L doms (domains_autostart L lv u d hc [rq_target req, u, n] req) (fresh [Post, Delete] s)
        ((doms (sv_world s))(d := (doms (sv_world s) d)\<lparr>do_autostart := b\<rparr>), Status_Ok, JObject (sm_put ''autostart'' (JBool b) []))"
      if "named ids (doms (sv_world s)) n = Some d" for d
      using answers_autostart [where s = "fresh [Post, Delete] s" and req = req, OF serves(2) [OF that]] c n(3)
      by (auto simp: Let_def split: if_splits)
    then show ?thesis unfolding Set_Autostart store_step.simps
      by (intro answered_domain [OF u n(1,2) _ _ r lv]) (use n(3) in simp_all)
  next
    case (Set_Metadata n m)
    with req have n: "segment_ok n" "rq_target req = ''/users/'' @ u @ ''/domains/'' @ n @ domain_suffix Metadata_Op"
      "rq_method req = Post" and m: "parse L (rq_body req) = Ok (JObject m)" "text_or_absent m ''title''"
      "text_or_absent m ''description''" by simp_all
    note view = answers_metadata [where s = "fresh [Post] s" and req = req, OF serves(1) serves(2) _ L m]
    show ?thesis unfolding Set_Metadata store_step.simps
      by (intro answered_domain [OF u n(1,2) _ _ r lv]) (use n(3) c view in simp_all)
  next
    case (Start_Domain n)
    with req have n: "segment_ok n" "rq_target req = ''/users/'' @ u @ ''/domains/'' @ n @ domain_suffix Start_Op"
      "rq_method req = Post" by simp_all
    note view = answers_start [where s = "fresh [Post] s" and req = req, OF serves(1) serves(2)]
    show ?thesis unfolding Start_Domain store_step.simps
      by (intro answered_domain [OF u n(1,2) _ _ r lv]) (use n(3) c view in \<open>simp_all add: Let_def\<close>)
  qed
qed

section \<open>Sequences of requests\<close>

lemma serve_answers:
  assumes lv: "serves_domains lv c ids boot doms" and L: "as_string_ok L" and u: "segment_ok u"
    and "list_all2 (issues L u) ops reqs" "ready os u c s"
  shows "\<exists>t. serve conf L lv os hc reqs s =
      (Ok (map (\<lambda>(st, j). (st, stringify L j)) (snd (store_run ids boot ops (doms (sv_world s))))), t) \<and>
    doms (sv_world t) = fst (store_run ids boot ops (doms (sv_world s))) \<and> sv_pool t = sv_pool s"
  using assms(4,5)
proof (induction ops reqs arbitrary: s rule: list_all2_induct)
  case Nil
  then show ?case by (simp add: act_simps)
next
  case (Cons op ops req reqs)
  obtain S st j where step: "store_step ids boot op (doms (sv_world s)) = (S, st, j)" by (metis prod_cases3)
  with request_answered [OF lv L u Cons.prems Cons.hyps(1), of conf hc] obtain t where
    t: "router_run L (app_router conf L lv os) hc req s = (Ok (), t)" "sv_pool t = sv_pool s" "doms (sv_world t) = S"
    "rs_result (sv_response t) = st" "rs_body (sv_response t) = stringify L j" by (auto simp: answered_def)
  have "ready os u c t" using Cons.prems t(2) by (simp add: ready_def)
  from Cons.IH [OF this] obtain t' where
    "serve conf L lv os hc reqs t = (Ok (map (\<lambda>(st, j). (st, stringify L j)) (snd (store_run ids boot ops S))), t')"
    "doms (sv_world t') = fst (store_run ids boot ops S)" "sv_pool t' = sv_pool s" using t(2,3) by auto
  with t show ?case by (intro exI [of _ t']) (simp add: step act_simps split: prod.split)
qed


text \<open>A libvirt that keeps the store in memory, with two domains, and the text that was last defined.\<close>

definition valid_state :: "dom \<Rightarrow> dom" where
  "valid_state x = x\<lparr>do_state := do_state x mod 8\<rparr>"

definition started_dom :: "domain_ptr \<Rightarrow> dom \<Rightarrow> dom option" where
  "started_dom d x = (if do_state x = int VIR_DOMAIN_SHUTOFF then Some (x\<lparr>do_state := 1\<rparr>) else None)"

definition store_libvirt :: "(store \<times> string) libvirt_c" where
  "store_libvirt = (stub_with (act_return None))\<lparr>
     c_virConnectListAllDomains := (\<lambda>conn flags. act_return (2, [1, 2])),
     c_virDomainLookupByName := (\<lambda>conn n (S, x). (Ok (find (\<lambda>d. do_name (S d) = n) [1, 2]), (S, x))),
     c_virDomainGetID := (\<lambda>d (S, x). (Ok (do_id (S d)), (S, x))),
     c_virDomainGetName := (\<lambda>d (S, x). (Ok (Some (do_name (S d))), (S, x))),
     c_virDomainGetState := (\<lambda>d flags (S, x). (Ok (0, Some (do_state (S d) mod 8, 0)), (S, x))),
     c_virDomainGetMetadata := (\<lambda>d ty u flags (S, x). (Ok (Some (do_meta (S d) ty)), (S, x))),
     c_virDomainSetMetadata := (\<lambda>d ty v key u flags (S, x). (Ok 0, (put_meta d ty v S, x))),
     c_virDomainGetAutostart := (\<lambda>d (S, x). (Ok (0, Some (if do_autostart (S d) then 1 else 0)), (S, x))),
     c_virDomainSetAutostart := (\<lambda>d a (S, x). (Ok 0, (S(d := (S d)\<lparr>do_autostart := (a \<noteq> 0)\<rparr>), x))),
     c_virDomainGetXMLDesc := (\<lambda>d flags (S, x). (Ok (Some x), (S, x))),
     c_virDomainDefineXML := (\<lambda>conn y (S, x). (Ok (Some 1), (S, y))),
     c_virDomainCreate := (\<lambda>d (S, x). case started_dom d (valid_state (S d)) of
       Some y \<Rightarrow> (Ok 0, (S(d := y), x)) | None \<Rightarrow> (Ok (-1), (S, x)))\<rparr>"

definition store_os :: "(store \<times> string) os" where
  "store_os = \<lparr>sys_getpwnam = (\<lambda>user w. (True, w)), os_errno = (\<lambda>w. 0), os_strerror = (\<lambda>n. []),
     os_now = (\<lambda>w. (0, w)), os_sleep_for = (\<lambda>ms w. w)\<rparr>"

definition two_domains :: "store \<times> string" where
  "two_domains = (\<lambda>d. if d = 1 then \<lparr>do_id = -1, do_name = ''vm'', do_meta = (\<lambda>_. []), do_state = 5, do_autostart = False\<rparr>
     else \<lparr>do_id = 3, do_name = ''db'', do_meta = (\<lambda>_. ''old''), do_state = 1, do_autostart = True\<rparr>, [])"

text \<open>The store of such a world.\<close>

definition stored :: "store \<times> string \<Rightarrow> store" where
  "stored w d = valid_state (fst w d)"

lemma valid_state_simps [simp]:
  "do_id (valid_state x) = do_id x" "do_name (valid_state x) = do_name x" "do_meta (valid_state x) = do_meta x"
  "do_autostart (valid_state x) = do_autostart x" "do_state (valid_state x) = do_state x mod 8"
  by (simp_all add: valid_state_def)

lemma stored_changes:
  "stored (put_meta d ty v S, x) = put_meta d ty v (stored (S, x))"
  "stored (S(d := (S d)\<lparr>do_autostart := b\<rparr>), x) = (stored (S, x))(d := (stored (S, x) d)\<lparr>do_autostart := b\<rparr>)"
  "started_dom d (valid_state (S d)) = Some y \<Longrightarrow> stored (S(d := y), x) = (stored (S, x))(d := y)"
  by (auto simp: stored_def put_meta_def valid_state_def started_dom_def fun_eq_iff split: if_splits)

lemma store_serves: "serves_domains store_libvirt open_connection [1, 2] started_dom stored"
proof -
  note defs = store_libvirt_def stub_with_def libvirt_defs domain_defs connection_defs act_simps case_prod_beta
  have "connection_domains store_libvirt open_connection w = (Ok [1, 2], w)" for w
    by (simp add: defs open_connection_def numeral_2_eq_2)
  moreover have "connection_domain store_libvirt open_connection n w = (case named [1, 2] (stored w) n of
        Some d \<Rightarrow> (Ok d, w) | None \<Rightarrow> (Throw (Domain_Error ''virDomainLookupByName error''), w))" for n w
    by (simp add: defs open_connection_def named_def stored_def split: option.split)
  moreover have "do_state x mod 8 \<le> 7" for x :: dom using pos_mod_bound [of 8 "do_state x"] by simp
  then have "reads_back store_libvirt d stored" for d
    by (simp add: reads_back_def defs stored_def)
  moreover have "changes_one store_libvirt started_dom d stored" for d
    unfolding changes_one_def
    by (auto simp: defs stored_changes stored_def [of "(S, x)" d for S x] split: option.split)
  ultimately show ?thesis by (simp add: serves_domains_def)
qed

lemma store_ready: "ready store_os ''test'' open_connection (server_with w)"
  by (simp add: ready_def store_os_def server_with_def open_connection_def connection_is_open_def)


section \<open>Reading what was written\<close>

lemma store_meta_title:
  assumes "sm_find ''title'' m = Some (JString v)" "c_str v = v" "store_meta d m VIR_DOMAIN_METADATA_TITLE ''title'' (S, []) = (S1, out1)"
    and "store_meta d m VIR_DOMAIN_METADATA_DESCRIPTION ''description'' (S1, out1) = (S2, out2)"
  shows "do_meta (S2 d) VIR_DOMAIN_METADATA_TITLE = v"
  using assms by (auto simp: store_meta_def wanted_def put_meta_def Let_def virt_consts split: if_splits)



end
