(* ===== verification/Shown.thy ===== *)
theory Shown
  imports Domain_Store
begin

text \<open>
  A round trip through two views: what \<open>views/domains.cpp\<close> stores with \<open>bootmenu\<close>, \<open>show\<close> reads back. The
  requests go through router, guards and libvirt, the document through the XML library, its conversion
  and the merge of \<open>data/domain.cpp\<close>.
\<close>

section \<open>A detailed view that succeeds\<close>

lemma act_map_total:
  assumes "\<And>x. x \<in> set xs \<Longrightarrow> \<exists>y. f x s = (Ok y, s)"
  shows "\<exists>ys. act_map f xs s = (Ok ys, s)"
  using assms
proof (induction xs)
  case (Cons x xs)
  then obtain y ys where "f x s = (Ok y, s)" "act_map f xs s = (Ok ys, s)" by force
  then show ?case by (simp add: act_simps)
qed (simp add: act_simps)

text \<open>
  A document the detailed view can be made from: at most one device section, and every disk in it says
  what it is and names its device.
\<close>

definition disk_described :: "xml \<Rightarrow> bool" where
  "disk_described nd \<longleftrightarrow> (\<exists>kind target dev. attr_of nd ''device'' = Some kind \<and>
     child_values nd ''target'' = [xml_to_json target] \<and> attr_of target ''dev'' = Some dev)"

definition describable :: "xml \<Rightarrow> bool" where
  "describable nd \<longleftrightarrow> length (child_values nd ''devices'') \<le> 1 \<and>
     (\<forall>c \<in> set (nd_children (xml_child nd ''devices'')). nd_name c = ''disk'' \<longrightarrow> disk_described c)"

lemma disks_block_info_total:
  assumes L: "as_string_ok L" and blocks: "\<And>dev. \<exists>bi. domain_block_info lv d dev w = (Ok bi, w)"
    and dv: "array_keys ARRAY_KEYS (xml_to_json nd) = Ok dv"
    and disks: "\<And>c. c \<in> set (nd_children nd) \<Longrightarrow> nd_name c = ''disk'' \<Longrightarrow> disk_described c"
  shows "\<exists>dv'. disks_block_info L lv d dv w = (Ok dv', w)"
proof -
  obtain m where m: "dv = JObject m"
    using dv by (metis array_keys_object is_object_xml_to_json is_objectE outcome.inject(1))
  have "''disk'' \<in> set ARRAY_KEYS" by (simp add: ARRAY_KEYS_def)
  from array_keys_xml [OF this dv] m have found: "sm_find ''disk'' m = array_of (child_values nd ''disk'')" by simp
  have "\<exists>y. add_block_info L lv d x w = (Ok y, w)" if x: "x \<in> set (child_values nd ''disk'')" for x
  proof -
    from x obtain c where c: "x = xml_to_json c" "c \<in> set (nd_children nd)" "nd_name c = ''disk''"
      by (auto simp: child_values_def)
    from disks [OF c(2,3)] obtain kind target dev where k: "attr_of c ''device'' = Some kind"
      "child_values c ''target'' = [xml_to_json target]" "attr_of target ''dev'' = Some dev"
      by (auto simp: disk_described_def)
    obtain bi where "domain_block_info lv d dev w = (Ok bi, w)" using blocks by blast
    from disk_block_info [OF L k this] show ?thesis unfolding c(1) by (cases "kind = ''disk''") auto
  qed
  from act_map_total [of "child_values nd ''disk''" "add_block_info L lv d" w, OF this]
  obtain ys where "act_map (add_block_info L lv d) (child_values nd ''disk'') w = (Ok ys, w)" by blast
  then show ?thesis
    using found by (cases "child_values nd ''disk'' = []") (auto simp: m disks_block_info_def array_of_def act_simps)
qed

lemma data_domain_runs:
  assumes "simple_domain lv d w = (Ok base, w)" "sm_find ''devices'' (members base) = None"
    and "domain_autostart lv d w = (Ok a, w)" "domain_xml_document L lv d w = (Ok doc, w)"
    and "describable (xml_child doc ''domain'')" "as_string_ok L" "\<And>dev. \<exists>bi. domain_block_info lv d dev w = (Ok bi, w)"
  shows "\<exists>j. data_domain L lv d w = (Ok j, w) \<and>
    (\<forall>k v. k \<noteq> ''devices'' \<longrightarrow> sm_find k (members (xml_to_json (xml_child doc ''domain''))) = Some v \<longrightarrow>
      sm_find k (members j) = Some v)"
proof -
  let ?nd = "xml_child doc ''domain''"
  let ?out = "merge_members (xml_to_json ?nd) (sm_put ''autostart'' (JBool a) (members base))"
  let ?dv = "fst (sm_index JNull ''devices'' ?out)"
  have dv: "?dv = (case collect (child_values ?nd ''devices'') of Some v \<Rightarrow> v | None \<Rightarrow> JNull)"
    using assms(2) xml_members_find [of "''devices''" ?nd]
    by (simp add: fst_sm_index merge_members_find sm_find_put base_values_none split: option.split)
  have "\<exists>dv1 dv2. array_keys ARRAY_KEYS ?dv = Ok dv1 \<and> disks_block_info L lv d dv1 w = (Ok dv2, w)"
  proof (cases "child_values ?nd ''devices''")
    case Nil
    then show ?thesis by (simp add: dv array_keys_null disks_block_info_def act_simps)
  next
    case (Cons v vs)
    with assms(5) have one: "child_values ?nd ''devices'' = [v]" by (simp add: describable_def)
    with dv have dv': "?dv = xml_to_json (xml_child ?nd ''devices'')" using xml_child_values [OF one] by simp
    obtain dv1 where keys: "array_keys ARRAY_KEYS (xml_to_json (xml_child ?nd ''devices'')) = Ok dv1"
      by (metis array_keys_object is_object_xml_to_json is_objectE)
    from disks_block_info_total [OF assms(6,7) this] assms(5) keys dv' show ?thesis
      by (auto simp: describable_def)
  qed
  then obtain dv1 dv2 where "array_keys ARRAY_KEYS ?dv = Ok dv1" "disks_block_info L lv d dv1 w = (Ok dv2, w)" by blast
  then show ?thesis
    by (simp add: data_domain_def Let_def act_simps assms(1,3,4) case_prod_beta sm_find_put sm_find_index merge_members_find)
qed


section \<open>The boot menu in the document\<close>

lemma filter_update_first:
  assumes "\<And>c. nd_name c = n \<Longrightarrow> nd_name (f c) = n"
  shows "filter (\<lambda>c. nd_name c = m) (update_first n f cs) =
    (if m = n then (case filter (\<lambda>c. nd_name c = n) cs of [] \<Rightarrow> [] | c # r \<Rightarrow> f c # r) else filter (\<lambda>c. nd_name c = m) cs)"
  using assms by (induction cs) auto

text \<open>A document with one \<open>os\<close> element that has at most one boot menu, as libvirt's have.\<close>

definition one_os :: "xml \<Rightarrow> bool" where
  "one_os nd \<longleftrightarrow> (case filter (\<lambda>c. nd_name c = ''os'') (nd_children nd) of [os] \<Rightarrow> one_bootmenu os | _ \<Rightarrow> False)"

lemma bootmenu_domain:
  assumes "one_os (xml_child doc ''domain'')"
  shows "xml_child (bootmenu_document e doc) ''domain'' = update_child ''os'' (set_bootmenu e) (xml_child doc ''domain'')"
proof -
  have "xml_child doc ''domain'' \<noteq> null_node" using assms by (auto simp: one_os_def null_node_def)
  then show ?thesis by (simp add: bootmenu_document_def xml_child_update_child)
qed

lemma bootmenu_describable:
  assumes "one_os (xml_child doc ''domain'')" "describable (xml_child doc ''domain'')"
  shows "describable (xml_child (bootmenu_document e doc) ''domain'')"
  using assms(2) unfolding bootmenu_domain [OF assms(1)] describable_def
  by (simp add: child_values_def xml_child_def update_child_def filter_update_first)

lemma bootmenu_members:
  assumes "one_os (xml_child doc ''domain'')"
  shows "sm_find ''os'' (members (xml_to_json (xml_child (bootmenu_document e doc) ''domain''))) =
      Some (xml_to_json (bootmenu_os e doc))"
    and "sm_find ''bootmenu'' (members (xml_to_json (bootmenu_os e doc))) =
      Some (JObject [(''attrib'', JObject [(''enable'', JString e)])])"
proof -
  let ?nd = "xml_child doc ''domain''"
  obtain os where os: "filter (\<lambda>c. nd_name c = ''os'') (nd_children ?nd) = [os]" "one_bootmenu os"
    using assms by (auto simp: one_os_def split: list.splits)
  then have "os \<in> set (filter (\<lambda>c. nd_name c = ''os'') (nd_children ?nd))" by simp
  then have "nd_name os = ''os''" by simp
  then have of: "os_of doc = os" "os_of doc \<noteq> null_node" using os(1) by (auto simp: os_of_def xml_child_def null_node_def)
  have set: "bootmenu_os e doc = set_bootmenu e os" using os_of_bootmenu [OF of(2)] of(1) by simp
  have "child_values (update_child ''os'' (set_bootmenu e) ?nd) ''os'' = [xml_to_json (set_bootmenu e os)]"
    by (simp add: child_values_def update_child_def filter_update_first os(1))
  then show "sm_find ''os'' (members (xml_to_json (xml_child (bootmenu_document e doc) ''domain''))) = Some (xml_to_json (bootmenu_os e doc))"
    unfolding set bootmenu_domain [OF assms] by (subst xml_members_find) (simp_all add: base_values_none)
  have "child_values (set_bootmenu e os) ''bootmenu'' = [xml_to_json (Node ''bootmenu'' [(''enable'', e)] [] [])]"
    by (simp only: child_values_def set_bootmenu_content(1) [OF os(2)] list.map)
  then show "sm_find ''bootmenu'' (members (xml_to_json (bootmenu_os e doc))) =
      Some (JObject [(''attrib'', JObject [(''enable'', JString e)])])"
    unfolding set by (subst xml_members_find) (simp_all add: base_values_none xml_base_def xml_attributes_def)
qed

section \<open>Two requests\<close>

text \<open>
  What libvirt keeps of a domain beside the store: its document, and whether it starts with the host. A
  document of the domain that is defined is the one that is described afterwards, and a disk's sizes can
  be asked for.
\<close>

definition keeps_document ::
    "libs \<Rightarrow> 'w libvirt_c \<Rightarrow> connection \<Rightarrow> domain_ptr \<Rightarrow> ('w \<Rightarrow> store) \<Rightarrow> ('w \<Rightarrow> xml) \<Rightarrow> bool" where
  "keeps_document L lv c d doms doc \<longleftrightarrow>
     (\<forall>w. domain_xml_document L lv d w = (Ok (doc w), w) \<and> domain_autostart lv d w = (Ok (do_autostart (doms w d)), w)) \<and>
     (\<forall>w. \<forall>e \<in> {''yes'', ''no''}. \<exists>p w'. domain_define_xml lv (vc_ptr c) (c_str (lib_xml_save L (bootmenu_document e (doc w)))) w = (Ok (Some p), w') \<and>
        doc w' = bootmenu_document e (doc w) \<and> doms w' = doms w) \<and>
     (\<forall>w dev. \<exists>bi. domain_block_info lv d dev w = (Ok bi, w))"

text \<open>A request to a view of a domain that is there is answered as the view does.\<close>

lemma domain_request_run:
  assumes "segment_ok u" "segment_ok n" "rq_target req = ''/users/'' @ u @ ''/domains/'' @ n @ domain_suffix op"
    and "rq_method req \<in> set (domain_methods op)" "rq_method req \<noteq> Options"
    and "ready os u c s" "serves_domains lv c ids boot doms" "named ids (doms (sv_world s)) n = Some d"
    and "domain_view_of conf L lv os op u d hc [rq_target req, u, n] req (fresh (domain_methods op) s) = (Ok (), t)"
  shows "\<exists>s1. router_run L (app_router conf L lv os) hc req s = (Ok (), s1) \<and>
    sv_pool s1 = sv_pool t \<and> sv_world s1 = sv_world t \<and> sv_response s1 = sv_response t"
proof -
  have "with_libvirt_domain L lv os (domain_view_of conf L lv os op) hc [rq_target req, u, n] req
      (fresh (domain_methods op) s) = (Ok (), t)"
    using guarded_domain_view [where s = "fresh (domain_methods op) s" and match = "[rq_target req, u, n]" and n = n,
        OF _ _ _ assms(7)] assms(6,8,9) by (simp add: sub_match_def)
  from route_run [where f = "with_libvirt_domain L lv os (domain_view_of conf L lv os op)", OF assms(4,5) this]
  show ?thesis by (auto simp: domain_dispatch [OF assms(1-3)] act_simps log_access_run)
qed

lemma fresh_body: "rs_body (sv_response (fresh ms s)) = []"
  by (simp add: fresh_def new_response_def set_field_def)

lemma bootmenu_view_run:
  assumes "keeps_document L lv c d doms doc" "sm_find u (sv_pool s) = Some c"
  shows "\<exists>w'. domains_bootmenu L lv u d hc match req s = (Ok (), s\<lparr>sv_world := w',
      sv_response := set_response_json L (xml_to_json (bootmenu_os (if rq_method req = Post then ''yes'' else ''no'') (doc (sv_world s))))
        Status_Ok (sv_response s)\<rparr>) \<and>
    doc w' = bootmenu_document (if rq_method req = Post then ''yes'' else ''no'') (doc (sv_world s)) \<and> doms w' = doms (sv_world s)"
proof -
  let ?e = "if rq_method req = Post then ''yes'' else ''no''" and ?w = "sv_world s"
  have "?e \<in> {''yes'', ''no''}" by simp
  from assms(1) [unfolded keeps_document_def, THEN conjunct2, THEN conjunct1, rule_format, OF this, of ?w]
  obtain p w' where def: "domain_define_xml lv (vc_ptr c) (c_str (lib_xml_save L (bootmenu_document ?e (doc ?w)))) ?w = (Ok (Some p), w')"
    and w': "doc w' = bootmenu_document ?e (doc ?w)" "doms w' = doms ?w"
    by (elim exE conjE) (rule that)
  have "domain_xml_document L lv d ?w = (Ok (doc ?w), ?w)" using assms(1) by (simp add: keeps_document_def)
  from on_domain_Ok [where m = "domain_xml_document L lv d", OF assms(2) this]
  have "on_domain u (domain_xml_document L lv d) s = (Ok (doc ?w), s)" by simp
  with on_conn_Ok [where m = "\<lambda>c. domain_define_xml lv (vc_ptr c) (c_str (lib_xml_save L (bootmenu_document ?e (doc ?w))))",
      OF assms(2) def] w' show ?thesis
    by (intro exI [of _ w']) (simp add: domains_bootmenu_def Let_def act_simps)
qed

lemma show_view_run:
  assumes "keeps_document L lv c d doms doc" "reads_back lv d doms" "as_string_ok L" "sm_find u (sv_pool s) = Some c"
    and "describable (xml_child (doc (sv_world s)) ''domain'')"
  shows "\<exists>j. domains_show L lv u d hc match req s = (Ok (), s\<lparr>sv_response := set_response_json L j Status_Ok (sv_response s)\<rparr>) \<and>
    (\<forall>k v. k \<noteq> ''devices'' \<longrightarrow> sm_find k (members (xml_to_json (xml_child (doc (sv_world s)) ''domain''))) = Some v \<longrightarrow>
      sm_find k (members j) = Some v)"
proof -
  have none: "sm_find ''devices'' (members (dom_json (doms (sv_world s) d))) = None" by (simp add: dom_json_def)
  have reads: "domain_autostart lv d (sv_world s) = (Ok (do_autostart (doms (sv_world s) d)), sv_world s)"
    "domain_xml_document L lv d (sv_world s) = (Ok (doc (sv_world s)), sv_world s)"
    using assms(1) by (simp_all add: keeps_document_def)
  have blocks: "\<exists>bi. domain_block_info lv d dev (sv_world s) = (Ok bi, sv_world s)" for dev
    using assms(1) unfolding keeps_document_def by blast
  obtain j where j: "data_domain L lv d (sv_world s) = (Ok j, sv_world s)"
    and members: "\<forall>k v. k \<noteq> ''devices'' \<longrightarrow> sm_find k (members (xml_to_json (xml_child (doc (sv_world s)) ''domain''))) = Some v \<longrightarrow>
      sm_find k (members j) = Some v"
    using data_domain_runs [OF simple_domain_run [OF assms(2)] none reads assms(5,3) blocks] by (elim exE conjE) (rule that)
  have "domains_show L lv u d hc match req s = (Ok (), s\<lparr>sv_response := set_response_json L j Status_Ok (sv_response s)\<rparr>)"
    using on_domain_Ok [where m = "data_domain L lv d", OF assms(4) j] by (simp add: domains_show_def act_simps)
  with members show ?thesis by (intro exI [of _ j] conjI)
qed

text \<open>The two requests, answered.\<close>

lemma bootmenu_answered:
  assumes "serves_domains lv c ids boot doms" "segment_ok u" "segment_ok n" "ready os u c s"
    and d: "named ids (doms (sv_world s)) n = Some d" and keeps: "keeps_document L lv c d doms doc"
    and r: "rq_target r = ''/users/'' @ u @ ''/domains/'' @ n @ ''/bootmenu/''" "rq_method r = (if on then Post else Delete)"
  shows "\<exists>t. router_run L (app_router conf L lv os) hc r s = (Ok (), t) \<and> sv_pool t = sv_pool s \<and>
    doc (sv_world t) = bootmenu_document (if on then ''yes'' else ''no'') (doc (sv_world s)) \<and>
    doms (sv_world t) = doms (sv_world s) \<and> rs_result (sv_response t) = Status_Ok \<and>
    rs_body (sv_response t) = stringify L (xml_to_json (bootmenu_os (if on then ''yes'' else ''no'') (doc (sv_world s))))"
proof -
  let ?s = "fresh [Post, Delete] s" and ?e = "if on then ''yes'' else ''no''"
  let ?osj = "xml_to_json (bootmenu_os ?e (doc (sv_world s)))"
  have c: "sm_find u (sv_pool ?s) = Some c" using assms(4) by (simp add: ready_def)
  have e: "(if rq_method r = Post then ''yes'' else ''no'') = ?e" by (simp add: r(2))
  have q: "rq_target r = ''/users/'' @ u @ ''/domains/'' @ n @ domain_suffix Bootmenu_Op"
    "rq_method r \<in> set (domain_methods Bootmenu_Op)" "rq_method r \<noteq> Options" by (simp_all add: r)
  obtain w' where view: "domains_bootmenu L lv u d hc [rq_target r, u, n] r ?s =
      (Ok (), ?s\<lparr>sv_world := w', sv_response := set_response_json L ?osj Status_Ok (sv_response ?s)\<rparr>)"
    and w': "doc w' = bootmenu_document ?e (doc (sv_world s))" "doms w' = doms (sv_world s)"
    using bootmenu_view_run [where req = r and match = "[rq_target r, u, n]" and hc = hc, OF keeps c]
    unfolding e by (auto simp only: fresh_simps)
  have "domain_view_of conf L lv os Bootmenu_Op u d hc [rq_target r, u, n] r (fresh (domain_methods Bootmenu_Op) s) =
      (Ok (), ?s\<lparr>sv_world := w', sv_response := set_response_json L ?osj Status_Ok (sv_response ?s)\<rparr>)"
    by (simp add: view)
  from domain_request_run [OF assms(2,3) q assms(4,1) d this] w' show ?thesis by (auto simp: fresh_body)
qed

lemma show_answered:
  assumes "serves_domains lv c ids boot doms" "as_string_ok L" "segment_ok u" "segment_ok n" "ready os u c s"
    and d: "named ids (doms (sv_world s)) n = Some d" and keeps: "keeps_document L lv c d doms doc"
    and doc: "describable (xml_child (doc (sv_world s)) ''domain'')"
    and r: "rq_target r = ''/users/'' @ u @ ''/domains/'' @ n @ ''/''" "rq_method r = Get"
  shows "\<exists>j t. router_run L (app_router conf L lv os) hc r s = (Ok (), t) \<and> sv_pool t = sv_pool s \<and>
    rs_result (sv_response t) = Status_Ok \<and> rs_body (sv_response t) = stringify L j \<and>
    (\<forall>k v. k \<noteq> ''devices'' \<longrightarrow> sm_find k (members (xml_to_json (xml_child (doc (sv_world s)) ''domain''))) = Some v \<longrightarrow>
      sm_find k (members j) = Some v)"
proof -
  let ?s = "fresh [Get] s"
  have c: "sm_find u (sv_pool ?s) = Some c" using assms(5) by (simp add: ready_def)
  have q: "rq_target r = ''/users/'' @ u @ ''/domains/'' @ n @ domain_suffix Show_Op"
    "rq_method r \<in> set (domain_methods Show_Op)" "rq_method r \<noteq> Options" by (simp_all add: r)
  have doc': "describable (xml_child (doc (sv_world ?s)) ''domain'')" using doc by simp
  obtain j where view: "domains_show L lv u d hc [rq_target r, u, n] r ?s =
      (Ok (), ?s\<lparr>sv_response := set_response_json L j Status_Ok (sv_response ?s)\<rparr>)"
    and j: "\<forall>k v. k \<noteq> ''devices'' \<longrightarrow> sm_find k (members (xml_to_json (xml_child (doc (sv_world s)) ''domain''))) = Some v \<longrightarrow>
      sm_find k (members j) = Some v"
    using show_view_run [where req = r and match = "[rq_target r, u, n]" and hc = hc,
        OF keeps serves_named(1) [OF assms(1) d] assms(2) c doc'] by (auto simp only: fresh_simps)
  have "domain_view_of conf L lv os Show_Op u d hc [rq_target r, u, n] r (fresh (domain_methods Show_Op) s) =
      (Ok (), ?s\<lparr>sv_response := set_response_json L j Status_Ok (sv_response ?s)\<rparr>)"
    by (simp add: view)
  from domain_request_run [OF assms(3,4) q assms(5,1) d this] j show ?thesis
    by (intro exI [of _ j]) (auto simp: fresh_body)
qed


section \<open>A domain with a document\<close>

text \<open>Documents with and without a boot menu, and a library that writes and reads them.\<close>

definition menu_document :: "string option \<Rightarrow> xml" where
  "menu_document e = Node [] [] [] [Node ''domain'' [(''type'', ''kvm'')] [] [Node ''os'' [] []
     (Node ''type'' [] ''hvm'' [] # (case e of None \<Rightarrow> [] | Some v \<Rightarrow> [Node ''bootmenu'' [(''enable'', v)] [] []]))]]"

definition menu_libs :: libs where
  "menu_libs = lab_libs\<lparr>
     lib_xml_load := (\<lambda>s. menu_document (if s = ''yes'' \<or> s = ''no'' then Some s else None)),
     lib_xml_save := (\<lambda>x. if x = menu_document (Some ''yes'') then ''yes''
       else if x = menu_document (Some ''no'') then ''no'' else [])\<rparr>"

lemma menu_document_change: "bootmenu_document e (menu_document v) = menu_document (Some e)"
  by (simp add: menu_document_def bootmenu_document_def update_child_def set_bootmenu_def split: option.split)

lemma menu_document_ok: "one_os (xml_child (menu_document v) ''domain'')" "describable (xml_child (menu_document v) ''domain'')"
  by (simp_all add: menu_document_def one_os_def one_bootmenu_def describable_def xml_child_def child_values_def null_node_def
      split: option.split)

lemma menu_document_inject: "menu_document (Some e) = menu_document (Some f) \<longleftrightarrow> e = f"
  by (simp add: menu_document_def)

lemma menu_kept: "keeps_document menu_libs store_libvirt open_connection 1 stored (\<lambda>w. lib_xml_load menu_libs (snd w))"
proof -
  note defs = store_libvirt_def stub_with_def libvirt_defs domain_defs act_simps case_prod_beta
  have load: "lib_xml_load menu_libs x = menu_document (if x = ''yes'' \<or> x = ''no'' then Some x else None)" for x
    by (simp add: menu_libs_def)
  have save: "e \<in> {''yes'', ''no''} \<Longrightarrow> lib_xml_save menu_libs (menu_document (Some e)) = e \<and> c_str e = e" for e
    by (auto simp: menu_libs_def menu_document_inject c_str_def)
  have "domain_define_xml store_libvirt p x w = (Ok (Some 1), (fst w, x))" for p x w
    by (simp add: defs)
  moreover have "domain_xml_document menu_libs store_libvirt 1 w = (Ok (lib_xml_load menu_libs (snd w)), w)"
    "domain_autostart store_libvirt 1 w = (Ok (do_autostart (stored w 1)), w)"
    "domain_block_info store_libvirt 1 dev w = (Ok \<lparr>bi_capacity = 0, bi_allocation = 0, bi_physical = 0\<rparr>, w)" for w dev
    by (simp_all add: defs stored_def)
  ultimately show ?thesis
    by (auto simp: keeps_document_def load menu_document_change save stored_def fun_eq_iff)
qed


end
