(* ===== verification/Session.thy ===== *)
theory Session
  imports Domain_Store Clients Daemon
begin

text \<open>
  The client of \<open>http/client.cpp\<close> talking to the daemon: what the one writes is what the other reads. A
  session is a list of calls, each made by a client object of its own, as the tests of the program do;
  the daemon serves every request on a connection of its own.
\<close>

section \<open>The wire\<close>

text \<open>
  What the HTTP library makes of a message between its two ends is a parameter. A request keeps its
  method and target and, where its length is announced, its body; the client sets no field that asks
  for an upgrade. A response keeps its status, and its body unless the status does not allow one.
\<close>

record wire =
  wr_request :: "client_request \<Rightarrow> request"
  wr_response :: "response \<Rightarrow> response"

definition shown_body :: "status \<Rightarrow> string \<Rightarrow> string" where
  "shown_body st b = (if result_int st < 200 \<or> result_int st = 204 \<or> result_int st = 304 then [] else b)"

definition carries :: "wire \<Rightarrow> bool" where
  "carries W \<longleftrightarrow>
     (\<forall>r. rq_method (wr_request W r) = cr_method r \<and> rq_target (wr_request W r) = cr_target r \<and>
        \<not> rq_upgrade (wr_request W r) \<and>
        (cr_length r = Some (length (cr_body r)) \<longrightarrow> rq_body (wr_request W r) = cr_body r)) \<and>
     (\<forall>r. rs_result (wr_response W r) = rs_result r \<and>
        rs_body (wr_response W r) = shown_body (rs_result r) (rs_body r))"

section \<open>One request\<close>

text \<open>The daemon's side: a new connection, the request it reads, the response it writes.\<close>

definition next_http :: "'w server \<Rightarrow> http_id" where
  "next_http s = Suc (fold max (map fst (sv_http s)) 0)"

definition server_reply ::
    "string \<Rightarrow> virt_config \<Rightarrow> libs \<Rightarrow> 'w libvirt_c \<Rightarrow> 'w os \<Rightarrow> wire \<Rightarrow> client_request \<Rightarrow> ('w server, response) act" where
  "server_reply sn conf L lv os W r =
     act_bind (act_read next_http) (\<lambda>h.
     act_then (act_modify (\<lambda>s. s\<lparr>sv_http := sm_put h (new_http (wr_request W r)) (sv_http s)\<rparr>))
     (act_then (process_request sn (app_on_request conf L lv os) h)
     (act_read (\<lambda>s. wr_response W (sv_response s)))))"

text \<open>
  Both sides: the client, the daemon, and the request that has been written and not yet answered. A
  completion of the client's read is where the daemon has answered; without a request it never comes.
\<close>

record ('x, 's) session =
  se_client :: "'x http_client_scheme"
  se_server :: "'s"
  se_sent :: "client_request option"

definition on_client :: "('x http_client_scheme, 'a) act \<Rightarrow> (('x, 's) session, 'a) act" where
  "on_client m = (\<lambda>e. let (r, c) = m (se_client e) in (r, e\<lparr>se_client := c\<rparr>))"

definition on_server :: "('s, 'a) act \<Rightarrow> (('x, 's) session, 'a) act" where
  "on_server m = (\<lambda>e. let (r, s) = m (se_server e) in (r, e\<lparr>se_server := s\<rparr>))"

definition carrying :: "response \<Rightarrow> network" where
  "carrying r = \<lparr>nt_connect = None, nt_write = (\<lambda>_. None), nt_read = Inr r\<rparr>"

definition session_complete ::
    "'x http_client_scheme client_handlers \<Rightarrow> (client_request \<Rightarrow> ('s, response) act) \<Rightarrow> (('x, 's) session, unit) act" where
  "session_complete h reply =
     act_bind (act_read (\<lambda>e. ht_pending (se_client e))) (\<lambda>io. case io of
       Sending r \<Rightarrow> act_then (on_client (client_complete h (carrying new_response)))
         (act_modify (\<lambda>e. e\<lparr>se_sent := Some r\<rparr>))
     | Receiving \<Rightarrow> act_bind (act_read se_sent) (\<lambda>sent. case sent of
           None \<Rightarrow> act_lift Hang
         | Some r \<Rightarrow> act_bind (on_server (reply r)) (\<lambda>resp.
             act_then (act_modify (\<lambda>e. e\<lparr>se_sent := None\<rparr>)) (on_client (client_complete h (carrying resp)))))
     | _ \<Rightarrow> on_client (client_complete h (carrying new_response)))"

text \<open>\<open>client::run\<close> on both: handlers until no operation is pending, then the socket is closed.\<close>

fun session_loop ::
    "'x http_client_scheme client_handlers \<Rightarrow> (client_request \<Rightarrow> ('s, response) act) \<Rightarrow> nat \<Rightarrow> (('x, 's) session, unit) act" where
  "session_loop h reply 0 = act_lift Hang"
| "session_loop h reply (Suc k) = act_bind (act_read (\<lambda>e. ht_pending (se_client e))) (\<lambda>io.
     if io = No_Io then on_client (act_modify client_close)
     else act_then (session_complete h reply) (session_loop h reply k))"

lemma session_loop_story:
  assumes "observing h fc fr fe fx" "ht_pending c = Connecting"
    and "reply (ht_request c) s = (Ok resp, t)"
  shows "\<exists>c'. session_loop h reply (4 + k) \<lparr>se_client = c, se_server = s, se_sent = sent\<rparr> =
      (Ok (), \<lparr>se_client = c', se_server = t, se_sent = None\<rparr>) \<and>
    ht_socket c' = Client_Closed \<and> http_client.more c' = fx (fr resp (fc (http_client.more c)))"
proof -
  note obs = assms(1) [unfolded observing_def]
  show ?thesis
    by (simp add: session_complete_def on_client_def on_server_def carrying_def client_complete_def client_on_connect_def
        client_on_write_def client_on_read_def act_bind_def act_then_def act_read_def act_modify_def act_return_def
        client_close_def obs assms(2,3) eval_nat_numeral)
qed

section \<open>A session\<close>

datatype client_call = Call_Get string | Call_Post string string

fun start_call :: "string \<Rightarrow> client_call \<Rightarrow> 'x http_client_scheme \<Rightarrow> 'x http_client_scheme" where
  "start_call agent (Call_Get target) c = async_get agent target c"
| "start_call agent (Call_Post target data) c = async_post agent target data c"

definition new_client :: "string \<Rightarrow> 'x \<Rightarrow> 'x http_client_scheme" where
  "new_client host x = http_client.extend (http_client_new host 11) x"

text \<open>The callbacks of the clients keep their own record \<open>'x\<close>, which each hands on to the next.\<close>

fun client_session ::
    "string \<Rightarrow> string \<Rightarrow> 'x http_client_scheme client_handlers \<Rightarrow> (client_request \<Rightarrow> ('s, response) act) \<Rightarrow>
      client_call list \<Rightarrow> ('x \<times> 's, unit) act" where
  "client_session agent host h reply [] = act_return ()"
| "client_session agent host h reply (call # calls) = (\<lambda>(x, s).
     case session_loop h reply 4 \<lparr>se_client = start_call agent call (new_client host x), se_server = s, se_sent = None\<rparr> of
       (Ok u, e) \<Rightarrow> client_session agent host h reply calls (http_client.more (se_client e), se_server e)
     | (r, e) \<Rightarrow> (r, (http_client.more (se_client e), se_server e)))"

text \<open>The call a client makes for an operation on the store; the client has no way to delete.\<close>

fun calls_for :: "libs \<Rightarrow> string \<Rightarrow> store_op \<Rightarrow> client_call \<Rightarrow> bool" where
  "calls_for L u List_Domains call \<longleftrightarrow> call = Call_Get (''/users/'' @ u @ ''/domains/'')"
| "calls_for L u (Set_Autostart n b) call \<longleftrightarrow> segment_ok n \<and> b \<and>
     (\<exists>data. call = Call_Post (''/users/'' @ u @ ''/domains/'' @ n @ ''/autostart/'') data)"
| "calls_for L u (Set_Metadata n m) call \<longleftrightarrow> segment_ok n \<and> text_or_absent m ''title'' \<and> text_or_absent m ''description'' \<and>
     (\<exists>data. call = Call_Post (''/users/'' @ u @ ''/domains/'' @ n @ ''/metadata/'') data \<and> parse L data = Ok (JObject m))"
| "calls_for L u (Start_Domain n) call \<longleftrightarrow> segment_ok n \<and>
     (\<exists>data. call = Call_Post (''/users/'' @ u @ ''/domains/'' @ n @ ''/start/'') data)"

lemma new_client_fields [simp]:
  "cr_body (ht_request (new_client host x)) = []" "http_client.more (new_client host x) = x"
  by (simp_all add: new_client_def http_client_new_def client_host_def client_version_def http_client.defs)

lemma start_call_fields [simp]:
  "ht_pending (start_call agent call c) = Connecting" "http_client.more (start_call agent call c) = http_client.more c"
  by (cases call; simp add: request_defs)+

lemma calls_issue:
  assumes "carries W" "calls_for L u op call"
  shows "issues L u op (wr_request W (ht_request (start_call agent call (new_client host x))))"
  using assms by (cases op) (auto simp: carries_def request_defs)


section \<open>The daemon's answer\<close>

lemma le_fold_max:
  assumes "k \<in> insert m (set xs)"
  shows "k \<le> fold max xs (m :: nat)"
proof -
  have "k \<le> Max (insert m (set xs))" using assms by (intro Max_ge) auto
  then show ?thesis using Max.set_eq_fold [of m xs] by simp
qed

lemma next_http_new: "sm_find (next_http s) (sv_http s) = None"
proof -
  have "k \<noteq> next_http s" if "k \<in> fst ` set (sv_http s)" for k
    using le_fold_max [of k 0 "map fst (sv_http s)"] that by (auto simp: next_http_def)
  then show ?thesis by (auto simp: sm_find_None_iff)
qed

lemma issues_endpoint:
  assumes "segment_ok u" "issues L u op req"
  shows "path_endpoint (rq_target req) \<noteq> Some (User_Route Ws_Op v)"
proof (cases op)
  case List_Domains
  with assms show ?thesis using path_endpoint_index [OF assms(1)] by simp
next
  case (Set_Autostart n b)
  with assms show ?thesis using path_endpoint_domain [OF assms(1), of n Autostart_Op] by simp
next
  case (Set_Metadata n m)
  with assms show ?thesis using path_endpoint_domain [OF assms(1), of n Metadata_Op] by simp
next
  case (Start_Domain n)
  with assms show ?thesis using path_endpoint_domain [OF assms(1), of n Start_Op] by simp
qed

lemma server_reply_answered:
  assumes lv: "serves_domains lv c ids boot doms" "null_refused lv" and L: "as_string_ok L" and u: "segment_ok u"
    and W: "carries W" and r: "ready os u c s" and reach: "reaches sn conf L lv os (s, p)"
    and op: "issues L u op (wr_request W r)" "store_step ids boot op (doms (sv_world s)) = (S, st, j)"
  shows "\<exists>resp t. server_reply sn conf L lv os W r s = (Ok resp, t) \<and> sv_pool t = sv_pool s \<and> doms (sv_world t) = S \<and>
    rs_result resp = st \<and> rs_body resp = shown_body st (stringify L j) \<and> reaches sn conf L lv os (t, p)"
proof -
  let ?req = "wr_request W r" and ?h = "next_http s"
  let ?s1 = "s\<lparr>sv_http := sm_put ?h (new_http ?req) (sv_http s)\<rparr>"
  have h: "sm_find ?h (sv_http ?s1) = Some (new_http ?req)" by (simp add: sm_find_put)
  have new: "hc_request (new_http ?req) = ?req" "hc_websock (new_http ?req) = None" by (simp_all add: new_http_def)
  obtain r0 where proc: "process_request sn (app_on_request conf L lv os) ?h ?s1 =
      act_then (router_run L (app_router conf L lv os) (Some ?h) ?req) (finish_request ?h ?req) (?s1\<lparr>sv_response := r0\<rparr>)"
    using process_request_router [OF h, of sn conf L lv os] new by auto
  have "ready os u c (?s1\<lparr>sv_response := r0\<rparr>)" using r by (simp add: ready_def)
  from request_answered [OF lv(1) L u this op(1), of conf "Some ?h"] op(2) obtain t1 where
    t1: "router_run L (app_router conf L lv os) (Some ?h) ?req (?s1\<lparr>sv_response := r0\<rparr>) = (Ok (), t1)"
    "sv_pool t1 = sv_pool s" "doms (sv_world t1) = S" "rs_result (sv_response t1) = st" "rs_body (sv_response t1) = stringify L j"
    by (auto simp: answered_def)
  define t where "t = t1\<lparr>sv_response := (sv_response t1)\<lparr>rs_length := Some (length (rs_body (sv_response t1)))\<rparr>\<rparr>"
  have "\<not> rq_upgrade ?req" using W by (simp add: carries_def)
  then have run: "process_request sn (app_on_request conf L lv os) ?h ?s1 = (Ok Write_Response, t)"
    by (simp add: proc finish_request_def t1(1) act_simps t_def)
  have step1: "ws_step sn conf L lv os (s, p) (?s1, p)" by (rule ws_step.connects [OF next_http_new])
  have named: "pool_named (sv_pool ?s1)"
    using reaches_ok [OF reach lv(2)] by (simp add: system_ok_def tables_ok_def)
  from process_request_effect [OF named h new(2) run] issues_endpoint [OF u op(1)] new(1)
  have "sv_next_ws t = sv_next_ws ?s1" by (auto simp: request_effect_def ws_frame_from_def ws_same_def)
  then have step2: "ws_step sn conf L lv os (?s1, p) (t, p)"
    using ws_step.requests [OF h new(2) run, of p] by simp
  have "server_reply sn conf L lv os W r s = (Ok (wr_response W (sv_response t)), t)"
    by (simp add: server_reply_def act_simps run)
  moreover have "rs_result (wr_response W (sv_response t)) = st" "rs_body (wr_response W (sv_response t)) = shown_body st (stringify L j)"
    using W t1 by (simp_all add: carries_def t_def)
  moreover have "reaches sn conf L lv os (t, p)" using reaches_step [OF reaches_step [OF reach step1] step2] .
  ultimately show ?thesis using t1 by (intro exI [of _ "wr_response W (sv_response t)"] exI [of _ t]) (simp add: t_def)
qed


section \<open>What the clients are told\<close>

text \<open>What one answered call leaves in the record of the callbacks, when \<open>on_response\<close> looks at the status
  and the body.\<close>

definition told_reply :: "('x \<Rightarrow> 'x) \<Rightarrow> (status \<Rightarrow> string \<Rightarrow> 'x \<Rightarrow> 'x) \<Rightarrow> ('x \<Rightarrow> 'x) \<Rightarrow> status \<times> string \<Rightarrow> 'x \<Rightarrow> 'x" where
  "told_reply fc g fx = (\<lambda>(st, body) x. fx (g st body (fc x)))"

fun replies_of :: "('op \<Rightarrow> 'a \<Rightarrow> 'a \<times> status \<times> string) \<Rightarrow> 'op list \<Rightarrow> 'a \<Rightarrow> 'a \<times> (status \<times> string) list" where
  "replies_of spec [] S = (S, [])"
| "replies_of spec (op # ops) S =
     (let (S', reply) = spec op S; (S'', replies) = replies_of spec ops S' in (S'', reply # replies))"

text \<open>
  What a client relies on: a server that answers every request for an operation as a specification of
  it says, from every state of an invariant it keeps.
\<close>

locale answering_server =
  fixes reply :: "client_request \<Rightarrow> ('s, response) act"
    and inv :: "'s \<Rightarrow> bool"
    and abs :: "'s \<Rightarrow> 'a"
    and spec :: "'op \<Rightarrow> 'a \<Rightarrow> 'a \<times> status \<times> string"
    and asks :: "'op \<Rightarrow> client_request \<Rightarrow> bool"
  assumes answers: "inv s \<Longrightarrow> asks op r \<Longrightarrow> spec op (abs s) = (S, st, body) \<Longrightarrow>
    \<exists>resp t. reply r s = (Ok resp, t) \<and> inv t \<and> abs t = S \<and> rs_result resp = st \<and> rs_body resp = body"
begin

lemma session_answers:
  assumes h: "observing h fc (\<lambda>r. g (rs_result r) (rs_body r)) fe fx"
    and "list_all2 (\<lambda>op call. \<forall>x. asks op (ht_request (start_call agent call (new_client host (x :: 'x))))) ops calls" "inv s"
  shows "\<exists>t. client_session agent host h reply calls (x :: 'x, s) =
      (Ok (), (fold (told_reply fc g fx) (snd (replies_of spec ops (abs s))) x, t)) \<and>
    abs t = fst (replies_of spec ops (abs s)) \<and> inv t"
  using assms(2,3)
proof (induction ops calls arbitrary: x s rule: list_all2_induct)
  case Nil
  then show ?case by (simp add: act_simps)
next
  case (Cons op ops call calls)
  obtain S st body where step: "spec op (abs s) = (S, st, body)" by (metis prod_cases3)
  let ?c = "start_call agent call (new_client host x)"
  have "asks op (ht_request ?c)" using Cons.hyps(1) by blast
  from answers [OF Cons.prems this step] obtain resp t where t: "reply (ht_request ?c) s = (Ok resp, t)" "inv t" "abs t = S"
    "rs_result resp = st" "rs_body resp = body" by blast
  obtain c' where loop: "session_loop h reply 4 \<lparr>se_client = ?c, se_server = s, se_sent = None\<rparr> =
      (Ok (), \<lparr>se_client = c', se_server = t, se_sent = None\<rparr>)"
    and more: "http_client.more c' = told_reply fc g fx (st, body) x"
    using session_loop_story [OF h, of ?c reply s resp t 0 None] t(1,4,5) by (auto simp: told_reply_def)
  from Cons.IH [OF t(2), of "http_client.more c'"] obtain t' where
    "client_session agent host h reply calls (http_client.more c', t) =
      (Ok (), (fold (told_reply fc g fx) (snd (replies_of spec ops S)) (http_client.more c'), t'))"
    "abs t' = fst (replies_of spec ops S)" "inv t'"
    unfolding t(3) by (elim exE conjE) (rule that)
  then show ?case
    by (intro exI [of _ t']) (simp add: loop step more split: prod.split)
qed

end

text \<open>The daemon is such a server, for the operations on the store.\<close>

definition shown_step ::
    "libs \<Rightarrow> domain_ptr list \<Rightarrow> (domain_ptr \<Rightarrow> dom \<Rightarrow> dom option) \<Rightarrow> store_op \<Rightarrow> store \<Rightarrow> store \<times> status \<times> string" where
  "shown_step L ids boot op S = (let (S', st, j) = store_step ids boot op S in (S', st, shown_body st (stringify L j)))"

definition daemon_ready where
  "daemon_ready sn conf L lv os W c ids boot doms u p s \<longleftrightarrow> serves_domains lv c ids boot doms \<and> null_refused lv \<and>
     as_string_ok L \<and> segment_ok u \<and> carries W \<and> ready os u c s \<and> reaches sn conf L lv os (s, p)"

interpretation daemon_server: answering_server "server_reply sn conf L lv os W" "daemon_ready sn conf L lv os W c ids boot doms u p"
    "\<lambda>s. doms (sv_world s)" "shown_step L ids boot" "\<lambda>op r. issues L u op (wr_request W r)"
  for sn conf L lv os W c ids boot doms u p
proof unfold_locales
  fix s op r S st body
  assume s: "daemon_ready sn conf L lv os W c ids boot doms u p s" and op: "issues L u op (wr_request W r)"
    and "shown_step L ids boot op (doms (sv_world s)) = (S, st, body)"
  then obtain j where j: "store_step ids boot op (doms (sv_world s)) = (S, st, j)" "body = shown_body st (stringify L j)"
    by (auto simp: shown_step_def split: prod.splits)
  have d: "serves_domains lv c ids boot doms" "null_refused lv" "as_string_ok L" "segment_ok u" "carries W" "ready os u c s"
    "reaches sn conf L lv os (s, p)" using s by (simp_all add: daemon_ready_def)
  obtain resp t where t: "server_reply sn conf L lv os W r s = (Ok resp, t)" "sv_pool t = sv_pool s" "doms (sv_world t) = S"
    "rs_result resp = st" "rs_body resp = shown_body st (stringify L j)" "reaches sn conf L lv os (t, p)"
    using server_reply_answered [OF d op j(1)] by (elim exE conjE) (rule that)
  have "ready os u c t" using d(6) t(2) by (simp add: ready_def)
  with d t j(2) show "\<exists>resp t. server_reply sn conf L lv os W r s = (Ok resp, t) \<and>
      daemon_ready sn conf L lv os W c ids boot doms u p t \<and> doms (sv_world t) = S \<and> rs_result resp = st \<and> rs_body resp = body"
    by (intro exI [of _ resp] exI [of _ t]) (simp add: daemon_ready_def)
qed

lemma shown_replies:
  assumes "store_run ids boot ops S = (S', replies)"
  shows "replies_of (shown_step L ids boot) ops S = (S', map (\<lambda>(st, j). (st, shown_body st (stringify L j))) replies)"
  using assms
proof (induction ops arbitrary: S S' replies)
  case (Cons op ops)
  obtain S1 st j where step: "store_step ids boot op S = (S1, st, j)" by (metis prod_cases3)
  obtain S2 rs where rest: "store_run ids boot ops S1 = (S2, rs)" by force
  with step Cons.prems have "S' = S2" "replies = (st, j) # rs" by simp_all
  with Cons.IH [OF rest] step show ?case by (simp add: shown_step_def)
qed simp



section \<open>A session\<close>

text \<open>A libvirt that also opens connections and refuses null handles, and a daemon whose user has asked for
  a domain that is not there.\<close>

definition session_libvirt :: "(store \<times> string) libvirt_c" where
  "session_libvirt = store_libvirt\<lparr>c_virConnectOpen := (\<lambda>u. act_return (Some 7)),
     c_virConnectDomainEventRegisterAny := (\<lambda>conn ev. act_return (if conn = None then -1 else 5))\<rparr>"

definition started_daemon :: "(store \<times> string) server" where
  "started_daemon = \<lparr>sv_world = two_domains, sv_pool = [], sv_response = new_response, sv_http = [], sv_ws = [],
     sv_next_ws = 0, sv_websockets = [], sv_events = [], sv_written = [], sv_log = []\<rparr>"

definition plain_wire :: wire where
  "plain_wire = \<lparr>wr_request = (\<lambda>r. \<lparr>rq_method = cr_method r, rq_target = cr_target r, rq_version = 11,
       rq_body = (case cr_length r of Some n \<Rightarrow> take n (cr_body r) | None \<Rightarrow> []), rq_upgrade = False\<rparr>),
     wr_response = (\<lambda>r. r\<lparr>rs_body := shown_body (rs_result r) (rs_body r)\<rparr>)\<rparr>"


lemma session_run:
  "case process_request ''beast'' (app_on_request default_config lab_libs session_libvirt store_os) 0
       (started_daemon\<lparr>sv_http := sm_put 0 (new_http (request_of Get ''/users/test/domains/no/'')) []\<rparr>) of
     (Ok io, s) \<Rightarrow> io = Write_Response \<and> sv_next_ws s = 0 \<and> do_name (fst (sv_world s) 1) = ''vm'' \<and> do_name (fst (sv_world s) 2) = ''db'' \<and> sm_find ''test'' (sv_pool s) = Some open_connection
   | _ \<Rightarrow> False"
  by code_simp


lemma session_store_calls:
  "domain_id session_libvirt = domain_id store_libvirt" "domain_name session_libvirt = domain_name store_libvirt"
  "domain_metadata session_libvirt = domain_metadata store_libvirt" "domain_state session_libvirt = domain_state store_libvirt"
  "domain_set_metadata session_libvirt = domain_set_metadata store_libvirt" "domain_start session_libvirt = domain_start store_libvirt"
  "domain_set_autostart session_libvirt = domain_set_autostart store_libvirt"
  "connection_domains session_libvirt = connection_domains store_libvirt"
  "connection_domain session_libvirt = connection_domain store_libvirt"
  by (simp_all add: fun_eq_iff domain_defs libvirt_defs connection_defs session_libvirt_def)

lemma session_serves: "serves_domains session_libvirt open_connection [1, 2] started_dom stored"
  unfolding serves_domains_def reads_back_def changes_one_def session_store_calls
  by (rule store_serves [unfolded serves_domains_def reads_back_def changes_one_def])

lemma session_start:
  "\<exists>s. reaches ''beast'' default_config lab_libs session_libvirt store_os (s, []) \<and> ready store_os ''test'' open_connection s \<and>
     do_name (stored (sv_world s) 1) = ''vm'' \<and> do_name (stored (sv_world s) 2) = ''db''"
proof -
  let ?step = "ws_step ''beast'' default_config lab_libs session_libvirt store_os"
  let ?req = "request_of Get ''/users/test/domains/no/''"
  let ?s1 = "started_daemon\<lparr>sv_http := sm_put 0 (new_http ?req) []\<rparr>"
  obtain io s where io: "process_request ''beast'' (app_on_request default_config lab_libs session_libvirt store_os) 0 ?s1 = (Ok io, s)"
    and s: "io = Write_Response" "sv_next_ws s = 0" "do_name (fst (sv_world s) 1) = ''vm''" "do_name (fst (sv_world s) 2) = ''db''"
      "sm_find ''test'' (sv_pool s) = Some open_connection"
    using ok_case [OF session_run] by (elim exE conjE) (rule that)
  have h: "sm_find 0 (sv_http ?s1) = Some (new_http ?req)" "hc_websock (new_http ?req) = None" by (simp_all add: new_http_def)
  have "sm_find 0 (sv_http started_daemon) = None" by (simp add: started_daemon_def)
  from ws_step.connects [OF this, of "''beast''" default_config lab_libs session_libvirt store_os "[]" ?req]
  have "?step (started_daemon, []) (?s1, [])" by (simp add: started_daemon_def)
  moreover have "?step (?s1, []) (s, [])"
    using ws_step.requests [OF h io, of "[]"] s(2) by (simp add: started_daemon_def)
  moreover have "started (started_daemon, [])" by (simp add: started_def started_daemon_def)
  ultimately have "reaches ''beast'' default_config lab_libs session_libvirt store_os (s, [])"
    unfolding reaches_def by (meson r_into_rtranclp rtranclp.rtrancl_into_rtrancl)
  moreover have "ready store_os ''test'' open_connection s"
    using s(5) by (simp add: ready_def store_os_def open_connection_def connection_is_open_def)
  ultimately show ?thesis using s(3,4) by (auto simp: stored_def)
qed


end
