(* ===== verification/Notify.thy ===== *)
theory Notify
  imports Daemon Clients Domain_Store
begin

text \<open>
  From libvirt's events to the websocket client: the registration of a user (\<open>virt/events/lifecycle.cpp\<close>),
  the broadcast to the user's websockets (\<open>ws/pool.cpp\<close>) and the client that reads them
  (\<open>ws/client.cpp\<close>), on a daemon in any state it can reach.
\<close>

section \<open>One event\<close>

text \<open>The life cycle events that are passed on: started, stopped, shut down.\<close>

definition passed_on :: "int \<Rightarrow> bool" where
  "passed_on type \<longleftrightarrow> type = 2 \<or> type = 5 \<or> type = 6"

text \<open>What was written to one websocket, in order.\<close>

definition written_to :: "ws_id \<Rightarrow> 'w server \<Rightarrow> string list" where
  "written_to w s = map snd (filter (\<lambda>x. fst x = w) (sv_written s))"

text \<open>A domain whose list view can be read, and which libvirt lets the program hold.\<close>

definition announced :: "'w libvirt_c \<Rightarrow> domain_ptr \<Rightarrow> ('w \<Rightarrow> store) \<Rightarrow> bool" where
  "announced lv d doms \<longleftrightarrow> reads_back lv d doms \<and> (\<forall>w. \<exists>rc. virDomainRef lv d w = (Ok rc, w))"

lemma written_to_map:
  assumes "count (mset ws) w = 1"
  shows "map snd (filter (\<lambda>x. fst x = w) (map (\<lambda>v. (v, m)) ws)) = [m]"
proof -
  have "map snd (filter (\<lambda>x. fst x = w) (map (\<lambda>v. (v, m)) ws)) = replicate (count (mset ws) w) m" for ws
    by (induction ws) auto
  then show ?thesis by (simp add: assms)
qed

lemma event_written:
  assumes d: "announced lv d doms" and type: "0 \<le> type" "type < 9" and c: "sm_find (ev_conn ev) (sv_pool s) = Some c"
    and w: "count (mset (ws_bucket (ev_user ev) s)) w = 1"
  shows "\<exists>t. on_event_handler L lv ev d type s = (Ok (), t) \<and>
    written_to w t = written_to w s @ (if passed_on type then [stringify L (dom_json (doms (sv_world s) d))] else []) \<and>
    sv_pool t = sv_pool s \<and> sv_events t = sv_events s \<and> sv_world t = sv_world s \<and> (\<forall>v. ws_bucket v t = ws_bucket v s)"
proof -
  obtain rc where "virDomainRef lv d (sv_world s) = (Ok rc, sv_world s)" using d by (auto simp: announced_def)
  from on_domain_Ok [where m = "virDomainRef lv d", OF c this]
  have ref: "on_domain (ev_conn ev) (virDomainRef lv d) s = (Ok rc, s)" by simp
  have "reads_back lv d doms" using d by (simp add: announced_def)
  from on_domain_Ok [where m = "simple_domain lv d", OF c simple_domain_run [OF this]]
  have dom: "on_domain (ev_conn ev) (simple_domain lv d) s = (Ok (dom_json (doms (sv_world s) d)), s)" by simp
  obtain m where cast: "ws_pool_broadcast L (ev_user ev) (dom_json (doms (sv_world s) d)) s = (Ok (), s\<lparr>sv_websockets := m,
      sv_written := sv_written s @ map (\<lambda>c. (c, stringify L (dom_json (doms (sv_world s) d)))) (ws_bucket (ev_user ev) s)\<rparr>)"
    and m: "\<forall>u. ws_bucket u (s\<lparr>sv_websockets := m\<rparr>) = ws_bucket u s" using broadcast_reaches_user by blast
  let ?t = "s\<lparr>sv_websockets := m, sv_written := sv_written s @
      map (\<lambda>c. (c, stringify L (dom_json (doms (sv_world s) d)))) (ws_bucket (ev_user ev) s)\<rparr>"
  have t: "written_to w ?t = written_to w s @ [stringify L (dom_json (doms (sv_world s) d))]"
    by (simp add: written_to_def written_to_map [OF w])
  have buckets: "ws_bucket v ?t = ws_bucket v s" for v using m by (simp add: ws_bucket_def)
  have "on_event_handler L lv ev d type s = (Ok (), if passed_on type then ?t else s)"
    by (auto simp: on_event_handler_def on_lifecycle_def lifecycle_targets [OF type] passed_on_def act_simps ref dom cast)
  with t buckets show ?thesis
    by (intro exI [of _ "if passed_on type then ?t else s"]) (cases "passed_on type"; simp)
qed

section \<open>Events in order\<close>

text \<open>An event with what happened to libvirt before it was sent.\<close>

type_synonym 'w change = "('w \<Rightarrow> 'w) \<times> domain_ptr \<times> int"

definition on_events :: "libs \<Rightarrow> 'w libvirt_c \<Rightarrow> event \<Rightarrow> 'w change list \<Rightarrow> ('w server, unit) act" where
  "on_events L lv ev = act_for (\<lambda>(f, d, type). act_then (act_modify (\<lambda>s. s\<lparr>sv_world := f (sv_world s)\<rparr>))
     (on_event_handler L lv ev d type))"

text \<open>The messages the events are worth.\<close>

fun messages :: "libs \<Rightarrow> ('w \<Rightarrow> store) \<Rightarrow> 'w change list \<Rightarrow> 'w \<Rightarrow> string list" where
  "messages L doms [] w = []"
| "messages L doms ((f, d, type) # es) w =
     (if passed_on type then [stringify L (dom_json (doms (f w) d))] else []) @ messages L doms es (f w)"

lemma events_written:
  assumes "\<forall>(f, d, type) \<in> set es. announced lv d doms \<and> 0 \<le> type \<and> type < 9"
    and "sm_find (ev_conn ev) (sv_pool s) = Some c" "count (mset (ws_bucket (ev_user ev) s)) w = 1"
  shows "\<exists>t. on_events L lv ev es s = (Ok (), t) \<and> written_to w t = written_to w s @ messages L doms es (sv_world s) \<and>
    sv_events t = sv_events s \<and> (\<forall>v. ws_bucket v t = ws_bucket v s)"
  using assms
proof (induction es arbitrary: s)
  case Nil
  then show ?case by (simp add: on_events_def act_simps)
next
  case (Cons e es)
  obtain f d type where e: "e = (f, d, type)" by (cases e)
  let ?s = "s\<lparr>sv_world := f (sv_world s)\<rparr>"
  have same: "ws_bucket v ?s = ws_bucket v s" "written_to w ?s = written_to w s" for v by (simp_all add: ws_bucket_def written_to_def)
  from Cons.prems(1) e have "announced lv d doms" "0 \<le> type" "type < 9" by auto
  from event_written [OF this, of ev ?s c w L] Cons.prems(2,3) same(1) obtain s1 where
    s1: "on_event_handler L lv ev d type ?s = (Ok (), s1)"
    "written_to w s1 = written_to w s @ (if passed_on type then [stringify L (dom_json (doms (f (sv_world s)) d))] else [])"
    "sv_pool s1 = sv_pool s" "sv_events s1 = sv_events s" "sv_world s1 = f (sv_world s)" "\<forall>v. ws_bucket v s1 = ws_bucket v s"
    by (auto simp: same)
  from Cons.IH [of s1] Cons.prems s1(3,6) obtain t where
    "on_events L lv ev es s1 = (Ok (), t)" "written_to w t = written_to w s1 @ messages L doms es (f (sv_world s))"
    "sv_events t = sv_events s" "\<forall>v. ws_bucket v t = ws_bucket v s" by (auto simp: s1(4-6))
  with s1(1,2) show ?case by (auto simp: e on_events_def act_simps)
qed



section \<open>A session\<close>

definition lab_dom :: dom where
  "lab_dom = \<lparr>do_id = 1, do_name = ''vm'', do_meta = (\<lambda>ty. []), do_state = 1, do_autostart = True\<rparr>"

lemma lab_announced: "announced careful_libvirt 1 (\<lambda>w d. lab_dom)"
  by (simp add: announced_def reads_back_def careful_libvirt_def lab_libvirt_def stub_libvirt_def stub_with_def domain_defs
      libvirt_defs act_simps lab_dom_def)


end
