(* ===== verification/Shutdown_Time.thy ===== *)
theory Shutdown_Time
  imports Domain
begin

text \<open>
  How long \<open>domain::shutdown\<close> keeps its caller waiting. \<open>Domain\<close> shows that it ends under a steady
  clock; here every call also takes at most a known time, and the whole is bounded by the two timeouts.
\<close>

section \<open>Calls that take a bounded time\<close>

text \<open>
  Reading the clock and asking libvirt take at most \<open>delta\<close> nanoseconds, and a sleep is late by at most
  \<open>delta\<close>.
\<close>

definition timely :: "'w libvirt_c \<Rightarrow> 'w os \<Rightarrow> ('w \<Rightarrow> int) \<Rightarrow> int \<Rightarrow> bool" where
  "timely lv os clock delta \<longleftrightarrow> steady lv os clock \<and> 0 \<le> delta \<and>
     (\<forall>w. clock (snd (os_now os w)) \<le> clock w + delta) \<and>
     (\<forall>ms w. 0 \<le> ms \<longrightarrow> clock (os_sleep_for os ms w) \<le> clock w + ms * 1000000 + delta) \<and>
     (\<forall>ptr flags w. clock (snd (c_virDomainGetState lv ptr flags w)) \<le> clock w + delta) \<and>
     (\<forall>ptr w. clock (snd (c_virDomainShutdown lv ptr w)) \<le> clock w + delta)"

lemma timelyD:
  assumes "timely lv os clock delta"
  shows "steady lv os clock" "0 \<le> delta"
    and "os_now os w = (t, w') \<Longrightarrow> clock w \<le> t" "os_now os w = (t, w') \<Longrightarrow> t \<le> clock w'"
    and "os_now os w = (t, w') \<Longrightarrow> clock w' \<le> clock w + delta"
    and "clock (os_sleep_for os 20 w) \<le> clock w + 20000000 + delta"
    and "virDomainGetState lv ptr flags w = (r, w') \<Longrightarrow> clock w' \<le> clock w + delta"
    and "virDomainShutdown lv ptr w = (q, w') \<Longrightarrow> clock w' \<le> clock w + delta"
proof -
  have steady: "steady lv os clock" using assms by (simp add: timely_def)
  note t = assms [unfolded timely_def]
  show "steady lv os clock" "0 \<le> delta" using t by simp_all
  show "os_now os w = (t, w') \<Longrightarrow> clock w \<le> t" "os_now os w = (t, w') \<Longrightarrow> t \<le> clock w'"
    using steadyD(1,2) [OF steady] by blast+
  show "os_now os w = (t, w') \<Longrightarrow> clock w' \<le> clock w + delta" using t by (metis snd_conv)
  have "clock (os_sleep_for os 20 w) \<le> clock w + 20 * 1000000 + delta"
    using t by (metis zero_le_numeral)
  then show "clock (os_sleep_for os 20 w) \<le> clock w + 20000000 + delta" by simp
  show "virDomainGetState lv ptr flags w = (r, w') \<Longrightarrow> clock w' \<le> clock w + delta"
    unfolding virDomainGetState_def using t by (metis snd_conv)
  show "virDomainShutdown lv ptr w = (q, w') \<Longrightarrow> clock w' \<le> clock w + delta"
    unfolding virDomainShutdown_def using t by (metis snd_conv)
qed

section \<open>One loop\<close>

text \<open>The time from the start of a loop up to which an iteration can begin.\<close>

definition last_start :: "rat \<Rightarrow> int \<Rightarrow> rat" where
  "last_start timeout delta = max 0 timeout * 1000000000 + of_int (20000000 + 2 * delta)"

lemma next_start:
  assumes "timely lv os clock delta" "os_now os w1 = (t, w2)" "\<not> elapsed_seconds start t > timeout"
  shows "of_int (clock (os_sleep_for os 20 w2) - start) \<le> last_start timeout delta"
proof -
  have "clock (os_sleep_for os 20 w2) - start \<le> t - start + (20000000 + 2 * delta)"
    using timelyD(6) [OF assms(1), of w2] timelyD(2-5) [OF assms(1)] assms(2) by fastforce
  then have "(of_int (clock (os_sleep_for os 20 w2) - start) :: rat) \<le> of_int (t - start + (20000000 + 2 * delta))"
    by (simp only: of_int_le_iff)
  moreover have "of_int (t - start) \<le> timeout * 1000000000"
    using assms(3) by (simp add: elapsed_seconds_def field_simps)
  moreover have "timeout * 1000000000 \<le> max 0 timeout * 1000000000" by simp
  ultimately show ?thesis unfolding last_start_def by (simp only: of_int_add)
qed

lemma poll_state_time:
  assumes "timely lv os clock delta" "poll_state lv os ptr targets timeout message start state w = Some r"
    and "of_int (clock w - start) \<le> last_start timeout delta"
  shows "of_int (clock (snd r) - start) \<le> last_start timeout delta + of_int (2 * delta)"
proof -
  let ?P = "\<lambda>lv os ptr targets timeout message start state w r. timely lv os clock delta \<longrightarrow>
    of_int (clock w - start) \<le> last_start timeout delta \<longrightarrow>
    of_int (clock (snd r) - start) \<le> last_start timeout delta + of_int (2 * delta)"
  have "?P lv os ptr targets timeout message start state w r"
  proof (rule poll_state.raw_induct [where P = ?P, OF _ assms(2)], intro impI)
    fix f lv os ptr targets timeout message start state w r
    assume IH: "\<And>lv os ptr targets timeout message start state w r.
        f lv os ptr targets timeout message start state w = Some r \<Longrightarrow> ?P lv os ptr targets timeout message start state w r"
      and eq: "(case virDomainGetState lv ptr 0 w of
        (Ok (rc, written), w1) \<Rightarrow>
          (let state' = (case written of Some (st, reason) \<Rightarrow> st | None \<Rightarrow> state) in
           case state_in state' targets of
             Ok found \<Rightarrow>
               if found then Some (Ok state', w1)
               else let (t, w2) = os_now os w1 in
                 if elapsed_seconds start t > timeout
                 then Some (Throw (Out_Of_Range message), w2)
                 else f lv os ptr targets timeout message start state' (os_sleep_for os 20 w2)
           | _ \<Rightarrow> Some (Undef, w1))
      | (Throw e, w1) \<Rightarrow> Some (Throw e, w1)
      | (Undef, w1) \<Rightarrow> Some (Undef, w1)
      | (Hang, w1) \<Rightarrow> Some (Hang, w1)) = Some r"
      and lv: "timely lv os clock delta" and w: "of_int (clock w - start) \<le> last_start timeout delta"
    obtain res w1 where get: "virDomainGetState lv ptr 0 w = (res, w1)" by force
    obtain t w2 where now: "os_now os w1 = (t, w2)" by force
    have late: "(of_int (clock v - start) :: rat) \<le> last_start timeout delta + of_int (2 * delta)" if "v = w1 \<or> v = w2" for v
    proof -
      have "clock v - start \<le> clock w - start + 2 * delta"
        using timelyD(7) [OF lv get] timelyD(5) [OF lv now] timelyD(2) [OF lv] that by auto
      then have "(of_int (clock v - start) :: rat) \<le> of_int (clock w - start + 2 * delta)" by (simp only: of_int_le_iff)
      with w show ?thesis by simp
    qed
    have again: "of_int (clock (snd r) - start) \<le> last_start timeout delta + of_int (2 * delta)"
      if "f lv os ptr targets timeout message start st (os_sleep_for os 20 w2) = Some r" "\<not> elapsed_seconds start t > timeout" for st
      using IH [OF that(1)] lv next_start [OF lv now that(2)] by simp
    from eq late again show "of_int (clock (snd r) - start) \<le> last_start timeout delta + of_int (2 * delta)"
      unfolding get by (auto simp: Let_def now split: outcome.splits prod.splits if_splits option.splits)
  qed
  with assms(1,3) show ?thesis by blast
qed

lemma poll_time:
  assumes "timely lv os clock delta" "act_ends (virDomainGetState lv ptr 0)"
    and "poll lv os ptr targets timeout message state w = (r, w')"
  shows "of_int (clock w' - clock w) \<le> max 0 timeout * 1000000000 + (of_int (20000000 + 5 * delta) :: rat)"
proof -
  obtain start w1 where now: "os_now os w = (start, w1)" by force
  note le = timelyD(3-5) [OF assms(1) now] timelyD(2) [OF assms(1)]
  have "r \<noteq> Hang"
    using act_endsD [OF poll_ends [OF timelyD(1) [OF assms(1)] assms(2)], of targets timeout message state w] assms(3) by simp
  with assms(3) now have run: "poll_state lv os ptr targets timeout message start state w1 = Some (r, w')"
    by (auto simp: poll_def split: option.splits)
  have "clock w1 - start \<le> 20000000 + 2 * delta" using le by simp
  then have "(of_int (clock w1 - start) :: rat) \<le> of_int (20000000 + 2 * delta)" by (simp only: of_int_le_iff)
  moreover have "0 \<le> max 0 timeout * 1000000000" by simp
  ultimately have "of_int (clock w1 - start) \<le> last_start timeout delta" by (simp add: last_start_def)
  from poll_state_time [OF assms(1) run this]
  have "of_int (clock w' - start) \<le> last_start timeout delta + of_int (2 * delta)" by simp
  moreover have "clock w' - clock w \<le> clock w' - start + delta" using le by simp
  then have "(of_int (clock w' - clock w) :: rat) \<le> of_int (clock w' - start + delta)" by (simp only: of_int_le_iff)
  ultimately show ?thesis by (simp add: last_start_def)
qed

section \<open>The whole shutdown\<close>

text \<open>A call after which the clock has advanced by at most \<open>limit\<close>; limits add up along a sequence.\<close>

definition act_within :: "('w \<Rightarrow> int) \<Rightarrow> rat \<Rightarrow> ('w, 'a) act \<Rightarrow> bool" where
  "act_within clock limit m \<longleftrightarrow> (\<forall>w. of_int (clock (snd (m w)) - clock w) \<le> limit)"

lemma act_within_bind:
  assumes "act_within clock a m" "\<And>x. act_within clock b (f x)" "0 \<le> b"
  shows "act_within clock (a + b) (act_bind m f)"
  unfolding act_within_def
proof
  fix w
  obtain r w1 where m: "m w = (r, w1)" by force
  with assms(1) have 1: "of_int (clock w1 - clock w) \<le> a" unfolding act_within_def by (metis snd_conv)
  have 2: "of_int (clock (snd (f x w1)) - clock w1) \<le> b" for x using assms(2) by (simp add: act_within_def)
  show "of_int (clock (snd (act_bind m f w)) - clock w) \<le> a + b"
    using m 1 2 assms(3) by (cases r) (auto simp: act_bind_def intro: order_trans [OF _ add_mono [OF 1 2], rotated] add_increasing2)
qed

lemma act_within_unchanged: "0 \<le> limit \<Longrightarrow> act_within clock limit (act_lift r)" "0 \<le> limit \<Longrightarrow> act_within clock limit (act_return a)"
  by (simp_all add: act_within_def act_lift_def act_return_def)

text \<open>What an option allows the loop that reads it, in nanoseconds; without the option there is no loop.\<close>

definition wait_limit :: "virt_config \<Rightarrow> string \<Rightarrow> rat" where
  "wait_limit conf name = (case cfg_double conf name of Some v \<Rightarrow> max 0 v * 1000000000 | None \<Rightarrow> 0)"

lemma wait_limit_nonneg: "0 \<le> wait_limit conf name"
  by (simp add: wait_limit_def split: option.split)

text \<open>Reading an option and running its loop.\<close>

lemma loop_within:
  assumes "timely lv os clock delta" "act_ends (virDomainGetState lv ptr 0)"
    and "\<And>x. act_within clock limit (f x)" "0 \<le> limit"
  shows "act_within clock (wait_limit conf name + of_int (20000000 + 5 * delta) + limit)
    (act_bind (act_lift (get_double conf name)) (\<lambda>timeout.
      act_bind (poll lv os ptr targets timeout (message timeout) state) f))"
proof (cases "cfg_double conf name")
  case None
  have "0 \<le> (of_int (20000000 + 5 * delta) :: rat)" using timelyD(2) [OF assms(1)] by simp
  then have "0 \<le> wait_limit conf name + of_int (20000000 + 5 * delta) + limit"
    using wait_limit_nonneg [of conf name] assms(4) by linarith
  then show ?thesis by (simp add: get_double_def None act_within_def act_simps)
next
  case (Some timeout)
  have "act_within clock (max 0 timeout * 1000000000 + of_int (20000000 + 5 * delta))
      (poll lv os ptr targets timeout (message timeout) state)"
    unfolding act_within_def using poll_time [OF assms(1,2)] by (metis prod.collapse)
  from act_within_bind [OF this assms(3,4)] show ?thesis
    by (simp add: get_double_def Some wait_limit_def act_within_def act_simps)
qed

text \<open>C18: a shutdown is bounded in time: with a libvirt that answers within \<open>delta\<close> nanoseconds and a clock
  and sleeps that are at most that late, \<open>domain::shutdown\<close> has returned or thrown when the two
  configured timeouts, two polling intervals of 20 ms and eleven such delays have passed, whatever
  states the domain goes through, and whether or not the options are there.\<close>

theorem shutdown_time_bounded:
  assumes "timely lv os clock delta" and "responsive lv ptr"
  shows "\<exists>r w'. domain_shutdown conf lv os ptr w = (r, w') \<and> r \<noteq> Hang \<and>
    of_int (clock w' - clock w) \<le> wait_limit conf ''libvirt-shutdown-timeout'' +
      wait_limit conf ''libvirt-shutoff-timeout'' + of_int (40000000 + 11 * delta)"
proof -
  let ?T1 = "wait_limit conf ''libvirt-shutdown-timeout''" and ?T2 = "wait_limit conf ''libvirt-shutoff-timeout''"
  let ?d = "of_int (20000000 + 5 * delta) :: rat"
  note ends = responsiveD(2) [OF assms(2)]
  have pos: "0 \<le> ?d" using timelyD(2) [OF assms(1)] by simp
  have rest: "act_within clock (?T1 + ?d + (?T2 + ?d + 0))
     (act_bind (act_lift (get_double conf ''libvirt-shutdown-timeout'')) (\<lambda>timeout.
     act_bind (poll lv os ptr shutdown_mask timeout (cfg_format conf timeout @ '' second timeout exceeded'') 0) (\<lambda>state.
     act_bind (act_lift (get_double conf ''libvirt-shutoff-timeout'')) (\<lambda>timeout.
     act_bind (poll lv os ptr shutoff_mask timeout ''15 second shutdown timeout exceeded'' state) (\<lambda>state.
     act_return True)))))"
    using pos wait_limit_nonneg [of conf "''libvirt-shutoff-timeout''"]
    by (intro loop_within [OF assms(1) ends] act_within_unchanged) simp_all
  have down: "act_within clock (of_int delta) (virDomainShutdown lv ptr)"
    unfolding act_within_def
  proof
    fix w
    have "clock (snd (virDomainShutdown lv ptr w)) - clock w \<le> delta"
      using timelyD(8) [OF assms(1) prod.collapse [symmetric], of ptr w] by simp
    then show "of_int (clock (snd (virDomainShutdown lv ptr w)) - clock w) \<le> (of_int delta :: rat)" by (simp only: of_int_le_iff)
  qed
  have limit: "0 \<le> ?T1 + ?d + (?T2 + ?d + 0)"
    using pos by (intro add_nonneg_nonneg wait_limit_nonneg order_refl)
  have "act_within clock (of_int delta + (?T1 + ?d + (?T2 + ?d + 0))) (domain_shutdown conf lv os ptr)"
    unfolding domain_shutdown_def
    by (rule act_within_bind [OF down _ limit]) (simp only: rest act_within_unchanged [OF limit] split: if_split, blast)
  then have "of_int (clock (snd (domain_shutdown conf lv os ptr w)) - clock w) \<le> of_int delta + (?T1 + ?d + (?T2 + ?d + 0))"
    by (simp add: act_within_def)
  then have "of_int (clock (snd (domain_shutdown conf lv os ptr w)) - clock w) \<le> ?T1 + ?T2 + of_int (40000000 + 11 * delta)"
    by simp
  moreover have "fst (domain_shutdown conf lv os ptr w) \<noteq> Hang"
    using act_endsD [OF domain_shutdown_ends [OF timelyD(1) [OF assms(1)] assms(2)]] .
  ultimately show ?thesis by (metis prod.collapse)
qed

text \<open>A domain that never shuts down: the shutdown gives up within 18.04 seconds.\<close>

theorem shutdown_time_bounded_witness:
  "\<exists>r w'. domain_shutdown default_config (fixed_state_libvirt 1) counting_os 1 0 = (r, w') \<and> r \<noteq> Hang \<and>
     w' \<le> 18040000000"
proof -
  have "timely (fixed_state_libvirt 1) counting_os int 0"
    using steady_fixed_state
    by (simp add: timely_def counting_os_def fixed_state_libvirt_def stub_libvirt_def stub_with_def act_simps)
  from shutdown_time_bounded [OF this responsive_fixed_state, where conf = default_config and ptr = 1 and w = 0]
  obtain r w' where run: "domain_shutdown default_config (fixed_state_libvirt 1) counting_os 1 0 = (r, w')" "r \<noteq> Hang"
    and le: "(of_int (int w' - int 0) :: rat) \<le> 18040000000" by (auto simp: wait_limit_def)
  from le have "(of_nat w' :: rat) \<le> of_nat 18040000000" by simp
  then have "w' \<le> 18040000000" by (simp only: of_nat_le_iff)
  with run show ?thesis by blast
qed

end
