(* ===== verification/Spec2Isabelle.thy ===== *)
theory Spec2Isabelle
  imports Failures Http_Server Startup Main_Program Clients Ws_Life Event_Callbacks Interleaving Handles Syscalls
    Connection_Objects Io_Context Pool_Races Event_Races Domain_Store Shown Session Notify
    Shutdown_Time
begin

text \<open>
  webvirtd is a daemon that gives web clients the libvirt domains of the system's users. It listens on
  a unix socket, speaks HTTP with JSON bodies, opens one libvirt connection a user, and tells the
  websockets of a user what happens to the user's domains. File names are those below \<open>src/src\<close>.

  \<^bold>\<open>The parts and where they are modelled.\<close>

  \<^item> \<open>Prelude\<close>, \<open>Std_Map\<close>: the exceptions of the program and of the standard library, an outcome (a value,
    an exception, undefined behaviour, a call that hangs), stateful calls \<open>('s, 'a) act\<close> with \<open>try\<close>
    blocks, the locale \<open>transition_system\<close>; \<open>std::map\<close> as a sorted association list with a contract
    (locale and interpretation).
  \<^item> \<open>Retry\<close>: \<open>util/retry.hpp\<close> with its 32-bit counters and \<open>http/handlers.hpp\<close>.
  \<^item> \<open>Json\<close>, \<open>Http\<close>: \<open>util/json.cpp\<close> with the conversion of XML, \<open>http/types.hpp\<close>, \<open>http/util.cpp\<close>.
  \<^item> \<open>Libvirt\<close>: the wrappers of \<open>libvirt.cpp\<close> over the record \<open>libvirt_c\<close> of libvirt's functions, and the stub
    library of \<open>stubs/\<close> as one value of it; the system calls of \<open>syscall.hpp\<close> as the record \<open>os\<close>.
  \<^item> \<open>Domain\<close>, \<open>Connection\<close>: \<open>virt/domain.cpp\<close> with the polling loops of a shutdown, \<open>virt/network.cpp\<close>,
    \<open>virt/util.cpp\<close>; \<open>virt/connection.cpp\<close> and the table of \<open>virt/connection_pool.cpp\<close>.
  \<^item> \<open>Data\<close>, \<open>Views\<close>: the documents of \<open>data/\<close> and the handlers of \<open>views/\<close>.
  \<^item> \<open>Server_State\<close>: the record \<open>server\<close> of everything a handler reads and writes: libvirt and the clock
    (\<open>sv_world\<close>), the connections by user, the response, the HTTP and websocket connections, the
    websockets and the event registrations by user, what was written to websockets, the log.
  \<^item> \<open>Regex\<close>, \<open>Middleware\<close>, \<open>Router\<close>: a matcher for the patterns the program uses, the guards of
    \<open>http/middleware.cpp\<close>, \<open>http/router.cpp\<close>.
  \<^item> \<open>Websocket\<close>, \<open>App\<close>: \<open>ws/pool.cpp\<close>, \<open>virt/event.cpp\<close>, \<open>virt/events.cpp\<close>, \<open>virt/events/lifecycle.cpp\<close>, and
    \<open>app.cpp\<close>: the routes, the websocket endpoint, its callbacks; \<open>http/connection.cpp\<close>'s request and
    upgrade; what the handlers of \<open>ws/connection.cpp\<close> do to the daemon.
  \<^item> \<open>Ws_Life\<close>: the operations of one websocket of \<open>ws/connection.cpp\<close> and the order of its callbacks.
  \<^item> \<open>Routes\<close>, \<open>Requests\<close>: what the table of routes does with every target, and with whole requests.
  \<^item> \<open>Ws_Route\<close>, \<open>Ws_Callbacks\<close>, \<open>Ws_System\<close>, \<open>Registry\<close>, \<open>Daemon\<close>, \<open>Failures\<close>: the daemon as a step relation
    (a client connects, a request is handled, a websocket is accepted, read or closed, an event
    arrives), its invariant, the abstract registry it refines, and what goes wrong.
  \<^item> \<open>Http_Server\<close>: \<open>http/server.cpp\<close>, \<open>thread/\<close>, and the life of one connection with its deadline.
  \<^item> \<open>Startup\<close>: the handshake of the two threads of \<open>app::run\<close> and \<open>app::event_loop\<close>.
  \<^item> \<open>Settings\<close>, \<open>Logging\<close>, \<open>Main_Program\<close>: \<open>util/config.cpp\<close>, \<open>util/logging.cpp\<close>, \<open>util/util.cpp\<close>,
    \<open>util/signal.cpp\<close>, \<open>singleton.hpp\<close>, \<open>main.cpp\<close>.
  \<^item> \<open>Domain_Store\<close>: an abstract store of a user's domains, and its refinement by whole requests.
  \<^item> \<open>Shown\<close>: the boot menu from the request that sets it to the detailed view that shows it.
  \<^item> \<open>Session\<close>, \<open>Notify\<close>: the ends together: HTTP clients that talk to the daemon, and libvirt's events up to
    the client of a websocket, with what the libraries carry between them as a parameter.
  \<^item> \<open>Shutdown_Time\<close>: how long a shutdown keeps its caller waiting.
  \<^item> \<open>Event_Races\<close>: the event thread against the destruction of an event object.
  \<^item> \<open>Interleaving\<close>, \<open>Pool_Races\<close>: the callbacks of websockets, and the requests on the table of connections,
    cut into the sections between the locks of \<open>app\<close> and of the pools, on any number of threads.
  \<^item> \<open>Handles\<close>, \<open>Connection_Objects\<close>: the ownership of libvirt's handles by \<open>virt/ptr_type.hpp\<close> and the shared
    pointers of \<open>libvirt_types.hpp\<close>; copies of connections and \<open>util/bench.hpp\<close>.
  \<^item> \<open>Io_Context\<close>: the event loop, \<open>http/io_context.cpp\<close>, its stub, and \<open>thread/worker.cpp\<close>.
  \<^item> \<open>Console\<close>, \<open>Syscalls\<close>: the time stamps of log lines, temporary directories, \<open>syscall.cpp\<close>.
  \<^item> \<open>Event_Callbacks\<close>: the table of C functions in \<open>virt/event_callback.cpp\<close>, with
    \<open>virt/events/callbacks/lifecycle.cpp\<close>.
  \<^item> \<open>Clients\<close>: the two clients, \<open>http/client.cpp\<close> and \<open>ws/client.cpp\<close>.

  \<^bold>\<open>What the theorems show.\<close> A guarded view runs only for an allowed method, an existing user, on an open
  connection of that user and on a domain just looked up; no view touches another user's connection
  or any websocket. The router answers every request with one log line and lets no exception out, and
  its regular expressions dispatch as the plain reading of the path does. Every state the daemon can
  reach is well formed and every step refines the registry of members and subscriptions: an open
  websocket is filed once, under one user who is subscribed, and its close is safe. Sequences of
  requests on a user's domains give the answers of an abstract store, so that what was written is
  read back, and the clients of \<open>http/client.cpp\<close> are told these answers, end to end; what libvirt
  announces of a domain reaches the clients of the user's websockets, once each and in order. A boot menu
  that was set is shown. Views store and answer what they promise on every branch. A shutdown takes no
  longer than its timeouts and a bounded delay. Retries, polling, connections and the client's requests
  end. The socket is served only with its rights restricted. Under every interleaving of the sections
  the lists of websockets stay exact and the removals safe, and a request never gets a connection that
  was opened for another user. Handles are given back exactly as often
  as they are taken. A loop that is told to stop ends. Other theorems state faults: an upgrade
  elsewhere follows a null pointer, a refused registration escapes, a registration outlives its
  connection, failed websockets stay, the start can lose its notification, a close can take the
  registration of a websocket that has just been opened, and a reconnect can take a connection from a
  request that uses it.

  \<^bold>\<open>Interfaces.\<close> Where a component relies on another, the contract is a locale that is interpreted on the
  model's own definitions: the keyed store, the source of connections, the guards of the middleware, the server a client talks to,
  the invariants every view and every request keep, and \<open>transition_system\<close> for the daemon, a connection,
  a websocket, the threads, the interleaved callbacks and requests, and the handles. The operations of a websocket
  are an instance of \<open>linorder\<close>, along which its chain only goes forward.

  \<^bold>\<open>Parameters and hypotheses.\<close> libvirt, the JSON, XML and formatting libraries (\<open>libs\<close>), the option parser,
  what the HTTP library carries (\<open>wire\<close>), its version string and the operating system are arguments. Hypotheses on them state
  documented behaviour: \<open>metadata_store\<close>, \<open>null_refused\<close> (a null connection is refused),
  \<open>deregister_answers\<close>, \<open>steady\<close> (the clock advances with a sleep), \<open>serves_domains\<close> (what is stored
  in libvirt is read back), \<open>keeps_document\<close> (a document that was defined is described again),
  \<open>announced\<close>, \<open>carries\<close> (messages arrive as they were sent, a status without a body without one),
  \<open>timely\<close> (calls and sleeps are late by a bounded time), \<open>stores\<close> and \<open>parses_for\<close>.

  \<^bold>\<open>Bounds and fuel.\<close> The polling loops are partial functions, with theorems that they end under a
  steady clock, and when. The retry is a total function by a measure on its counter. A run of the HTTP client
  takes fuel, of which four is shown to be enough for one request, alone and with the daemon at the other end. The event loop is a partial function, with a
  theorem that it ends once it is told to stop. Sizes, retry counters and string
  positions are words of their width.

  \<^bold>\<open>What is simplified.\<close> In the daemon as a step relation a handler is one atomic step. \<open>Interleaving\<close> and
  \<open>Pool_Races\<close> take the callbacks of websockets and the lookups of connections apart where the program
  takes its locks, and show that uninterrupted they are those steps; a data race inside a section, as the unlocked lookup of \<open>events_\<close> in the
  handshake callback, is not modelled. Bytes on sockets, frames and
  timeouts of the stream are the library's; an asynchronous operation is its start, its completion
  and its handler.

  \<^bold>\<open>Not modelled.\<close> The mocks and the tests; what the classes only declare.
\<close>

end
